(* ===== verification/Kernel_Prelude.thy ===== *)
theory Kernel_Prelude
  imports Main "HOL-Library.Word"
begin

text \<open>
  Shared vocabulary of the development: the machine integers of the i386 target, the
  status codes of \<^verbatim>\<open>kernel/include/kernel/types.h\<close>, the outcome of a kernel routine
  (a value, a kernel panic, or undefined behaviour of the C program) with its sequencing
  operator, and the arithmetic lemmas on words that the component theories use.
\<close>

unbundle bit_operations_syntax

section \<open>Machine integers\<close>

type_synonym u8 = "8 word"
type_synonym u16 = "16 word"
type_synonym u32 = "32 word"
type_synonym u64 = "64 word"

text \<open>Facts about single memory accesses, and frame facts of whole routines.\<close>

named_theorems mem_simps
named_theorems run_simps

section \<open>Status codes\<close>

definition EOK :: u32 where "EOK = 0"
definition EIO :: u32 where "EIO = 1"
definition EINVARG :: u32 where "EINVARG = 2"
definition ENOMEM :: u32 where "ENOMEM = 3"
definition EBADFS :: u32 where "EBADFS = 4"
definition EHRDWRE :: u32 where "EHRDWRE = 10"

lemmas status_defs = EOK_def EIO_def EINVARG_def ENOMEM_def EBADFS_def EHRDWRE_def

definition PAGE_SIZE :: u32 where "PAGE_SIZE = 4096"

section \<open>Outcomes\<close>

text \<open>
  \<open>Ret x\<close>: the routine returned \<open>x\<close>.
  \<open>Panic msg\<close>: \<^verbatim>\<open>PANIC_PRINT\<close>/\<^verbatim>\<open>PANIC_CODE\<close> printed \<open>msg\<close> and entered their endless loop;
  nothing after it runs.
  \<open>Fault\<close>: the C program left the bounds of one of its objects, so that its behaviour is
  not defined by the source.
  A routine that may also run forever has type \<open>'a run\<close>; \<open>None\<close> is \<open>does not return\<close>.
\<close>

datatype 'a outcome = Ret 'a | Panic string | Fault

type_synonym 'a run = "'a outcome option"

fun obind :: "'a outcome \<Rightarrow> ('a \<Rightarrow> 'b outcome) \<Rightarrow> 'b outcome" where
  "obind (Ret x) f = f x"
| "obind (Panic s) f = Panic s"
| "obind Fault f = Fault"

fun rbind :: "'a run \<Rightarrow> ('a \<Rightarrow> 'b run) \<Rightarrow> 'b run" where
  "rbind None f = None"
| "rbind (Some (Ret x)) f = f x"
| "rbind (Some (Panic s)) f = Some (Panic s)"
| "rbind (Some Fault) f = Some Fault"

lemma obind_assoc: "obind (obind x f) g = obind x (\<lambda>y. obind (f y) g)"
  by (cases x) auto

lemma obind_Ret_iff: "obind x f = Ret y \<longleftrightarrow> (\<exists>z. x = Ret z \<and> f z = Ret y)"
  by (cases x) auto

lemma rbind_Ret_iff: "rbind x f = Some (Ret y) \<longleftrightarrow> (\<exists>z. x = Some (Ret z) \<and> f z = Some (Ret y))"
  by (cases "(x, f)" rule: rbind.cases) auto

lemma rbind_assoc: "rbind (rbind x f) g = rbind x (\<lambda>y. rbind (f y) g)"
  by (cases "(x, f)" rule: rbind.cases) auto

lemma rbind_mono [partial_function_mono]:
  assumes "mono_option B" and "\<And>y. mono_option (\<lambda>f. C y f)"
  shows "mono_option (\<lambda>f. rbind (B f) (\<lambda>y. C y f))"
proof (rule monotoneI)
  fix f g :: "'a \<Rightarrow> 'b option"
  assume fg: "fun_ord option_ord f g"
  with assms have B: "option_ord (B f) (B g)" and C: "\<And>y. option_ord (C y f) (C y g)"
    by (auto dest: monotoneD)
  show "option_ord (rbind (B f) (\<lambda>y. C y f)) (rbind (B g) (\<lambda>y. C y g))"
  proof (cases "B f")
    case None
    then show ?thesis by (simp add: flat_ord_def)
  next
    case (Some r)
    with B have "B g = Some r" by (simp add: flat_ord_def)
    with Some C show ?thesis by (cases r) (auto simp: flat_ord_def)
  qed
qed

section \<open>Word arithmetic\<close>

lemma unat_plus_one: "i < n \<Longrightarrow> unat (i + 1) = Suc (unat i)" for i n :: "'a::len word"
proof -
  assume "i < n"
  then have "unat i + 1 < 2 ^ LENGTH('a)"
    using unsigned_less [of n] by (simp add: word_less_nat_alt less_trans_Suc)
  then show ?thesis by (simp add: unat_word_ariths)
qed

lemma word_less_step: "i < n \<Longrightarrow> i + 1 \<le> n" for i n :: "'a::len word"
  by (rule inc_le)

lemma unat_diff_step: "i < n \<Longrightarrow> unat n - unat (i + 1) < unat n - unat i" for i n :: "'a::len word"
  by (simp add: unat_plus_one word_less_nat_alt)

lemma loop_bound_step: "i < n \<Longrightarrow> unat n = c \<Longrightarrow> c - unat (i + 1) < c - unat i"
  for i n :: "'a::len word"
  using unat_diff_step by blast

lemma loop_1024: "i < 1024 \<Longrightarrow> 1024 - unat (i + 1) < 1024 - unat i" for i :: u32
  by (rule loop_bound_step [where n = 1024]) simp_all

lemma unat_pred_less: "n - 1 \<noteq> 0 \<Longrightarrow> unat (n - 2) < unat (n - 1)" for n :: "'a::len word"
proof -
  assume "n - 1 \<noteq> 0"
  then have "unat (n - 1 - 1) < unat (n - 1)" by (rule measure_unat)
  then show ?thesis by (simp add: diff_diff_eq)
qed

lemma of_nat_u32_inj: "i < 2 ^ 32 \<Longrightarrow> j < 2 ^ 32 \<Longrightarrow> (of_nat i :: u32) = of_nat j \<longleftrightarrow> i = j"
  by (simp add: word_unat_eq_iff unat_of_nat take_bit_nat_eq_self)

lemma unat_of_nat32: "i < 2 ^ 32 \<Longrightarrow> unat (of_nat i :: u32) = i"
  by (simp add: unat_of_nat take_bit_nat_eq_self)

lemma unat_u32_lt [simp]: "unat (x :: u32) < 4294967296"
  using unsigned_less [where ?'a = nat and w = x] by simp

lemma unat_u8_lt [simp]: "unat (x :: u8) < 256"
  using unsigned_less [where ?'a = nat and w = x] by simp

lemma unat_Suc_pred: "n \<noteq> 0 \<Longrightarrow> unat n = Suc (unat (n - 1))" for n :: "'a::len word"
  by (simp add: unat_minus_one) (metis Suc_pred unat_gt_0)

lemma sint_u8: "sint b = (if b < 128 then uint b else uint b - 256)" for b :: u8
proof -
  have "0 \<le> uint b" "uint b < 256" using uint_lt2p [of b] by simp_all
  then have "odd (uint b div 128) \<longleftrightarrow> \<not> uint b < 128" by presburger
  moreover have "take_bit 8 (uint b) = uint b"
    using \<open>0 \<le> uint b\<close> \<open>uint b < 256\<close> by (simp add: take_bit_eq_mod)
  ultimately show ?thesis
    by (simp add: sint_uint signed_take_bit_eq_take_bit_minus word_less_def bit_iff_odd)
qed

end
