(* ===== verification/Memory.thy ===== *)
theory Memory
  imports Kernel_Prelude
begin

text \<open>
  The flat byte memory of the machine. An address is a 32-bit word, a memory maps every
  address to a byte, and pointer arithmetic wraps at \<open>2 ^ 32\<close> as it does on the target.
  16- and 32-bit objects are stored little-endian. \<open>in_region p n\<close> is the \<open>n\<close>-byte
  object at \<open>p\<close>; the loads and stores are described bytewise, so that a store changes the
  bytes of its own object only.
\<close>

type_synonym addr = u32
type_synonym mem = "addr \<Rightarrow> u8"

definition NULL :: addr where "NULL = 0"

section \<open>Regions\<close>

definition in_region :: "addr \<Rightarrow> nat \<Rightarrow> addr \<Rightarrow> bool" where
  "in_region p n a \<longleftrightarrow> unat (a - p) < n"

definition disjoint_regions :: "addr \<Rightarrow> nat \<Rightarrow> addr \<Rightarrow> nat \<Rightarrow> bool" where
  "disjoint_regions p n q k \<longleftrightarrow> (\<forall>a. \<not> (in_region p n a \<and> in_region q k a))"

definition same_outside :: "addr \<Rightarrow> nat \<Rightarrow> mem \<Rightarrow> mem \<Rightarrow> bool" where
  "same_outside p n m m' \<longleftrightarrow> (\<forall>a. \<not> in_region p n a \<longrightarrow> m' a = m a)"

lemma in_region_offset: "i < 2 ^ 32 \<Longrightarrow> in_region p n (p + of_nat i) \<longleftrightarrow> i < n"
  by (simp add: in_region_def unat_of_nat32)

lemma disjoint_regionsD: "disjoint_regions p n q k \<Longrightarrow> in_region p n a \<Longrightarrow> \<not> in_region q k a"
  by (auto simp: disjoint_regions_def)

lemma disjoint_regions_sym: "disjoint_regions p n q k \<Longrightarrow> disjoint_regions q k p n"
  by (auto simp: disjoint_regions_def)

lemma same_outside_refl [simp]: "same_outside p n m m"
  by (simp add: same_outside_def)

lemma same_outside_trans:
  "same_outside p n m m' \<Longrightarrow> same_outside p n m' m'' \<Longrightarrow> same_outside p n m m''"
  by (simp add: same_outside_def)

lemma same_outside_mono:
  "same_outside p n m m' \<Longrightarrow> (\<And>a. in_region p n a \<Longrightarrow> in_region q k a) \<Longrightarrow> same_outside q k m m'"
  by (auto simp: same_outside_def)

lemma same_outside_upd: "in_region p n a \<Longrightarrow> same_outside p n m (m(a := v))"
  by (auto simp: same_outside_def)

text \<open>Addresses compared through their distance from a common base below the top of memory.\<close>

lemma in_region_nat:
  assumes "unat p + n \<le> 2 ^ 32"
  shows "in_region p n a \<longleftrightarrow> unat p \<le> unat a \<and> unat a < unat p + n"
proof (cases "p \<le> a")
  case True
  then show ?thesis
    by (auto simp: in_region_def unat_sub word_le_nat_alt)
next
  case False
  then have lt: "unat a < unat p" by (simp add: word_le_nat_alt)
  have "unat (a - p) = 2 ^ 32 + unat a - unat p"
    using lt by (simp add: unat_sub_if_size word_size)
  with lt assms show ?thesis by (auto simp: in_region_def)
qed

lemma disjoint_regions_nat:
  assumes "unat p + n \<le> 2 ^ 32" "unat q + k \<le> 2 ^ 32"
    and "unat p + n \<le> unat q \<or> unat q + k \<le> unat p"
  shows "disjoint_regions p n q k"
  using assms by (auto simp: disjoint_regions_def in_region_nat)

section \<open>Loads and stores\<close>

definition load16 :: "mem \<Rightarrow> addr \<Rightarrow> u16" where
  "load16 m a = ucast (m a) OR push_bit 8 (ucast (m (a + 1)))"

definition load32 :: "mem \<Rightarrow> addr \<Rightarrow> u32" where
  "load32 m a = ucast (m a) OR push_bit 8 (ucast (m (a + 1)))
     OR push_bit 16 (ucast (m (a + 2))) OR push_bit 24 (ucast (m (a + 3)))"

definition store16 :: "mem \<Rightarrow> addr \<Rightarrow> u16 \<Rightarrow> mem" where
  "store16 m a v = m(a := ucast v, a + 1 := ucast (drop_bit 8 v))"

definition store32 :: "mem \<Rightarrow> addr \<Rightarrow> u32 \<Rightarrow> mem" where
  "store32 m a v = m(a := ucast v, a + 1 := ucast (drop_bit 8 v),
     a + 2 := ucast (drop_bit 16 v), a + 3 := ucast (drop_bit 24 v))"

lemma not_bit_u8: "8 \<le> k \<Longrightarrow> \<not> bit (x :: u8) k"
  by (auto dest: bit_imp_le_length)

lemma bit_load32:
  assumes "k < 32"
  shows "bit (load32 m a) k = bit (m (a + of_nat (k div 8))) (k mod 8)"
proof -
  consider "k < 8" | "8 \<le> k" "k < 16" | "16 \<le> k" "k < 24" | "24 \<le> k" "k < 32"
    using assms by linarith
  then show ?thesis
  proof cases
    case 1
    then show ?thesis by (simp add: load32_def bit_simps)
  next
    case 2
    then have "k div 8 = 1" "k mod 8 = k - 8" by presburger+
    with 2 show ?thesis by (auto simp: load32_def bit_simps not_bit_u8)
  next
    case 3
    then have "k div 8 = 2" "k mod 8 = k - 16" by presburger+
    with 3 show ?thesis by (auto simp: load32_def bit_simps not_bit_u8)
  next
    case 4
    then have "k div 8 = 3" "k mod 8 = k - 24" by presburger+
    with 4 show ?thesis by (auto simp: load32_def bit_simps not_bit_u8)
  qed
qed

lemma bit_load16:
  assumes "k < 16"
  shows "bit (load16 m a) k = bit (m (a + of_nat (k div 8))) (k mod 8)"
proof (cases "k < 8")
  case True
  then show ?thesis by (simp add: load16_def bit_simps)
next
  case False
  with assms have "k div 8 = 1" "k mod 8 = k - 8" by presburger+
  with False assms show ?thesis by (auto simp: load16_def bit_simps not_bit_u8)
qed

lemma bit_store32:
  assumes "a' = a + of_nat j" "j < 4"
  shows "store32 m a v a' = ucast (drop_bit (8 * j) v)"
proof -
  have "j \<in> set [0..<4]" using assms by simp
  then show ?thesis
    using assms by (simp add: upt_rec store32_def) (elim disjE; simp)
qed

lemma load32_store32_same [simp]: "load32 (store32 m a v) a = v"
proof (rule bit_word_eqI)
  fix k assume "k < LENGTH(32)"
  then have k: "k < 32" by simp
  then have "store32 m a v (a + of_nat (k div 8)) = ucast (drop_bit (8 * (k div 8)) v)"
    by (intro bit_store32) auto
  with k show "bit (load32 (store32 m a v) a) k = bit v k"
    by (simp add: bit_load32 bit_simps)
qed

lemma store32_outside: "\<not> in_region a 4 b \<Longrightarrow> store32 m a v b = m b"
  by (auto simp: store32_def in_region_def)

lemma store32_same_outside: "same_outside a 4 m (store32 m a v)"
  by (simp add: same_outside_def store32_outside)

lemma store16_outside: "\<not> in_region a 2 b \<Longrightarrow> store16 m a v b = m b"
  by (auto simp: store16_def in_region_def)

lemma load16_store16_same [simp]: "load16 (store16 m a v) a = v"
proof (rule bit_word_eqI)
  fix k assume "k < LENGTH(16)"
  then show "bit (load16 (store16 m a v) a) k = bit v k"
  proof (cases "k < 8")
    case True
    then show ?thesis by (simp add: bit_load16 store16_def bit_simps)
  next
    case False
    from \<open>k < LENGTH(16)\<close> have "k < 16" by simp
    with False have "k div 8 = 1" "k mod 8 = k - 8" by presburger+
    with False \<open>k < 16\<close> show ?thesis by (auto simp: bit_load16 store16_def bit_simps)
  qed
qed

lemma load32_cong: "(\<And>b. in_region a 4 b \<Longrightarrow> m b = m' b) \<Longrightarrow> load32 m a = load32 m' a"
  by (simp add: load32_def in_region_def)

lemma load32_store32_other:
  "disjoint_regions a 4 b 4 \<Longrightarrow> load32 (store32 m a v) b = load32 m b"
  by (rule load32_cong) (metis disjoint_regions_def store32_outside)

lemma load32_upd_other: "\<not> in_region b 4 a \<Longrightarrow> load32 (m(a := v)) b = load32 m b"
  by (rule load32_cong) auto

section \<open>A range of bytes as a list\<close>

definition bytes_at :: "mem \<Rightarrow> addr \<Rightarrow> nat \<Rightarrow> u8 list" where
  "bytes_at m p n = map (\<lambda>i. m (p + of_nat i)) [0..<n]"

fun put_bytes :: "mem \<Rightarrow> addr \<Rightarrow> u8 list \<Rightarrow> mem" where
  "put_bytes m p [] = m"
| "put_bytes m p (b # bs) = put_bytes (m(p := b)) (p + 1) bs"

lemma length_bytes_at [simp]: "length (bytes_at m p n) = n"
  by (simp add: bytes_at_def)

lemma nth_bytes_at [simp]: "i < n \<Longrightarrow> bytes_at m p n ! i = m (p + of_nat i)"
  by (simp add: bytes_at_def)

lemma put_bytes_append: "put_bytes m p (xs @ ys) = put_bytes (put_bytes m p xs) (p + of_nat (length xs)) ys"
  by (induction xs arbitrary: m p) (auto simp: algebra_simps)

lemma unat_pred_region: "a \<noteq> p \<Longrightarrow> unat (a - p) = Suc (unat (a - (p + 1)))" for a p :: addr
proof -
  assume "a \<noteq> p"
  then have "1 + (a - (p + 1)) \<noteq> 0" by (simp add: algebra_simps)
  from unatSuc [OF this] show ?thesis by (simp add: algebra_simps)
qed

lemma put_bytes_nth:
  "length bs \<le> 2 ^ 32 \<Longrightarrow>
   put_bytes m p bs a = (if unat (a - p) < length bs then bs ! unat (a - p) else m a)"
proof (induction bs arbitrary: m p)
  case Nil
  then show ?case by simp
next
  case (Cons b bs)
  show ?case
  proof (cases "a = p")
    case True
    have "unat (a - (p + 1)) = 4294967295"
      using True by (simp add: unsigned_minus_1_eq_mask mask_eq_exp_minus_1)
    with Cons True show ?thesis by simp
  next
    case False
    with Cons unat_pred_region [OF False] show ?thesis by simp
  qed
qed

lemma put_bytes_same_outside:
  "length bs \<le> n \<Longrightarrow> n \<le> 2 ^ 32 \<Longrightarrow> same_outside p n m (put_bytes m p bs)"
  by (auto simp: same_outside_def in_region_def put_bytes_nth)

lemma bytes_at_put_bytes: "length bs < 2 ^ 32 \<Longrightarrow> bytes_at (put_bytes m p bs) p (length bs) = bs"
  by (rule nth_equalityI) (auto simp: put_bytes_nth unat_of_nat32)

lemma bytes_at_cong:
  "(\<And>a. in_region p n a \<Longrightarrow> m a = m' a) \<Longrightarrow> n \<le> 2 ^ 32 \<Longrightarrow> bytes_at m p n = bytes_at m' p n"
  by (auto simp: bytes_at_def in_region_offset)

section \<open>Regions, stepwise\<close>

lemma in_region_Suc: "in_region p (Suc n) a \<longleftrightarrow> a = p \<or> (a \<noteq> p \<and> in_region (p + 1) n a)"
  using unat_pred_region [of a p] by (auto simp: in_region_def)

lemma disjoint_regions_tl:
  "disjoint_regions p (Suc n) q (Suc k) \<Longrightarrow> n < 2 ^ 32 \<Longrightarrow> k < 2 ^ 32 \<Longrightarrow> disjoint_regions (p + 1) n (q + 1) k"
proof -
  assume d: "disjoint_regions p (Suc n) q (Suc k)" and n: "n < 2 ^ 32" "k < 2 ^ 32"
  have "in_region (r + 1) j a \<Longrightarrow> in_region r (Suc j) a" for r j a
    by (cases "a = r") (simp_all add: in_region_Suc)
  with d show ?thesis by (auto simp: disjoint_regions_def)
qed

lemma in_region_add:
  assumes "in_region (p + of_nat n) k a" "n + k \<le> 2 ^ 32"
  shows "in_region p (n + k) a"
proof -
  define x where "x = a - (p + of_nat n)"
  have x: "unat x < k" using assms(1) by (simp add: in_region_def x_def)
  then have "unat (x + of_nat n) = unat x + n"
    using assms(2) by (simp add: unat_word_ariths unat_of_nat)
  moreover have "a - p = x + of_nat n" by (simp add: x_def)
  ultimately show ?thesis using x by (simp only: in_region_def)
qed

lemma in_regionE:
  assumes "in_region p n a"
  obtains j where "j < n" "a = p + of_nat j"
  using assms by (intro that [of "unat (a - p)"]) (auto simp: in_region_def)

end
