(* ===== verification/CString.thy ===== *)
theory CString
  imports Memory
begin

text \<open>
  \<^verbatim>\<open>kernel/src/lib/string.c\<close>: the block operations (\<open>memcpy\<close>, \<open>memset\<close>, \<open>memmove\<close>,
  \<open>memcmp\<close>, \<open>memchr\<close>) and the operations on NUL-terminated strings, on the byte memory.
  A loop with a counter is a \<^theory_text>\<open>function\<close> with a measure; a loop that runs until it
  meets a byte in memory is a \<^theory_text>\<open>partial_function\<close>, where \<open>None\<close> means that it does
  not return. \<open>cstr m p bs\<close> says that the string at \<open>p\<close> is \<open>bs\<close>; under it every string
  operation returns, with the value stated here. A plain \<^verbatim>\<open>char\<close> is signed on the target.
\<close>

section \<open>Block operations\<close>

function memcpy_loop :: "mem \<Rightarrow> addr \<Rightarrow> addr \<Rightarrow> u32 \<Rightarrow> u32 \<Rightarrow> mem" where
  "memcpy_loop m dest src n i =
     (if i < n then memcpy_loop (m(dest + i := m (src + i))) dest src n (i + 1) else m)"
  by pat_completeness auto
termination
  by (relation "measure (\<lambda>(m, dest, src, n, i). unat n - unat i)") (auto simp: unat_diff_step)

definition memcpy :: "mem \<Rightarrow> addr \<Rightarrow> addr \<Rightarrow> u32 \<Rightarrow> mem" where
  "memcpy m dest src n = memcpy_loop m dest src n 0"

function memset_loop :: "mem \<Rightarrow> addr \<Rightarrow> u8 \<Rightarrow> u32 \<Rightarrow> u32 \<Rightarrow> mem" where
  "memset_loop m s c n i =
     (if i < n then memset_loop (m(s + i := c)) s c n (i + 1) else m)"
  by pat_completeness auto
termination
  by (relation "measure (\<lambda>(m, s, c, n, i). unat n - unat i)") (auto simp: unat_diff_step)

definition memset :: "mem \<Rightarrow> addr \<Rightarrow> u32 \<Rightarrow> u32 \<Rightarrow> mem" where
  "memset m s c n = memset_loop m s (ucast c) n 0"

function memmove_up :: "mem \<Rightarrow> addr \<Rightarrow> addr \<Rightarrow> u32 \<Rightarrow> mem" where
  "memmove_up m dest src i =
     (if i > 0 then memmove_up (m(dest + (i - 1) := m (src + (i - 1)))) dest src (i - 1) else m)"
  by pat_completeness auto
termination
  by (relation "measure (\<lambda>(m, dest, src, i). unat i)")
    (auto simp: word_gt_0 measure_unat)

definition memmove :: "mem \<Rightarrow> addr \<Rightarrow> addr \<Rightarrow> u32 \<Rightarrow> mem" where
  "memmove m dest src n =
     (if src > dest then memcpy_loop m dest src n 0
      else if src < dest then memmove_up m dest src n
      else m)"

function memcmp_loop :: "mem \<Rightarrow> addr \<Rightarrow> addr \<Rightarrow> u32 \<Rightarrow> u32 \<Rightarrow> int" where
  "memcmp_loop m s1 s2 n i =
     (if i < n then
        (if m (s1 + i) \<noteq> m (s2 + i) then (if m (s1 + i) < m (s2 + i) then -1 else 1)
         else memcmp_loop m s1 s2 n (i + 1))
      else 0)"
  by pat_completeness auto
termination
  by (relation "measure (\<lambda>(m, s1, s2, n, i). unat n - unat i)") (auto simp: unat_diff_step)

definition memcmp :: "mem \<Rightarrow> addr \<Rightarrow> addr \<Rightarrow> u32 \<Rightarrow> int" where
  "memcmp m s1 s2 n = memcmp_loop m s1 s2 n 0"

text \<open>The \<^verbatim>\<open>do ... while (--n != 0)\<close> of \<^verbatim>\<open>memchr\<close>, entered with a nonzero \<open>n\<close>.\<close>

function memchr_loop :: "mem \<Rightarrow> addr \<Rightarrow> u8 \<Rightarrow> u32 \<Rightarrow> addr" where
  "memchr_loop m p c n =
     (if m p = c then p
      else if n - 1 \<noteq> 0 then memchr_loop m (p + 1) c (n - 1)
      else NULL)"
  by pat_completeness auto
termination
  by (relation "measure (\<lambda>(m, p, c, n). unat (n - 1))") (auto simp: unat_pred_less)

definition memchr :: "mem \<Rightarrow> addr \<Rightarrow> u8 \<Rightarrow> u32 \<Rightarrow> addr" where
  "memchr m s c n = (if n \<noteq> 0 then memchr_loop m s c n else NULL)"

declare memcpy_loop.simps [simp del] memset_loop.simps [simp del] memmove_up.simps [simp del]
  memcmp_loop.simps [simp del] memchr_loop.simps [simp del]

section \<open>String operations\<close>

partial_function (option) strlen_loop :: "mem \<Rightarrow> addr \<Rightarrow> u32 \<Rightarrow> u32 option" where
  "strlen_loop m str len =
     (if m str \<noteq> 0 then strlen_loop m (str + 1) (len + 1) else Some len)"

definition strlen :: "mem \<Rightarrow> addr \<Rightarrow> u32 option" where
  "strlen m str = strlen_loop m str 0"

definition rawmemchr :: "mem \<Rightarrow> addr \<Rightarrow> u8 \<Rightarrow> addr option" where
  "rawmemchr m s c =
     (if c \<noteq> 0 then Some (memchr m s c (-1))
      else (case strlen m s of None \<Rightarrow> None | Some n \<Rightarrow> Some (s + n)))"

partial_function (option) strcmp :: "mem \<Rightarrow> addr \<Rightarrow> addr \<Rightarrow> int option" where
  "strcmp m s1 s2 =
     (if m s1 \<noteq> 0 \<and> m s1 = m s2 then strcmp m (s1 + 1) (s2 + 1)
      else Some (uint (m s1) - uint (m s2)))"

text \<open>
  The loop of \<^verbatim>\<open>strncmp\<close>: \<^verbatim>\<open>s2\<close> has already moved past the byte compared when the
  difference is taken, and \<^verbatim>\<open>--s2\<close> moves it back.
\<close>

function strncmp_loop :: "mem \<Rightarrow> addr \<Rightarrow> addr \<Rightarrow> u32 \<Rightarrow> int" where
  "strncmp_loop m s1 s2 n =
     (if m s1 \<noteq> m s2 then uint (m s1) - uint (m s2)
      else if m s1 = 0 then 0
      else if n - 1 \<noteq> 0 then strncmp_loop m (s1 + 1) (s2 + 1) (n - 1)
      else 0)"
  by pat_completeness auto
termination
  by (relation "measure (\<lambda>(m, s1, s2, n). unat (n - 1))") (auto simp: unat_pred_less)

declare strncmp_loop.simps [simp del]

definition strncmp :: "mem \<Rightarrow> addr \<Rightarrow> addr \<Rightarrow> u32 \<Rightarrow> int" where
  "strncmp m s1 s2 n = (if n = 0 then 0 else strncmp_loop m s1 s2 n)"

text \<open>\<^verbatim>\<open>*s == c\<close> compares a sign-extended \<^verbatim>\<open>char\<close> with an \<^verbatim>\<open>int\<close>.\<close>

partial_function (option) strchr :: "mem \<Rightarrow> addr \<Rightarrow> int \<Rightarrow> addr option" where
  "strchr m s c =
     (if sint (m s) = c then Some s
      else if m s \<noteq> 0 then strchr m (s + 1) c
      else Some NULL)"

text \<open>The inner loop of \<^verbatim>\<open>strspn\<close>: the final \<^verbatim>\<open>j\<close>, at a match or at the end of \<^verbatim>\<open>s2\<close>.\<close>

partial_function (option) strspn_inner :: "mem \<Rightarrow> u8 \<Rightarrow> addr \<Rightarrow> u32 \<Rightarrow> u32 option" where
  "strspn_inner m c s2 j =
     (if m (s2 + j) \<noteq> 0 then
        (if c = m (s2 + j) then Some j else strspn_inner m c s2 (j + 1))
      else Some j)"

partial_function (option) strspn_loop :: "mem \<Rightarrow> addr \<Rightarrow> addr \<Rightarrow> u32 \<Rightarrow> u32 option" where
  "strspn_loop m s1 s2 i =
     (if m (s1 + i) \<noteq> 0 then
        Option.bind (strspn_inner m (m (s1 + i)) s2 0)
          (\<lambda>j. if m (s2 + j) = 0 then Some i else strspn_loop m s1 s2 (i + 1))
      else Some i)"

definition strspn :: "mem \<Rightarrow> addr \<Rightarrow> addr \<Rightarrow> u32 option" where
  "strspn m s1 s2 = strspn_loop m s1 s2 0"

partial_function (option) strcspn_loop :: "mem \<Rightarrow> addr \<Rightarrow> addr \<Rightarrow> u32 \<Rightarrow> u32 option" where
  "strcspn_loop m s1 s2 len =
     (if m s1 \<noteq> 0 then
        Option.bind (strchr m s2 (sint (m s1)))
          (\<lambda>r. if r \<noteq> NULL then Some len else strcspn_loop m (s1 + 1) s2 (len + 1))
      else Some len)"

definition strcspn :: "mem \<Rightarrow> addr \<Rightarrow> addr \<Rightarrow> u32 option" where
  "strcspn m s1 s2 = (if s1 = NULL \<or> s2 = NULL then Some 0 else strcspn_loop m s1 s2 0)"

partial_function (option) strpbrk_loop :: "mem \<Rightarrow> addr \<Rightarrow> addr \<Rightarrow> addr option" where
  "strpbrk_loop m s1 s2 =
     (if m s1 \<noteq> 0 then
        Option.bind (strchr m s2 (sint (m s1)))
          (\<lambda>r. if r \<noteq> NULL then Some s1 else strpbrk_loop m (s1 + 1) s2)
      else Some NULL)"

definition strpbrk :: "mem \<Rightarrow> addr \<Rightarrow> addr \<Rightarrow> addr option" where
  "strpbrk m s1 s2 = (if s1 = NULL \<or> s2 = NULL then Some NULL else strpbrk_loop m s1 s2)"

text \<open>
  \<^verbatim>\<open>strtok\<close> keeps its position in the static \<^verbatim>\<open>olds\<close>; the result is the token (or \<open>NULL\<close>),
  the new \<^verbatim>\<open>olds\<close> and the memory, in which the delimiter after the token is now NUL.
\<close>

definition strtok :: "mem \<Rightarrow> addr \<Rightarrow> addr \<Rightarrow> addr \<Rightarrow> (addr \<times> addr \<times> mem) option" where
  "strtok m olds s delim =
     (let s0 = (if s = NULL then olds else s) in
      Option.bind (strspn m s0 delim) (\<lambda>n.
        let s1 = s0 + n in
        if m s1 = 0 then Some (NULL, s1, m)
        else Option.bind (strpbrk m s1 delim) (\<lambda>e.
          if e = NULL then Option.bind (rawmemchr m s1 0) (\<lambda>z. Some (s1, z, m))
          else Some (s1, e + 1, m(e := 0)))))"

partial_function (option) copy_string :: "mem \<Rightarrow> addr \<Rightarrow> addr \<Rightarrow> (mem \<times> addr) option" where
  "copy_string m ptr src =
     (if m src \<noteq> 0 then copy_string (m(ptr := m src)) (ptr + 1) (src + 1)
      else Some (m, ptr))"

definition strcat :: "mem \<Rightarrow> addr \<Rightarrow> addr \<Rightarrow> mem option" where
  "strcat m dest src =
     Option.bind (strlen m dest) (\<lambda>n.
       Option.bind (copy_string m (dest + n) src) (\<lambda>(m', ptr). Some (m'(ptr := 0))))"

partial_function (option) strcpy :: "mem \<Rightarrow> addr \<Rightarrow> addr \<Rightarrow> mem option" where
  "strcpy m dest src =
     (let m' = m(dest := m src)
      in if m src \<noteq> 0 then strcpy m' (dest + 1) (src + 1) else Some m')"

text \<open>\<^verbatim>\<open>strncpy\<close> stops after \<open>n\<close> bytes or after the NUL; it does not pad.\<close>

function strncpy :: "mem \<Rightarrow> addr \<Rightarrow> addr \<Rightarrow> u32 \<Rightarrow> mem \<times> addr" where
  "strncpy m temp src n =
     (if n = 0 then (m, temp)
      else let c = m src; m' = m(temp := c)
           in if c \<noteq> 0 then strncpy m' (temp + 1) (src + 1) (n - 1) else (m', temp + 1))"
  by pat_completeness auto
termination
  by (relation "measure (\<lambda>(m, temp, src, n). unat n)") (auto simp: measure_unat)

declare strncpy.simps [simp del]

text \<open>\<^verbatim>\<open>'a'\<close> is 97 and \<^verbatim>\<open>'z'\<close> is 122; the comparison is on a signed \<^verbatim>\<open>char\<close>.\<close>

partial_function (option) strtoupper :: "mem \<Rightarrow> addr \<Rightarrow> mem option" where
  "strtoupper m p =
     (if m p \<noteq> 0 then
        strtoupper (if 97 \<le> sint (m p) \<and> sint (m p) \<le> 122 then m(p := m p - 32) else m) (p + 1)
      else Some m)"

section \<open>Block operations: what they leave in memory\<close>

lemma word_step_le: "i < n \<Longrightarrow> i + 1 \<le> k \<longleftrightarrow> i < k" for i n k :: u32
  by unat_arith

lemma forward_copy_safe:
  fixes i k n d s :: u32
  assumes "i < n" "i < k" "k < n" "n \<le> d - s \<or> d = s"
  shows "s + k \<noteq> d + i"
  using assms(4)
proof
  assume "d = s"
  with assms(2) show ?thesis by auto
next
  assume "n \<le> d - s"
  with assms(1-3) show ?thesis by unat_arith
qed

lemma backward_copy_safe:
  fixes i k n d s :: u32
  assumes "k < i" "i < n" "n \<le> s - d \<or> d = s"
  shows "s + k \<noteq> d + i"
  using assms(3)
proof
  assume "d = s"
  with assms(1) show ?thesis by auto
next
  assume "n \<le> s - d"
  with assms(1,2) show ?thesis by unat_arith
qed

lemma memcpy_loop_eq:
  assumes "n \<le> dest - src \<or> dest = src"
  shows "memcpy_loop m dest src n i a =
     (if i \<le> a - dest \<and> a - dest < n then m (src + (a - dest)) else m a)"
  using assms
proof (induction m dest src n i rule: memcpy_loop.induct)
  case (1 m dest src n i)
  show ?case
  proof (cases "i < n")
    case False
    then show ?thesis by (auto simp: memcpy_loop.simps [of m])
  next
    case True
    have a: "a = dest + i \<longleftrightarrow> a - dest = i" by auto
    have safe: "\<lbrakk>i < a - dest; a - dest < n\<rbrakk> \<Longrightarrow> src + (a - dest) \<noteq> dest + i"
      using True "1.prems" forward_copy_safe by blast
    have "memcpy_loop m dest src n i a = memcpy_loop (m(dest + i := m (src + i))) dest src n (i + 1) a"
      using True by (simp add: memcpy_loop.simps [of m dest])
    also note "1.IH" [OF True "1.prems"]
    finally show ?thesis
      using True a safe word_step_le [OF True, of "a - dest"] by auto
  qed
qed

lemma memset_loop_eq:
  "memset_loop m s c n i a = (if i \<le> a - s \<and> a - s < n then c else m a)"
proof (induction m s c n i rule: memset_loop.induct)
  case (1 m s c n i)
  show ?case
  proof (cases "i < n")
    case False
    then show ?thesis by (auto simp: memset_loop.simps [of m])
  next
    case True
    have a: "a = s + i \<longleftrightarrow> a - s = i" by auto
    have "memset_loop m s c n i a = memset_loop (m(s + i := c)) s c n (i + 1) a"
      using True by (simp add: memset_loop.simps [of m s])
    also note "1.IH" [OF True]
    finally show ?thesis
      using True a word_step_le [OF True, of "a - s"] by auto
  qed
qed

lemma memmove_up_eq:
  assumes "i \<le> src - dest \<or> dest = src"
  shows "memmove_up m dest src i a = (if a - dest < i then m (src + (a - dest)) else m a)"
  using assms
proof (induction m dest src i rule: memmove_up.induct)
  case (1 m dest src i)
  show ?case
  proof (cases "i > 0")
    case False
    then have "i = 0" by (simp add: word_gt_0)
    then show ?thesis by (simp add: memmove_up.simps [of m])
  next
    case True
    then have pred: "i - 1 < i" by unat_arith
    have a: "a = dest + (i - 1) \<longleftrightarrow> a - dest = i - 1" by (auto simp: algebra_simps)
    have split: "a - dest < i \<longleftrightarrow> a - dest < i - 1 \<or> a - dest = i - 1"
      using True by unat_arith
    have safe: "a - dest < i - 1 \<Longrightarrow> src + (a - dest) \<noteq> dest + (i - 1)"
      using pred "1.prems" backward_copy_safe by blast
    have prems: "i - 1 \<le> src - dest \<or> dest = src"
      using pred "1.prems" by auto
    have "memmove_up m dest src i a = memmove_up (m(dest + (i - 1) := m (src + (i - 1)))) dest src (i - 1) a"
      using True by (simp add: memmove_up.simps [of m dest])
    also note "1.IH" [OF True prems]
    finally show ?thesis
      using a split safe by auto
  qed
qed

lemma memcpy_eq:
  "n \<le> dest - src \<or> dest = src \<Longrightarrow>
   memcpy m dest src n a = (if a - dest < n then m (src + (a - dest)) else m a)"
  by (simp add: memcpy_def memcpy_loop_eq)

lemma memset_eq: "memset m s c n a = (if a - s < n then ucast c else m a)"
  by (simp add: memset_def memset_loop_eq)

lemma in_region_word: "in_region p (unat n) a \<longleftrightarrow> a - p < n" for n :: u32
  by (simp add: in_region_def word_less_nat_alt)

lemma memset_same_outside: "same_outside s (unat n) m (memset m s c n)"
  by (simp add: same_outside_def in_region_word memset_eq)

lemma memcpy_disjoint:
  assumes "disjoint_regions dest (unat n) src (unat n)"
  shows "memcpy m dest src n a = (if a - dest < n then m (src + (a - dest)) else m a)"
proof -
  have "n \<le> dest - src \<or> n = 0"
  proof (rule ccontr)
    assume "\<not> ?thesis"
    then have "in_region src (unat n) dest" "in_region dest (unat n) dest"
      by (auto simp: in_region_word word_gt_0 not_le)
    with assms show False by (auto simp: disjoint_regions_def)
  qed
  then show ?thesis
  proof
    assume "n = 0"
    then show ?thesis by (simp add: memcpy_def memcpy_loop.simps)
  qed (simp add: memcpy_eq)
qed

lemma memcpy_outside: "disjoint_regions dest (unat n) src (unat n) \<Longrightarrow> same_outside dest (unat n) m (memcpy m dest src n)"
  by (simp add: same_outside_def in_region_word memcpy_disjoint)

lemma memcpy_bytes:
  assumes "disjoint_regions dest (unat n) src (unat n)"
  shows "bytes_at (memcpy m dest src n) dest (unat n) = bytes_at m src (unat n)"
proof (rule nth_equalityI)
  fix i assume "i < length (bytes_at (memcpy m dest src n) dest (unat n))"
  then have i: "i < unat n" by simp
  then have "unat (of_nat i :: u32) = i" using less_trans [OF i unat_u32_lt] by (simp add: unat_of_nat32)
  then show "bytes_at (memcpy m dest src n) dest (unat n) ! i = bytes_at m src (unat n) ! i"
    using i by (simp add: memcpy_disjoint [OF assms] word_less_nat_alt)
qed simp


lemma unat_sub_wrap: "a < b \<Longrightarrow> unat (a - b) = 2 ^ 32 + unat a - unat b" for a b :: u32
  by (simp add: unat_sub_if_size word_size word_less_nat_alt)

theorem memmove_copies:
  assumes "unat dest + unat n \<le> 2 ^ 32" and "unat src + unat n \<le> 2 ^ 32"
  shows "memmove m dest src n = (\<lambda>a. if a - dest < n then m (src + (a - dest)) else m a)"
proof
  fix a
  consider "src > dest" | "src < dest" | "src = dest" by (metis linorder_less_linear)
  then show "memmove m dest src n a = (if a - dest < n then m (src + (a - dest)) else m a)"
  proof cases
    case 1
    have "n \<le> dest - src" using unat_sub_wrap [OF 1] assms(2) by (simp add: word_le_nat_alt)
    with 1 show ?thesis by (simp add: memmove_def memcpy_loop_eq)
  next
    case 2
    have "n \<le> src - dest" using unat_sub_wrap [OF 2] assms(1) by (simp add: word_le_nat_alt)
    with 2 show ?thesis by (auto simp: memmove_def memmove_up_eq)
  next
    case 3
    then show ?thesis by (simp add: memmove_def)
  qed
qed

section \<open>Strings\<close>

fun cstr :: "mem \<Rightarrow> addr \<Rightarrow> u8 list \<Rightarrow> bool" where
  "cstr m p [] \<longleftrightarrow> m p = 0"
| "cstr m p (b # bs) \<longleftrightarrow> b \<noteq> 0 \<and> m p = b \<and> cstr m (p + 1) bs"

definition cstring :: "mem \<Rightarrow> addr \<Rightarrow> u8 list \<Rightarrow> bool" where
  "cstring m p bs \<longleftrightarrow> cstr m p bs \<and> p \<noteq> 0 \<and> unat p + length bs < 2 ^ 32"

lemma cstr_append:
  "cstr m p (xs @ ys) \<longleftrightarrow> (\<forall>i < length xs. xs ! i \<noteq> 0 \<and> m (p + of_nat i) = xs ! i) \<and> cstr m (p + of_nat (length xs)) ys"
  by (induction xs arbitrary: p) (auto simp: algebra_simps less_Suc_eq_0_disj)

lemma cstr_iff:
  "cstr m p bs \<longleftrightarrow> (\<forall>i < length bs. bs ! i \<noteq> 0 \<and> m (p + of_nat i) = bs ! i) \<and> m (p + of_nat (length bs)) = 0"
  using cstr_append [of m p bs "[]"] by simp

lemma cstr_unique: "cstr m p xs \<Longrightarrow> cstr m p ys \<Longrightarrow> xs = ys"
proof (induction xs arbitrary: p ys)
  case Nil
  then show ?case by (cases ys) auto
next
  case (Cons x xs)
  then show ?case by (cases ys) auto
qed

lemma cstr_cong:
  "cstr m p bs \<Longrightarrow> (\<And>i. i \<le> length bs \<Longrightarrow> m' (p + of_nat i) = m (p + of_nat i)) \<Longrightarrow> cstr m' p bs"
  by (auto simp: cstr_iff)

lemma cstr_drop: "cstr m p bs \<Longrightarrow> n \<le> length bs \<Longrightarrow> cstr m (p + of_nat n) (drop n bs)"
  using cstr_append [of m p "take n bs" "drop n bs"] by (cases "length bs = n") auto

lemma strlen_loop_cstr: "cstr m p bs \<Longrightarrow> strlen_loop m p len = Some (len + of_nat (length bs))"
  by (induction bs arbitrary: p len) (auto simp: strlen_loop.simps algebra_simps)

lemma strlen_cstr: "cstr m p bs \<Longrightarrow> strlen m p = Some (of_nat (length bs))"
  by (simp add: strlen_def strlen_loop_cstr)

fun byte_compare :: "u8 list \<Rightarrow> u8 list \<Rightarrow> int" where
  "byte_compare [] [] = 0"
| "byte_compare (x # xs) [] = uint x"
| "byte_compare [] (y # ys) = - uint y"
| "byte_compare (x # xs) (y # ys) = (if x = y then byte_compare xs ys else uint x - uint y)"

lemma strcmp_cstr: "cstr m p xs \<Longrightarrow> cstr m q ys \<Longrightarrow> strcmp m p q = Some (byte_compare xs ys)"
proof (induction xs ys arbitrary: p q rule: byte_compare.induct)
qed (auto simp: strcmp.simps)

lemma byte_compare_0: "0 \<notin> set xs \<Longrightarrow> 0 \<notin> set ys \<Longrightarrow> byte_compare xs ys = 0 \<longleftrightarrow> xs = ys"
  by (induction xs ys rule: byte_compare.induct) (auto simp: uint_0_iff dest: unsigned_word_eqI)

lemma cstr_no_nul: "cstr m p bs \<Longrightarrow> 0 \<notin> set bs"
  by (induction bs arbitrary: p) auto

lemma strcmp_eq_0_iff:
  "cstr m p xs \<Longrightarrow> cstr m q ys \<Longrightarrow> strcmp m p q = Some 0 \<longleftrightarrow> xs = ys"
  by (simp add: strcmp_cstr byte_compare_0 cstr_no_nul)

text \<open>\<^verbatim>\<open>strncmp\<close> compares at most \<open>n\<close> bytes, the terminating NUL included.\<close>

lemma strncmp_loop_cstr:
  assumes "cstr m p xs" "cstr m q ys" "n \<noteq> 0"
  shows "strncmp_loop m p q n = byte_compare (take (unat n) xs) (take (unat n) ys)"
  using assms
proof (induction m p q n arbitrary: xs ys rule: strncmp_loop.induct)
  case (1 m p q n)
  have un: "unat n = Suc (unat (n - 1))"
    using "1.prems"(3) by (simp add: unat_minus_one measure_unat) (metis Suc_pred unat_gt_0)
  show ?case
  proof (cases xs)
    case Nil
    with "1.prems" un show ?thesis by (cases ys) (auto simp: strncmp_loop.simps [of m p])
  next
    case (Cons x xs')
    show ?thesis
    proof (cases ys)
      case Nil
      with Cons "1.prems" un show ?thesis by (auto simp: strncmp_loop.simps [of m p])
    next
      case (Cons y ys')
      with \<open>xs = x # xs'\<close> "1.prems" un "1.IH" [of xs' ys'] show ?thesis
        by (auto simp: strncmp_loop.simps [of m p])
    qed
  qed
qed

lemma strncmp_eq_0_iff:
  assumes "cstr m p xs" "cstr m q ys"
  shows "strncmp m p q n = 0 \<longleftrightarrow> take (unat n) xs = take (unat n) ys"
proof (cases "n = 0")
  case True
  then show ?thesis by (simp add: strncmp_def)
next
  case False
  have "0 \<notin> set (take (unat n) xs)" "0 \<notin> set (take (unat n) ys)"
    using cstr_no_nul [OF assms(1)] cstr_no_nul [OF assms(2)] by (meson in_set_takeD)+
  with False assms show ?thesis
    by (simp add: strncmp_def strncmp_loop_cstr byte_compare_0)
qed

lemma sint_eq_iff: "sint a = sint b \<longleftrightarrow> a = b" for a b :: u8
  by (auto dest: signed_word_eqI)

lemma cstring_Cons:
  "cstring m p (b # bs) \<longleftrightarrow> b \<noteq> 0 \<and> m p = b \<and> p \<noteq> 0 \<and> cstring m (p + 1) bs"
proof (cases "p + 1 = 0")
  case True
  then have "p = - 1" by (simp add: eq_neg_iff_add_eq_0)
  then show ?thesis
    by (simp add: cstring_def unsigned_minus_1_eq_mask mask_eq_exp_minus_1)
next
  case False
  then have "unat (p + 1) = Suc (unat p)" by (metis add.commute unatSuc)
  with False show ?thesis by (auto simp: cstring_def)
qed

lemma strchr_cstring:
  "cstring m p bs \<Longrightarrow> c \<noteq> 0 \<Longrightarrow> \<exists>r. strchr m p (sint c) = Some r \<and> (r = NULL \<longleftrightarrow> c \<notin> set bs)"
proof (induction bs arbitrary: p)
  case Nil
  then show ?case by (simp add: strchr.simps cstring_def sint_eq_iff [of 0, simplified] NULL_def)
next
  case (Cons b bs)
  then show ?case
    by (auto simp: strchr.simps [of m p] cstring_Cons sint_eq_iff NULL_def)
qed

lemma strspn_inner_cstr:
  "cstr m (p + j) ds \<Longrightarrow> \<exists>k. strspn_inner m c p j = Some k \<and> (m (p + k) = 0 \<longleftrightarrow> c \<notin> set ds)"
proof (induction ds arbitrary: j)
  case Nil
  then show ?case by (simp add: strspn_inner.simps)
next
  case (Cons d ds)
  then show ?case by (auto simp: strspn_inner.simps [of m c p j] add.assoc)
qed

lemma strspn_loop_cstr:
  assumes "cstr m d ds"
  shows "cstr m (p + i) bs \<Longrightarrow> strspn_loop m p d i = Some (i + of_nat (length (takeWhile (\<lambda>b. b \<in> set ds) bs)))"
proof (induction bs arbitrary: i)
  case Nil
  then show ?case by (simp add: strspn_loop.simps)
next
  case (Cons b bs)
  obtain k where "strspn_inner m b d 0 = Some k" "m (d + k) = 0 \<longleftrightarrow> b \<notin> set ds"
    using strspn_inner_cstr [of m d 0 ds b] assms by auto
  with Cons show ?case by (auto simp: strspn_loop.simps [of m p d i] algebra_simps)
qed

lemma strcspn_loop_cstring:
  assumes "cstring m d ds"
  shows "cstr m p bs \<Longrightarrow> strcspn_loop m p d n = Some (n + of_nat (length (takeWhile (\<lambda>b. b \<notin> set ds) bs)))"
proof (induction bs arbitrary: p n)
  case Nil
  then show ?case by (simp add: strcspn_loop.simps)
next
  case (Cons b bs)
  then obtain r where "strchr m d (sint b) = Some r" "r = NULL \<longleftrightarrow> b \<notin> set ds"
    using strchr_cstring [OF assms, of b] by auto
  with Cons show ?case by (auto simp: strcspn_loop.simps [of m p d n] algebra_simps)
qed

lemma strpbrk_loop_cstring:
  assumes "cstring m d ds"
  shows "cstr m p bs \<Longrightarrow> strpbrk_loop m p d = Some
    (if \<exists>b \<in> set bs. b \<in> set ds then p + of_nat (length (takeWhile (\<lambda>b. b \<notin> set ds) bs)) else NULL)"
proof (induction bs arbitrary: p)
  case Nil
  then show ?case by (simp add: strpbrk_loop.simps)
next
  case (Cons b bs)
  then obtain r where "strchr m d (sint b) = Some r" "r = NULL \<longleftrightarrow> b \<notin> set ds"
    using strchr_cstring [OF assms, of b] by auto
  with Cons show ?case by (auto simp: strpbrk_loop.simps [of m p d] algebra_simps)
qed


section \<open>Tokens\<close>

definition skip_delims :: "u8 list \<Rightarrow> u8 list \<Rightarrow> u8 list" where
  "skip_delims ds bs = dropWhile (\<lambda>b. b \<in> set ds) bs"

fun next_token :: "u8 list \<Rightarrow> u8 list \<Rightarrow> (u8 list \<times> u8 list) option" where
  "next_token ds bs =
     (let r = skip_delims ds bs in
      if r = [] then None
      else Some (takeWhile (\<lambda>b. b \<notin> set ds) r, drop 1 (dropWhile (\<lambda>b. b \<notin> set ds) r)))"

lemma cstring_drop:
  "cstring m p bs \<Longrightarrow> n \<le> length bs \<Longrightarrow> cstring m (p + of_nat n) (drop n bs)"
proof (induction n arbitrary: p bs)
  case (Suc n)
  then obtain b bs' where "bs = b # bs'" by (cases bs) auto
  with Suc have "cstring m (p + 1 + of_nat n) (drop n bs')" by (auto simp: cstring_Cons)
  with \<open>bs = b # bs'\<close> show ?case by (simp add: algebra_simps)
qed simp

lemma cstring_cstr: "cstring m p bs \<Longrightarrow> cstr m p bs"
  by (simp add: cstring_def)

lemma cstring_addr: "cstring m p bs \<Longrightarrow> n \<le> length bs \<Longrightarrow> p + of_nat n \<noteq> 0"
  using cstring_drop [of m p bs n] by (simp add: cstring_def)

lemma cstring_cong:
  assumes "cstring m p bs" and same: "\<And>a. in_region p (Suc (length bs)) a \<Longrightarrow> m' a = m a"
  shows "cstring m' p bs"
proof -
  have "length bs < 2 ^ 32" using assms(1) by (simp add: cstring_def)
  then have "m' (p + of_nat i) = m (p + of_nat i)" if "i \<le> length bs" for i
    using that by (intro same) (simp add: in_region_offset)
  then show ?thesis using assms(1) cstr_cong by (auto simp: cstring_def)
qed

lemma cstring_cut:
  assumes "cstring m p bs" "n \<le> length bs"
  shows "cstring (m(p + of_nat n := 0)) p (take n bs)"
proof -
  have len: "length bs < 2 ^ 32" "unat p + n < 2 ^ 32" using assms by (auto simp: cstring_def)
  have "p + of_nat i = p + of_nat n \<longleftrightarrow> i = n" if "i < n" for i
    using that len by (simp add: of_nat_u32_inj)
  with assms show ?thesis by (auto simp: cstring_def cstr_iff)
qed

lemma strspn_cstr:
  "cstr m d ds \<Longrightarrow> cstr m p bs \<Longrightarrow>
   strspn m p d = Some (of_nat (length (takeWhile (\<lambda>b. b \<in> set ds) bs)))"
  using strspn_loop_cstr [of m d ds p 0 bs] by (simp add: strspn_def)

lemma rawmemchr_nul: "cstr m p bs \<Longrightarrow> rawmemchr m p 0 = Some (p + of_nat (length bs))"
  by (simp add: rawmemchr_def strlen_cstr)

lemma strpbrk_cstring:
  assumes "cstring m d ds" "cstring m p bs"
  shows "strpbrk m p d = Some
    (if \<exists>b \<in> set bs. b \<in> set ds then p + of_nat (length (takeWhile (\<lambda>b. b \<notin> set ds) bs)) else NULL)"
  using assms strpbrk_loop_cstring [OF assms(1) cstring_cstr [OF assms(2)]]
  by (auto simp: strpbrk_def cstring_def NULL_def)

text \<open>The three outcomes of \<open>strtok\<close> at the first byte \<open>p\<close> that is no delimiter.\<close>

lemma strtok_outcomes:
  assumes s: "s \<noteq> 0" "strspn m s d = Some (p - s)" and d: "cstring m d ds" and r: "cstring m p r"
  shows "r = [] \<Longrightarrow> strtok m olds s d = Some (NULL, p, m)"
    and "r \<noteq> [] \<Longrightarrow> \<forall>b \<in> set r. b \<notin> set ds \<Longrightarrow> strtok m olds s d = Some (p, p + of_nat (length r), m)"
    and "r = xs @ y # zs \<Longrightarrow> xs \<noteq> [] \<Longrightarrow> \<forall>b \<in> set xs. b \<notin> set ds \<Longrightarrow> y \<in> set ds \<Longrightarrow>
      strtok m olds s d = Some (p, p + of_nat (length xs) + 1, m(p + of_nat (length xs) := 0))"
proof -
  note brk = strpbrk_cstring [OF d r]
  have start: "m p = 0 \<longleftrightarrow> r = []" using r by (cases r) (auto simp: cstring_def)
  show "strtok m olds s d = Some (NULL, p, m)" if "r = []"
    using s start that by (simp add: strtok_def NULL_def)
  show "strtok m olds s d = Some (p, p + of_nat (length r), m)" if "r \<noteq> []" "\<forall>b \<in> set r. b \<notin> set ds"
    using s start that brk rawmemchr_nul [OF cstring_cstr [OF r]] by (auto simp: strtok_def NULL_def)
  show "strtok m olds s d = Some (p, p + of_nat (length xs) + 1, m(p + of_nat (length xs) := 0))"
    if x: "r = xs @ y # zs" "xs \<noteq> []" "\<forall>b \<in> set xs. b \<notin> set ds" "y \<in> set ds"
  proof -
    have "takeWhile (\<lambda>b. b \<notin> set ds) r = xs" using x(3,4) by (simp add: x(1) takeWhile_append2)
    moreover have "p + of_nat (length xs) \<noteq> 0" using cstring_addr [OF r, of "length xs"] x(1) by simp
    ultimately show ?thesis using s start x brk by (auto simp: strtok_def NULL_def)
  qed
qed

lemma cut_string:
  assumes r: "cstring m p (xs @ y # zs)"
  defines "e \<equiv> p + of_nat (length xs)"
  shows "cstring (m(e := 0)) p xs" "cstring (m(e := 0)) (e + 1) zs"
proof -
  show "cstring (m(e := 0)) p xs" using cstring_cut [OF r, of "length xs"] by (simp add: e_def)
  have "cstring m (e + 1) zs" using cstring_drop [OF r, of "Suc (length xs)"] by (simp add: e_def algebra_simps)
  moreover have "length zs < 2 ^ 32 - 1" using r by (simp add: cstring_def)
  ultimately show "cstring (m(e := 0)) (e + 1) zs"
    by (elim cstring_cong) (auto simp: in_region_def unsigned_minus_1_eq_mask mask_eq_exp_minus_1)
qed

lemma strtok_takes_token:
  assumes s: "cstring m s bs" and d: "cstring m d ds"
    and disj: "disjoint_regions s (Suc (length bs)) d (Suc (length ds))"
  shows "\<exists>t olds' m'. strtok m olds s d = Some (t, olds', m')
     \<and> same_outside s (length bs) m m' \<and> cstring m' d ds
     \<and> (case next_token ds bs of
          None \<Rightarrow> t = NULL \<and> cstring m' olds' []
        | Some (tok, rest) \<Rightarrow> t \<noteq> NULL \<and> cstring m' t tok \<and> cstring m' olds' rest
            \<and> (\<exists>i. t = s + of_nat i \<and> i + length tok \<le> length bs)
            \<and> (\<exists>j. olds' = s + of_nat j \<and> j + length rest \<le> length bs))"
proof -
  define pre r where "pre = takeWhile (\<lambda>b. b \<in> set ds) bs" and "r = skip_delims ds bs"
  let ?p = "s + of_nat (length pre)"
  have bs: "bs = pre @ r" by (simp add: pre_def r_def skip_delims_def)
  have cr: "cstring m ?p r" using cstring_drop [OF s, of "length pre"] by (simp add: bs)
  have span: "strspn m s d = Some (?p - s)" using strspn_cstr [of m d ds s bs] s d by (simp add: cstring_cstr pre_def)
  have s0: "s \<noteq> 0" "?p \<noteq> 0" using s cr by (auto simp: cstring_def)
  note run = strtok_outcomes [where olds = olds, OF s0(1) span d cr]
  have at: "?p + of_nat j = s + of_nat (length pre + j)" for j by simp
  consider "r = []" | "r \<noteq> []" "\<forall>b \<in> set r. b \<notin> set ds"
    | xs y zs where "r = xs @ y # zs" "\<forall>b \<in> set xs. b \<notin> set ds" "y \<in> set ds"
    using split_list_first_prop [of r "\<lambda>b. b \<in> set ds"] by blast
  then show ?thesis
  proof cases
    case 1
    with run(1) cr d show ?thesis by (simp add: r_def NULL_def)
  next
    case 2
    then have "next_token ds bs = Some (r, [])"
      by (simp add: r_def [symmetric] Let_def takeWhile_eq_all_conv [THEN iffD2] dropWhile_eq_Nil_conv [THEN iffD2])
    moreover have "cstring m (?p + of_nat (length r)) []" using cstring_drop [OF cr, of "length r"] by simp
    moreover have "\<exists>i. ?p = s + of_nat i \<and> i + length r \<le> length bs" by (intro exI [of _ "length pre"]) (simp add: bs)
    moreover have "\<exists>j. ?p + of_nat (length r) = s + of_nat j \<and> j + length ([] :: u8 list) \<le> length bs"
      by (intro exI [of _ "length pre + length r"]) (simp add: bs)
    ultimately show ?thesis using run(2) [OF 2] cr d s0 by (simp add: NULL_def)
  next
    case (3 xs y zs)
    let ?e = "?p + of_nat (length xs)"
    have "r = [] \<or> hd r \<notin> set ds" unfolding r_def skip_delims_def by (metis hd_dropWhile)
    with 3 have ne: "xs \<noteq> []" by auto
    have "next_token ds bs = Some (xs, zs)"
      using 3 ne by (simp add: r_def [symmetric] Let_def takeWhile_append2 dropWhile_append2)
    moreover have "in_region s (length bs) ?e"
      using s by (simp add: at in_region_offset bs 3(1) cstring_def del: of_nat_add)
    moreover from this have "cstring (m(?e := 0)) d ds"
      using d disj by (elim cstring_cong) (auto simp: disjoint_regions_def in_region_def)
    moreover have "\<exists>i. ?p = s + of_nat i \<and> i + length xs \<le> length bs"
      by (intro exI [of _ "length pre"]) (simp add: bs 3(1))
    moreover have "\<exists>j. ?e + 1 = s + of_nat j \<and> j + length zs \<le> length bs"
      by (intro exI [of _ "Suc (length pre + length xs)"]) (simp add: bs 3(1))
    ultimately show ?thesis
      using run(3) [OF 3(1) ne 3(2,3)] cut_string [OF cr [unfolded 3(1)]] s0 by (simp add: NULL_def same_outside_upd)
  qed
qed

section \<open>Copying strings\<close>

lemma cstr_head_upd:
  assumes "cstr m (src + 1) bs" and "disjoint_regions dest (Suc n) src (Suc (Suc (length bs)))" and "length bs < 2 ^ 32 - 1"
  shows "cstr (m(dest := v)) (src + 1) bs"
proof (rule cstr_cong [OF assms(1)])
  fix i assume i: "i \<le> length bs"
  have "in_region src (Suc (Suc (length bs))) (src + 1 + of_nat i)"
    using i assms(3) in_region_offset [of "Suc i" src "Suc (Suc (length bs))"] by (simp add: algebra_simps)
  moreover have "in_region dest (Suc n) dest" by (simp add: in_region_def)
  ultimately have "src + 1 + of_nat i \<noteq> dest" using assms(2) by (auto simp: disjoint_regions_def)
  then show "(m(dest := v)) (src + 1 + of_nat i) = m (src + 1 + of_nat i)" by simp
qed

lemma copy_string_cstr:
  "cstr m src bs \<Longrightarrow> disjoint_regions dest (Suc (length bs)) src (Suc (length bs)) \<Longrightarrow> length bs < 2 ^ 32 - 1 \<Longrightarrow>
   copy_string m dest src = Some (put_bytes m dest bs, dest + of_nat (length bs))"
proof (induction bs arbitrary: m dest src)
  case Nil
  then show ?case by (simp add: copy_string.simps)
next
  case (Cons b bs)
  then have "cstr (m(dest := b)) (src + 1) bs" by (intro cstr_head_upd) auto
  moreover have "disjoint_regions (dest + 1) (Suc (length bs)) (src + 1) (Suc (length bs))"
    using Cons.prems by (intro disjoint_regions_tl) auto
  ultimately have "copy_string (m(dest := b)) (dest + 1) (src + 1) =
      Some (put_bytes (m(dest := b)) (dest + 1) bs, dest + 1 + of_nat (length bs))"
    using Cons.prems(3) by (intro Cons.IH) (assumption | simp)+
  with Cons.prems(1) show ?case
    by (simp add: copy_string.simps [of m dest src] add.assoc)
qed

lemma strcpy_cstr:
  "cstr m src bs \<Longrightarrow> disjoint_regions dest (Suc (length bs)) src (Suc (length bs)) \<Longrightarrow> length bs < 2 ^ 32 - 1 \<Longrightarrow>
   strcpy m dest src = Some (put_bytes m dest (bs @ [0]))"
proof (induction bs arbitrary: m dest src)
  case Nil
  then show ?case by (simp add: strcpy.simps fun_upd_def)
next
  case (Cons b bs)
  then have "cstr (m(dest := b)) (src + 1) bs" by (intro cstr_head_upd) auto
  moreover have "disjoint_regions (dest + 1) (Suc (length bs)) (src + 1) (Suc (length bs))"
    using Cons.prems by (intro disjoint_regions_tl) auto
  ultimately have "strcpy (m(dest := b)) (dest + 1) (src + 1) =
      Some (put_bytes (m(dest := b)) (dest + 1) (bs @ [0]))"
    using Cons.prems(3) by (intro Cons.IH) (assumption | simp)+
  with Cons.prems(1) show ?case by (simp add: strcpy.simps [of m dest src])
qed

lemma put_bytes_cstr:
  assumes "0 \<notin> set bs" "length bs < 2 ^ 32"
  shows "cstr (put_bytes m p (bs @ [0])) p bs"
  unfolding cstr_iff
proof (intro conjI allI impI)
  fix i assume "i < length bs"
  then show "bs ! i \<noteq> 0" using assms(1) by (metis nth_mem)
  show "put_bytes m p (bs @ [0]) (p + of_nat i) = bs ! i"
    using \<open>i < length bs\<close> assms(2) by (simp add: put_bytes_nth unat_of_nat32 nth_append)
next
  show "put_bytes m p (bs @ [0]) (p + of_nat (length bs)) = 0"
    using assms(2) by (simp add: put_bytes_nth unat_of_nat32)
qed

theorem strcpy_copies:
  assumes "cstr m src bs" and "length bs < 2 ^ 32 - 1"
    and "disjoint_regions dest (Suc (length bs)) src (Suc (length bs))"
  shows "\<exists>m'. strcpy m dest src = Some m' \<and> cstr m' dest bs \<and> same_outside dest (Suc (length bs)) m m'"
  using assms cstr_no_nul [OF assms(1)]
  by (simp add: strcpy_cstr put_bytes_cstr put_bytes_same_outside)

lemma strcat_cstr:
  assumes d: "cstr m dest as" and s: "cstr m src bs" and len: "length as + length bs < 2 ^ 32 - 1"
    and disj: "disjoint_regions dest (Suc (length as + length bs)) src (Suc (length bs))"
  shows "\<exists>m'. strcat m dest src = Some m' \<and> cstr m' dest (as @ bs)
    \<and> same_outside (dest + of_nat (length as)) (Suc (length bs)) m m'"
proof -
  let ?e = "dest + of_nat (length as)"
  have sub: "in_region dest (Suc (length as + length bs)) a" if "in_region ?e (Suc (length bs)) a" for a
  proof -
    have "in_region dest (length as + Suc (length bs)) a"
      using that len by (intro in_region_add) auto
    then show ?thesis by simp
  qed
  have "disjoint_regions ?e (Suc (length bs)) src (Suc (length bs))"
    using disj sub by (auto simp: disjoint_regions_def)
  then have "strcat m dest src = Some (put_bytes m ?e (bs @ [0]))"
    using d s len by (simp add: strcat_def strlen_cstr copy_string_cstr put_bytes_append)
  moreover have "cstr (put_bytes m ?e (bs @ [0])) dest (as @ bs)"
  proof -
    have "put_bytes m ?e (bs @ [0]) (dest + of_nat i) = m (dest + of_nat i)" if "i < length as" for i
    proof -
      have "\<not> in_region ?e (Suc (length bs)) (dest + of_nat i)"
      proof
        assume "in_region ?e (Suc (length bs)) (dest + of_nat i)"
        then obtain j where "j < Suc (length bs)" "dest + of_nat i = ?e + of_nat j"
          by (rule in_regionE)
        then have "(of_nat i :: u32) = of_nat (length as + j)" by (simp add: add.assoc)
        with that len \<open>j < Suc (length bs)\<close> show False by (subst (asm) of_nat_u32_inj) auto
      qed
      then show ?thesis
        using put_bytes_same_outside [of "bs @ [0]" "Suc (length bs)" ?e m] len
        by (simp add: same_outside_def)
    qed
    with d s len show ?thesis
      by (simp add: cstr_append put_bytes_cstr cstr_no_nul) (simp add: cstr_iff)
  qed
  ultimately show ?thesis using len by (simp add: put_bytes_same_outside)
qed

lemma strncpy_cstr:
  "cstr m src bs \<Longrightarrow> disjoint_regions dest (Suc (length bs)) src (Suc (length bs)) \<Longrightarrow> length bs < 2 ^ 32 - 1 \<Longrightarrow>
   strncpy m dest src n = (put_bytes m dest (take (unat n) (bs @ [0])), dest + of_nat (min (unat n) (Suc (length bs))))"
proof (induction bs arbitrary: m dest src n)
  case Nil
  then show ?case
    by (cases "n = 0") (auto simp: strncpy.simps [of m dest src] unat_Suc_pred fun_upd_def)
next
  case (Cons b bs)
  show ?case
  proof (cases "n = 0")
    case True
    then show ?thesis by (simp add: strncpy.simps)
  next
    case False
    have "cstr (m(dest := b)) (src + 1) bs" using Cons.prems by (intro cstr_head_upd) auto
    moreover have "disjoint_regions (dest + 1) (Suc (length bs)) (src + 1) (Suc (length bs))"
      using Cons.prems by (intro disjoint_regions_tl) auto
    ultimately have "strncpy (m(dest := b)) (dest + 1) (src + 1) (n - 1) =
        (put_bytes (m(dest := b)) (dest + 1) (take (unat (n - 1)) (bs @ [0])),
         dest + 1 + of_nat (min (unat (n - 1)) (Suc (length bs))))"
      using Cons.prems(3) by (intro Cons.IH) (assumption | simp)+
    with Cons.prems(1) False show ?thesis
      by (simp add: strncpy.simps [of m dest src] unat_Suc_pred add.assoc)
  qed
qed

definition byte_upper :: "u8 \<Rightarrow> u8" where
  "byte_upper b = (if 97 \<le> b \<and> b \<le> 122 then b - 32 else b)"

lemma sint_range_upper: "97 \<le> sint b \<and> sint b \<le> 122 \<longleftrightarrow> 97 \<le> b \<and> b \<le> 122" for b :: u8
  using uint_lt2p [of b] by (auto simp: sint_u8 word_le_def word_less_def)

lemma cstr_tail_upd:
  assumes "cstr m (p + 1) bs" "length bs < 2 ^ 32 - 1"
  shows "cstr (m(p := v)) (p + 1) bs"
proof (rule cstr_cong [OF assms(1)])
  fix i assume "i \<le> length bs"
  with assms(2) have "(of_nat (Suc i) :: u32) \<noteq> of_nat 0" by (subst of_nat_u32_inj) auto
  then have "p + 1 + of_nat i \<noteq> p" by (simp add: add.assoc)
  then show "(m(p := v)) (p + 1 + of_nat i) = m (p + 1 + of_nat i)" by simp
qed

lemma strtoupper_cstr:
  "cstr m p bs \<Longrightarrow> length bs < 2 ^ 32 - 1 \<Longrightarrow> strtoupper m p = Some (put_bytes m p (map byte_upper bs))"
proof (induction bs arbitrary: m p)
  case Nil
  then show ?case by (simp add: strtoupper.simps)
next
  case (Cons b bs)
  let ?m = "m(p := byte_upper b)"
  have "cstr ?m (p + 1) bs" using Cons.prems by (intro cstr_tail_upd) auto
  moreover have "?m = (if 97 \<le> sint (m p) \<and> sint (m p) \<le> 122 then m(p := m p - 32) else m)"
    using Cons.prems unfolding sint_range_upper by (auto simp: byte_upper_def)
  ultimately show ?case
    using Cons.prems Cons.IH [of ?m "p + 1"] by (simp add: strtoupper.simps [of m p])
qed

end
