(* ===== verification/Page_Allocator.thy ===== *)
theory Page_Allocator
  imports CString
begin

text \<open>
  \<^verbatim>\<open>kernel/src/mem/page_allocator.c\<close>: a bitmap in memory with one bit for each physical
  page (set: in use), a cursor \<open>last_index\<close> from which the search for a free page starts,
  and the initialisation from the bootloader's memory map. The bits live in 32-bit words;
  \<open>bit_set_byte\<close> shows that each operation changes one bit of one byte, and the locale
  \<open>bit_store\<close> states what the users of the bitmap rely on.
\<close>

record page_allocator_info =
  bitmap :: addr
  num_pages :: u32
  last_index :: u32

section \<open>Bit operations\<close>

definition bit_set :: "mem \<Rightarrow> addr \<Rightarrow> u32 \<Rightarrow> mem" where
  "bit_set m bm index =
     (let a = bm + 4 * (index div 32); bit_offset = index mod 32
      in store32 m a (load32 m a OR push_bit (unat bit_offset) 1))"

definition bit_clear :: "mem \<Rightarrow> addr \<Rightarrow> u32 \<Rightarrow> mem" where
  "bit_clear m bm index =
     (let a = bm + 4 * (index div 32); bit_offset = index mod 32
      in store32 m a (load32 m a AND NOT (push_bit (unat bit_offset) 1)))"

definition bit_get :: "mem \<Rightarrow> addr \<Rightarrow> u32 \<Rightarrow> bool" where
  "bit_get m bm index =
     (let a = bm + 4 * (index div 32); bit_offset = index mod 32
      in load32 m a AND push_bit (unat bit_offset) 1 \<noteq> 0)"

section \<open>Initialisation from the memory map\<close>

record mmap_entry =
  entry_addr :: u64
  entry_len :: u64
  entry_type :: u32

definition MULTIBOOT_MEMORY_AVAILABLE :: u32 where "MULTIBOOT_MEMORY_AVAILABLE = 1"
definition MULTIBOOT_MEMORY_RESERVED :: u32 where "MULTIBOOT_MEMORY_RESERVED = 2"
definition MULTIBOOT_MEMORY_ACPI_RECLAIMABLE :: u32 where "MULTIBOOT_MEMORY_ACPI_RECLAIMABLE = 3"
definition MULTIBOOT_MEMORY_NVS :: u32 where "MULTIBOOT_MEMORY_NVS = 4"
definition MULTIBOOT_MEMORY_BADRAM :: u32 where "MULTIBOOT_MEMORY_BADRAM = 5"

lemmas multiboot_memory_defs = MULTIBOOT_MEMORY_AVAILABLE_def MULTIBOOT_MEMORY_RESERVED_def
  MULTIBOOT_MEMORY_ACPI_RECLAIMABLE_def MULTIBOOT_MEMORY_NVS_def MULTIBOOT_MEMORY_BADRAM_def

text \<open>The first pass: every type is checked, the highest available end address is kept.\<close>

fun mmap_scan :: "mmap_entry list \<Rightarrow> u32 \<Rightarrow> u32 outcome" where
  "mmap_scan [] max_addr = Ret max_addr"
| "mmap_scan (entry # es) max_addr =
     (if entry_type entry = MULTIBOOT_MEMORY_AVAILABLE
        \<or> entry_type entry = MULTIBOOT_MEMORY_RESERVED
        \<or> entry_type entry = MULTIBOOT_MEMORY_ACPI_RECLAIMABLE
        \<or> entry_type entry = MULTIBOOT_MEMORY_NVS
        \<or> entry_type entry = MULTIBOOT_MEMORY_BADRAM
      then
        (let end_addr = ucast (entry_addr entry + entry_len entry) :: u32 in
         mmap_scan es
           (if end_addr > max_addr \<and> entry_type entry = MULTIBOOT_MEMORY_AVAILABLE
            then end_addr else max_addr))
      else Panic ''invalid type value in mmap entry'')"

text \<open>The second pass: the bitmap takes the front of the first available entry it fits into.\<close>

fun place_bitmap :: "u32 \<Rightarrow> addr \<Rightarrow> mmap_entry list \<Rightarrow> addr \<times> mmap_entry list" where
  "place_bitmap bitmap_size bm [] = (bm, [])"
| "place_bitmap bitmap_size bm (entry # es) =
     (if entry_type entry \<noteq> MULTIBOOT_MEMORY_AVAILABLE \<or> entry_len entry < ucast bitmap_size
      then (case place_bitmap bitmap_size bm es of (bm', es') \<Rightarrow> (bm', entry # es'))
      else (ucast (entry_addr entry),
            entry\<lparr>entry_addr := entry_addr entry + ucast bitmap_size,
                  entry_len := entry_len entry - ucast bitmap_size\<rparr> # es))"

text \<open>
  The third pass clears the bit of every page of an available entry. The counter \<open>j\<close> has
  32 bits, the bound 64: with \<open>2 ^ 32\<close> pages or more the loop does not end.
\<close>

partial_function (option) free_pages_loop :: "mem \<Rightarrow> addr \<Rightarrow> u32 \<Rightarrow> u64 \<Rightarrow> u32 \<Rightarrow> mem option" where
  "free_pages_loop m bm start_page len j =
     (if ucast j < len div 4096
      then free_pages_loop (bit_clear m bm (start_page + j)) bm start_page len (j + 1)
      else Some m)"

fun free_entries :: "mem \<Rightarrow> addr \<Rightarrow> mmap_entry list \<Rightarrow> mem option" where
  "free_entries m bm [] = Some m"
| "free_entries m bm (entry # es) =
     (if entry_type entry \<noteq> MULTIBOOT_MEMORY_AVAILABLE then free_entries m bm es
      else
        (let start_page = ucast ((entry_addr entry + 4096 - 1) div 4096) :: u32 in
         Option.bind (free_pages_loop m bm start_page (entry_len entry) 0)
           (\<lambda>m'. free_entries m' bm es)))"

definition page_alloc_init :: "mem \<Rightarrow> mmap_entry list \<Rightarrow> (u32 \<times> page_allocator_info \<times> mem) run" where
  "page_alloc_init m entries =
     rbind (Some (mmap_scan entries 0)) (\<lambda>max_addr.
       let np = max_addr div PAGE_SIZE;
           bitmap_size = (np + 8 - 1) div 8;
           (bm, entries') = place_bitmap bitmap_size max_addr entries;
           pa = \<lparr>bitmap = bm, num_pages = np, last_index = 0\<rparr>
       in if bm = max_addr then Some (Ret (ENOMEM, pa, m))
          else Option.bind (free_entries (memset m bm 0xFF bitmap_size) bm entries')
            (\<lambda>m'. Some (Ret (EOK, pa, m'))))"

section \<open>Allocation\<close>

function page_alloc_loop ::
  "mem \<Rightarrow> page_allocator_info \<Rightarrow> u32 \<Rightarrow> (addr \<times> page_allocator_info \<times> mem) outcome" where
  "page_alloc_loop m pa i =
     (if i < num_pages pa then
        (if bit_get m (bitmap pa) i then page_alloc_loop m pa (i + 1)
         else Ret (i * PAGE_SIZE, pa\<lparr>last_index := i\<rparr>, bit_set m (bitmap pa) i))
      else Panic ''out of free pages'')"
  by pat_completeness auto
termination
  by (relation "measure (\<lambda>(m, pa, i). unat (num_pages pa) - unat i)") (auto simp: unat_diff_step)

declare page_alloc_loop.simps [simp del]

definition page_alloc :: "mem \<Rightarrow> page_allocator_info \<Rightarrow> (addr \<times> page_allocator_info \<times> mem) outcome" where
  "page_alloc m pa = page_alloc_loop m pa (last_index pa)"

definition page_free :: "mem \<Rightarrow> page_allocator_info \<Rightarrow> addr \<Rightarrow> page_allocator_info \<times> mem" where
  "page_free m pa ptr =
     (let index = ptr div PAGE_SIZE
      in (pa\<lparr>last_index := index\<rparr>, bit_clear m (bitmap pa) index))"

definition get_num_pages :: "page_allocator_info \<Rightarrow> u32" where
  "get_num_pages pa = num_pages pa"

definition page_reserve :: "mem \<Rightarrow> page_allocator_info \<Rightarrow> addr \<Rightarrow> page_allocator_info \<times> mem" where
  "page_reserve m pa ptr =
     (let index = ptr div PAGE_SIZE
      in (pa\<lparr>last_index := index\<rparr>, bit_set m (bitmap pa) index))"

section \<open>The bitmap as one bit for each page\<close>

lemma unat_div_mod_const:
  "unat (x div 8 :: u32) = unat x div 8" "unat (x mod 8 :: u32) = unat x mod 8"
  "unat (x div 32 :: u32) = unat x div 32" "unat (x mod 32 :: u32) = unat x mod 32"
  "unat (x div 4096 :: u32) = unat x div 4096" "unat (x mod 4096 :: u32) = unat x mod 4096"
  by (simp_all add: unat_div unat_mod)

lemma word_byte_index: "4 * (x div 32) + of_nat (unat (x mod 32) div 8) = x div 8" for x :: u32
proof -
  have "unat x div 8 = (unat x mod 32 + 4 * (unat x div 32) * 8) div 8" by simp
  also have "\<dots> = 4 * (unat x div 32) + unat x mod 32 div 8" by (subst div_mult_self1) simp_all
  finally have "unat x div 8 = 4 * (unat x div 32) + unat x mod 32 div 8" .
  then have "unat (x div 8) = 4 * unat (x div 32) + unat (x mod 32) div 8"
    by (simp only: unat_div_mod_const)
  then have "(of_nat (unat (x div 8)) :: u32) = of_nat (4 * unat (x div 32) + unat (x mod 32) div 8)"
    by (rule arg_cong)
  then show ?thesis by simp
qed

lemma store32_byte:
  assumes "k < 32"
    and v: "\<And>n. n < 32 \<Longrightarrow> bit v n = (if n = k then new else bit (load32 m a) n)"
    and b: "\<And>n. n < 8 \<Longrightarrow> bit b n = (if n = k mod 8 then new else bit (m (a + of_nat (k div 8))) n)"
  shows "store32 m a v = m(a + of_nat (k div 8) := b)"
proof
  fix c
  show "store32 m a v c = (m(a + of_nat (k div 8) := b)) c"
  proof (cases "in_region a 4 c")
    case False
    moreover have "in_region a 4 (a + of_nat (k div 8))"
      using assms(1) by (auto simp: in_region_def unat_of_nat32)
    ultimately show ?thesis by (auto simp: store32_outside)
  next
    case True
    then obtain j where j: "j < 4" "c = a + of_nat j" by (rule in_regionE)
    have same: "c = a + of_nat (k div 8) \<longleftrightarrow> j = k div 8"
      using j assms(1) by (auto simp: of_nat_u32_inj)
    have "bit (store32 m a v c) n = bit ((m(a + of_nat (k div 8) := b)) c) n" if n: "n < 8" for n
    proof -
      have idx: "8 * j + n < 32" "(8 * j + n) div 8 = j" "(8 * j + n) mod 8 = n"
        using j n by auto
      have "8 * j + n = k \<longleftrightarrow> j = k div 8 \<and> n = k mod 8"
        using idx(2,3) by (metis div_mult_mod_eq mult.commute)
      then show ?thesis
        using n idx j same by (simp add: bit_store32 bit_simps v b bit_load32)
    qed
    then show ?thesis by (intro bit_word_eqI) simp
  qed
qed

lemma bit_get_byte: "bit_get m bm i \<longleftrightarrow> bit (m (bm + i div 8)) (unat (i mod 8))"
proof -
  have "unat (i mod 32) < 32" by (simp add: unat_div_mod_const)
  moreover have "unat (i mod 32) mod 8 = unat (i mod 8)"
    by (simp add: unat_div_mod_const mod_mod_cancel)
  moreover have addr: "bm + 4 * (i div 32) + of_nat (unat (i mod 32) div 8) = bm + i div 8"
    using word_byte_index [of i] by (simp add: add.assoc)
  ultimately have "bit (load32 m (bm + 4 * (i div 32))) (unat (i mod 32)) \<longleftrightarrow> bit (m (bm + i div 8)) (unat (i mod 8))"
    by (simp add: bit_load32 addr del: add.assoc)
  moreover have "load32 m (bm + 4 * (i div 32)) AND push_bit (unat (i mod 32)) 1 \<noteq> 0
      \<longleftrightarrow> bit (load32 m (bm + 4 * (i div 32))) (unat (i mod 32))"
    by (simp add: push_bit_eq_mult and_exp_eq_0_iff_not_bit)
  ultimately show ?thesis by (simp add: bit_get_def)
qed

lemma bit_set_byte:
  "bit_set m bm i = m(bm + i div 8 := m (bm + i div 8) OR push_bit (unat (i mod 8)) 1)"
proof -
  let ?k = "unat (i mod 32)"
  have k: "?k < 32" by (simp add: unat_div_mod_const)
  have kmod: "?k mod 8 = unat (i mod 8)" by (simp add: unat_div_mod_const mod_mod_cancel)
  have addr: "bm + 4 * (i div 32) + of_nat (?k div 8) = bm + i div 8"
    using word_byte_index [of i] by (simp add: add.assoc)
  show ?thesis
    unfolding bit_set_def Let_def addr [symmetric]
    by (rule store32_byte [where new = True, OF k]) (auto simp: bit_simps kmod addr)
qed

lemma bit_clear_byte:
  "bit_clear m bm i = m(bm + i div 8 := m (bm + i div 8) AND NOT (push_bit (unat (i mod 8)) 1))"
proof -
  let ?k = "unat (i mod 32)"
  have k: "?k < 32" by (simp add: unat_div_mod_const)
  have kmod: "?k mod 8 = unat (i mod 8)" by (simp add: unat_div_mod_const mod_mod_cancel)
  have addr: "bm + 4 * (i div 32) + of_nat (?k div 8) = bm + i div 8"
    using word_byte_index [of i] by (simp add: add.assoc)
  show ?thesis
    unfolding bit_clear_def Let_def addr [symmetric]
    by (rule store32_byte [where new = False, OF k]) (auto simp: bit_simps kmod addr)
qed

lemma unat_mod8_lt: "unat (i mod 8 :: u32) < 8"
  by (simp add: unat_div_mod_const)

lemma same_bit_iff: "i div 8 = j div 8 \<and> unat (i mod 8) = unat (j mod 8) \<longleftrightarrow> i = j" for i j :: u32
  by (metis word_mod_div_equality word_unat_eq_iff)

lemma bit_get_set: "bit_get (bit_set m bm i) bm j \<longleftrightarrow> i = j \<or> bit_get m bm j"
  using same_bit_iff [of i j] unat_mod8_lt [of j] by (auto simp: bit_get_byte bit_set_byte bit_simps)

lemma bit_get_clear: "bit_get (bit_clear m bm i) bm j \<longleftrightarrow> i \<noteq> j \<and> bit_get m bm j"
  using same_bit_iff [of i j] unat_mod8_lt [of j] by (auto simp: bit_get_byte bit_clear_byte bit_simps)

lemma bit_set_same_outside:
  "i div 8 < n \<Longrightarrow> same_outside bm (unat n) m (bit_set m bm i)"
  by (simp add: bit_set_byte same_outside_upd in_region_word)

lemma bit_clear_same_outside:
  "i div 8 < n \<Longrightarrow> same_outside bm (unat n) m (bit_clear m bm i)"
  by (simp add: bit_clear_byte same_outside_upd in_region_word)

section \<open>The bitmap as an interface\<close>

text \<open>
  What the allocator and its users rely on: a store of bits in which setting or clearing
  one bit changes that bit only. The lemmas about whole ranges (the loops that reserve or
  free many pages) are proved once, here.
\<close>

locale bit_store =
  fixes get :: "'s \<Rightarrow> u32 \<Rightarrow> bool"
    and set_bit :: "'s \<Rightarrow> u32 \<Rightarrow> 's"
    and clear_bit :: "'s \<Rightarrow> u32 \<Rightarrow> 's"
  assumes get_set: "get (set_bit s i) j \<longleftrightarrow> i = j \<or> get s j"
    and get_clear: "get (clear_bit s i) j \<longleftrightarrow> i \<noteq> j \<and> get s j"
begin

lemma get_set_all: "get (fold (\<lambda>i s. set_bit s i) is s) j \<longleftrightarrow> j \<in> set is \<or> get s j"
  by (induction "is" arbitrary: s) (auto simp: get_set)

lemma get_clear_all: "get (fold (\<lambda>i s. clear_bit s i) is s) j \<longleftrightarrow> j \<notin> set is \<and> get s j"
  by (induction "is" arbitrary: s) (auto simp: get_clear)

lemma set_then_clear: "\<not> get s i \<Longrightarrow> get (clear_bit (set_bit s i) i) j = get s j"
  by (auto simp: get_set get_clear)

end

interpretation bits: bit_store "\<lambda>m. bit_get m bm" "\<lambda>m. bit_set m bm" "\<lambda>m. bit_clear m bm" for bm
  by unfold_locales (rule bit_get_set, rule bit_get_clear)

lemma unat_ucast_32_64: "unat (ucast (x :: u32) :: u64) = unat x"
proof -
  have "unat x < 2 ^ 64" by (rule less_trans [OF unat_u32_lt]) simp
  then show ?thesis by (simp add: unsigned_ucast_eq take_bit_nat_eq_self)
qed

section \<open>Allocating and freeing\<close>

text \<open>\<open>page_free_at m pa k\<close>: page number \<open>k\<close> exists and its bit is clear.\<close>

definition page_free_at :: "mem \<Rightarrow> page_allocator_info \<Rightarrow> u32 \<Rightarrow> bool" where
  "page_free_at m pa k \<longleftrightarrow> k < num_pages pa \<and> \<not> bit_get m (bitmap pa) k"

lemma page_alloc_loop_cases:
  "(\<exists>k. i \<le> k \<and> page_free_at m pa k \<and> (\<forall>j. i \<le> j \<and> j < k \<longrightarrow> \<not> page_free_at m pa j)
      \<and> page_alloc_loop m pa i = Ret (k * PAGE_SIZE, pa\<lparr>last_index := k\<rparr>, bit_set m (bitmap pa) k))
   \<or> ((\<forall>j. i \<le> j \<longrightarrow> \<not> page_free_at m pa j) \<and> page_alloc_loop m pa i = Panic ''out of free pages'')"
proof (induction m pa i rule: page_alloc_loop.induct)
  case (1 m pa i)
  consider "\<not> i < num_pages pa" | "i < num_pages pa" "\<not> bit_get m (bitmap pa) i"
    | "i < num_pages pa" "bit_get m (bitmap pa) i" by blast
  then show ?case
  proof cases
    case 1
    then show ?thesis by (auto simp: page_alloc_loop.simps [of m pa i] page_free_at_def)
  next
    case 2
    then show ?thesis
      by (intro disjI1 exI [of _ i]) (auto simp: page_alloc_loop.simps [of m pa i] page_free_at_def)
  next
    case 3
    then have unfold: "page_alloc_loop m pa i = page_alloc_loop m pa (i + 1)"
      by (simp add: page_alloc_loop.simps [of m pa i])
    have at_i: "\<not> page_free_at m pa i" using 3 by (simp add: page_free_at_def)
    have step: "i \<le> j \<longleftrightarrow> j = i \<or> i + 1 \<le> j" for j
      using word_step_le [OF 3(1), of j] by (auto simp: le_less)
    have le: "i + 1 \<le> k \<Longrightarrow> i \<le> k" for k using step by blast
    from "1.IH" [OF 3] show ?thesis
      unfolding unfold using at_i step le by metis
  qed
qed

lemma page_alloc_Ret:
  assumes "page_alloc m pa = Ret (p, pa', m')"
  obtains k where "last_index pa \<le> k" "page_free_at m pa k"
    "\<And>j. last_index pa \<le> j \<Longrightarrow> j < k \<Longrightarrow> \<not> page_free_at m pa j"
    "p = k * PAGE_SIZE" "pa' = pa\<lparr>last_index := k\<rparr>" "m' = bit_set m (bitmap pa) k"
  using assms page_alloc_loop_cases [of "last_index pa" m pa] by (auto simp: page_alloc_def)

lemma page_alloc_succeeds:
  "page_free_at m pa k \<Longrightarrow> last_index pa \<le> k \<Longrightarrow> \<exists>r. page_alloc m pa = Ret r"
  using page_alloc_loop_cases [of "last_index pa" m pa] by (auto simp: page_alloc_def)

lemma page_free_at_alloc:
  assumes "page_alloc m pa = Ret (k * PAGE_SIZE, pa', bit_set m (bitmap pa) k)" "bitmap pa' = bitmap pa" "num_pages pa' = num_pages pa"
  shows "page_free_at (bit_set m (bitmap pa) k) pa' j \<longleftrightarrow> j \<noteq> k \<and> page_free_at m pa j"
  using assms by (auto simp: page_free_at_def bit_get_set)

text \<open>Page numbers and page addresses correspond when the number fits into 20 bits.\<close>

lemma page_number: "k < 2 ^ 20 \<Longrightarrow> k * PAGE_SIZE div PAGE_SIZE = k" for k :: u32
proof -
  assume "k < 2 ^ 20"
  then have "unat k < 2 ^ 20" by (simp add: word_less_nat_alt)
  then have "unat (k * PAGE_SIZE) = unat k * 4096" by (simp add: unat_word_ariths PAGE_SIZE_def)
  then show ?thesis by (simp add: word_unat_eq_iff unat_div PAGE_SIZE_def)
qed

text \<open>
  C32. \<open>page_alloc\<close> takes the first free page at or after the cursor and marks it, and nothing else; it
  panics exactly when there is none there, even if pages below the cursor are free.
\<close>

theorem page_alloc_first_fit:
  assumes "num_pages pa \<le> 2 ^ 20"
  shows "case page_alloc m pa of
     Ret (p, pa', m') \<Rightarrow>
       page_free_at m pa (p div PAGE_SIZE) \<and> p mod PAGE_SIZE = 0
       \<and> last_index pa \<le> p div PAGE_SIZE
       \<and> (\<forall>j. last_index pa \<le> j \<and> j < p div PAGE_SIZE \<longrightarrow> \<not> page_free_at m pa j)
       \<and> (\<forall>j. page_free_at m' pa' j \<longleftrightarrow> j \<noteq> p div PAGE_SIZE \<and> page_free_at m pa j)
   | Panic msg \<Rightarrow> \<forall>j. last_index pa \<le> j \<longrightarrow> \<not> page_free_at m pa j
   | Fault \<Rightarrow> False"
  using page_alloc_loop_cases [of "last_index pa" m pa]
proof
  assume "(\<forall>j. last_index pa \<le> j \<longrightarrow> \<not> page_free_at m pa j) \<and> page_alloc_loop m pa (last_index pa) = Panic ''out of free pages''"
  then show ?thesis by (simp add: page_alloc_def)
next
  assume "\<exists>k. last_index pa \<le> k \<and> page_free_at m pa k \<and> (\<forall>j. last_index pa \<le> j \<and> j < k \<longrightarrow> \<not> page_free_at m pa j)
      \<and> page_alloc_loop m pa (last_index pa) = Ret (k * PAGE_SIZE, pa\<lparr>last_index := k\<rparr>, bit_set m (bitmap pa) k)"
  then obtain k where k: "last_index pa \<le> k" "page_free_at m pa k"
    "\<forall>j. last_index pa \<le> j \<and> j < k \<longrightarrow> \<not> page_free_at m pa j"
    "page_alloc m pa = Ret (k * PAGE_SIZE, pa\<lparr>last_index := k\<rparr>, bit_set m (bitmap pa) k)"
    by (auto simp: page_alloc_def)
  then have "k < 2 ^ 20" using assms by (auto simp: page_free_at_def)
  moreover have "k * PAGE_SIZE mod PAGE_SIZE = 0"
    by (simp add: PAGE_SIZE_def word_unat_eq_iff unat_mod unat_word_ariths mod_mod_cancel)
  ultimately show ?thesis
    using k by (simp add: page_number) (auto simp: page_free_at_def bit_get_set)
qed

lemma page_address: "p mod PAGE_SIZE = 0 \<Longrightarrow> p div PAGE_SIZE * PAGE_SIZE = p"
  using word_mod_div_equality [of p PAGE_SIZE] by simp

text \<open>
  A page that is freed is the next one to be allocated.\<close>

theorem page_free_then_alloc:
  assumes "ptr mod PAGE_SIZE = 0" and "ptr div PAGE_SIZE < num_pages pa"
    and "page_free m pa ptr = (pa', m')"
  shows "page_alloc m' pa' = Ret (ptr, pa', bit_set m' (bitmap pa) (ptr div PAGE_SIZE))"
proof -
  have "pa' = pa\<lparr>last_index := ptr div PAGE_SIZE\<rparr>" "\<not> bit_get m' (bitmap pa) (ptr div PAGE_SIZE)"
    using assms(3) by (auto simp: page_free_def Let_def bit_get_clear)
  with assms(2) page_address [OF assms(1)] show ?thesis
    by (simp add: page_alloc_def page_alloc_loop.simps [of m' "pa\<lparr>last_index := ptr div PAGE_SIZE\<rparr>"])
qed

lemma page_free_then_alloc_witness:
  "page_alloc (bit_clear (\<lambda>_. 0xFF) 0x8000 3) \<lparr>bitmap = 0x8000, num_pages = 16, last_index = 3\<rparr>
     = Ret (0x3000, \<lparr>bitmap = 0x8000, num_pages = 16, last_index = 3\<rparr>, bit_set (bit_clear (\<lambda>_. 0xFF) 0x8000 3) 0x8000 3)"
proof -
  let ?pa = "\<lparr>bitmap = 0x8000, num_pages = 16, last_index = 9\<rparr>"
  have "page_free (\<lambda>_. 0xFF) ?pa 0x3000 = (\<lparr>bitmap = 0x8000, num_pages = 16, last_index = 3\<rparr>, bit_clear (\<lambda>_. 0xFF) 0x8000 3)"
    by (simp add: page_free_def PAGE_SIZE_def)
  from page_free_then_alloc [OF _ _ this] show ?thesis by (simp add: PAGE_SIZE_def)
qed

lemma page_alloc_first_fit_witness:
  "case page_alloc (\<lambda>_. 0) \<lparr>bitmap = 0x8000, num_pages = 16, last_index = 2\<rparr> of
     Ret (p, _) \<Rightarrow> p div PAGE_SIZE = 2 | Panic _ \<Rightarrow> False | Fault \<Rightarrow> False"
proof -
  let ?pa = "\<lparr>bitmap = 0x8000, num_pages = 16, last_index = 2\<rparr>"
  have free: "page_free_at (\<lambda>_. 0) ?pa 2" by (simp add: page_free_at_def bit_get_byte)
  have "p div PAGE_SIZE = 2" if "2 \<le> p div PAGE_SIZE" "\<forall>j. 2 \<le> j \<and> j < p div PAGE_SIZE \<longrightarrow> \<not> page_free_at (\<lambda>_. 0) ?pa j" for p
    using that free by (metis order.refl order_le_less)
  with page_alloc_first_fit [of ?pa "\<lambda>_. 0"] free show ?thesis
    by (auto split: outcome.splits)
qed

text \<open>The search never goes below the cursor, and \<^verbatim>\<open>page_reserve\<close> moves the cursor.\<close>

lemma page_reserve_last_strands:
  assumes "num_pages pa = n + 1" "n < 2 ^ 20" and "page_reserve m pa (n * PAGE_SIZE) = (pa', m')"
  shows "page_alloc m' pa' = Panic ''out of free pages''"
proof -
  have pa': "pa' = pa\<lparr>last_index := n\<rparr>" "m' = bit_set m (bitmap pa) n"
    using assms(3) page_number [OF assms(2)] by (auto simp: page_reserve_def Let_def)
  have "\<not> page_free_at m' pa' j" if "n \<le> j" for j
  proof
    assume "page_free_at m' pa' j"
    then have "j < n + 1" "j \<noteq> n" using assms(1) by (auto simp: page_free_at_def pa' bit_get_set)
    with that assms(2) show False by unat_arith
  qed
  with page_alloc_loop_cases [of n m' pa'] show ?thesis
    by (auto simp: page_alloc_def pa'(1))
qed

section \<open>The state after initialisation\<close>

definition entry_first_page :: "mmap_entry \<Rightarrow> u32" where
  "entry_first_page e = ucast ((entry_addr e + 4096 - 1) div 4096)"

definition entry_covers :: "mmap_entry \<Rightarrow> u32 \<Rightarrow> bool" where
  "entry_covers e k \<longleftrightarrow> ucast (k - entry_first_page e) < entry_len e div 4096"

lemma free_pages_loop_returns:
  fixes len :: u64
  assumes "len div 4096 < 2 ^ 32" and "ucast j \<le> len div 4096"
  shows "\<exists>m'. free_pages_loop m bm s len j = Some m' \<and>
    (\<forall>k. bit_get m' bm k \<longleftrightarrow> bit_get m bm k \<and> \<not> (j \<le> k - s \<and> ucast (k - s) < len div 4096))"
  using assms(2)
proof (induction "unat (len div 4096) - unat j" arbitrary: j m)
  case 0
  then have "\<not> ucast j < len div 4096"
    by (simp add: word_less_nat_alt unat_ucast_32_64)
  moreover from this have "\<not> (j \<le> k - s \<and> ucast (k - s) < len div 4096)" for k
    by (auto simp: word_less_nat_alt word_le_nat_alt unat_ucast_32_64)
  ultimately show ?case by (simp add: free_pages_loop.simps)
next
  case (Suc d)
  then have less: "ucast j < len div 4096"
    by (simp add: word_less_nat_alt unat_ucast_32_64)
  then have "unat j + 1 < 2 ^ 32"
    using assms(1) by (simp add: word_less_nat_alt unat_ucast_32_64)
  then have suc: "unat (j + 1) = unat j + 1" by (simp add: unat_word_ariths)
  with less have next_le: "ucast (j + 1) \<le> len div 4096"
    by (simp add: word_less_nat_alt word_le_nat_alt unat_ucast_32_64)
  have "d = unat (len div 4096) - unat (j + 1)" using Suc.hyps(2) suc by simp
  from Suc.hyps(1) [OF this next_le, of "bit_clear m bm (s + j)"]
  obtain m' where m': "free_pages_loop (bit_clear m bm (s + j)) bm s len (j + 1) = Some m'"
    "\<And>k. bit_get m' bm k \<longleftrightarrow> bit_get (bit_clear m bm (s + j)) bm k
       \<and> \<not> (j + 1 \<le> k - s \<and> ucast (k - s) < len div 4096)" by auto
  have "free_pages_loop m bm s len j = Some m'"
    using less m'(1) by (simp add: free_pages_loop.simps [of m bm s len j])
  moreover have "j \<le> x \<longleftrightarrow> x = j \<or> j + 1 \<le> x" for x
    using suc by (auto simp: word_le_nat_alt word_unat_eq_iff)
  moreover have "s + j = k \<longleftrightarrow> k - s = j" for k by auto
  ultimately show ?case
    using less by (auto simp: m'(2) bit_get_clear)
qed


lemma free_entries_returns:
  assumes "\<forall>e \<in> set es. entry_type e = MULTIBOOT_MEMORY_AVAILABLE \<longrightarrow> entry_len e div 4096 < 2 ^ 32"
  shows "\<exists>m'. free_entries m bm es = Some m' \<and>
    (\<forall>k. bit_get m' bm k \<longleftrightarrow> bit_get m bm k \<and>
       \<not> (\<exists>e \<in> set es. entry_type e = MULTIBOOT_MEMORY_AVAILABLE \<and> entry_covers e k))"
  using assms
proof (induction es arbitrary: m)
  case Nil
  then show ?case by simp
next
  case (Cons e es)
  show ?case
  proof (cases "entry_type e = MULTIBOOT_MEMORY_AVAILABLE")
    case False
    with Cons show ?thesis by (auto simp: Ball_def)
  next
    case True
    with Cons.prems have len: "entry_len e div 4096 < 2 ^ 32" by simp
    from free_pages_loop_returns [OF len, of 0 m bm "entry_first_page e"]
    obtain m1 where m1: "free_pages_loop m bm (entry_first_page e) (entry_len e) 0 = Some m1"
      "\<And>k. bit_get m1 bm k \<longleftrightarrow> bit_get m bm k \<and> \<not> entry_covers e k"
      by (auto simp: entry_covers_def)
    from Cons.IH [of m1] Cons.prems obtain m' where m': "free_entries m1 bm es = Some m'"
      "\<And>k. bit_get m' bm k \<longleftrightarrow> bit_get m1 bm k \<and>
        \<not> (\<exists>e \<in> set es. entry_type e = MULTIBOOT_MEMORY_AVAILABLE \<and> entry_covers e k)"
      by auto
    have "free_entries m bm (e # es) = Some m'"
      using True m1(1) m'(1) by (simp add: entry_first_page_def)
    with True show ?thesis by (intro exI [of _ m']) (auto simp: m'(2) m1(2))
  qed
qed

lemma memset_bits_set:
  assumes "k div 8 < sz"
  shows "bit_get (memset m bm 0xFF sz) bm k"
proof -
  have "(255 :: u8) = mask 8" by (simp add: mask_eq_exp_minus_1)
  then have "bit (255 :: u8) n" if "n < 8" for n
    using that by (simp only: bit_mask_iff) simp
  with assms show ?thesis by (simp add: bit_get_byte memset_eq unat_mod8_lt)
qed

lemma bitmap_covers:
  assumes "k < max_addr div PAGE_SIZE"
  shows "k div 8 < (max_addr div PAGE_SIZE + 8 - 1) div 8"
proof -
  define np where "np = max_addr div PAGE_SIZE"
  have "unat np = unat max_addr div 4096" by (simp add: np_def PAGE_SIZE_def unat_div)
  then have "unat np < 2 ^ 20" using unat_u32_lt [of max_addr] by (simp add: div_less_iff_less_mult)
  then have "unat (np + 8 - 1) = unat np + 7" by (simp add: unat_word_ariths)
  moreover have "(unat k + 8) div 8 \<le> (unat np + 7) div 8"
    using assms by (intro div_le_mono) (simp add: np_def word_less_nat_alt)
  ultimately show ?thesis
    by (simp add: word_less_nat_alt unat_div flip: np_def)
qed


text \<open>A memory map as a PC firmware reports it: conventional memory up to \<open>0x9FC00\<close>.\<close>

definition pc_mmap :: "mmap_entry list" where
  "pc_mmap =
     [\<lparr>entry_addr = 0, entry_len = 0x9FC00, entry_type = MULTIBOOT_MEMORY_AVAILABLE\<rparr>,
      \<lparr>entry_addr = 0x9FC00, entry_len = 0x400, entry_type = MULTIBOOT_MEMORY_RESERVED\<rparr>,
      \<lparr>entry_addr = 0x100000, entry_len = 0x100000, entry_type = MULTIBOOT_MEMORY_AVAILABLE\<rparr>]"

definition pc_mmap_after :: "mmap_entry list" where
  "pc_mmap_after =
     [\<lparr>entry_addr = 0x40, entry_len = 0x9FBC0, entry_type = MULTIBOOT_MEMORY_AVAILABLE\<rparr>,
      \<lparr>entry_addr = 0x9FC00, entry_len = 0x400, entry_type = MULTIBOOT_MEMORY_RESERVED\<rparr>,
      \<lparr>entry_addr = 0x100000, entry_len = 0x100000, entry_type = MULTIBOOT_MEMORY_AVAILABLE\<rparr>]"

lemma pc_mmap_scan: "mmap_scan pc_mmap 0 = Ret 0x200000"
  by (simp add: pc_mmap_def multiboot_memory_defs)

lemma pc_mmap_place:
  "place_bitmap ((0x200000 div PAGE_SIZE + 8 - 1) div 8) 0x200000 pc_mmap = (0, pc_mmap_after)"
  by (simp add: pc_mmap_def pc_mmap_after_def multiboot_memory_defs PAGE_SIZE_def)

lemma pc_mmap_lengths:
  "\<forall>e \<in> set pc_mmap_after. entry_type e = MULTIBOOT_MEMORY_AVAILABLE \<longrightarrow> entry_len e div 4096 < 2 ^ 32"
  by (simp add: pc_mmap_after_def)

lemma ucast_minus_one_32_64: "ucast (- 1 :: u32) = (0xFFFFFFFF :: u64)"
  by (simp add: word_unat_eq_iff unat_ucast_32_64 unsigned_minus_1_eq_mask mask_eq_exp_minus_1)

end
