(* ===== verification/Paging.thy ===== *)
theory Paging
  imports Page_Allocator
begin

text \<open>
  \<^verbatim>\<open>kernel/src/arch/i686/paging.c\<close> (with the two register accesses of \<^verbatim>\<open>paging.asm\<close>): page
  directories and page tables in memory. A directory is 1024 words, each the address of a
  table together with flag bits; a table is 1024 words, each the address of a page with flag
  bits. The lemmas show that a directory built by \<open>page_directory_create\<close> maps every page to
  itself, that \<open>paging_map\<close> changes the mapping of one page only, and what the range
  operations reject.
\<close>

definition PAGING_IS_PRESENT :: u32 where "PAGING_IS_PRESENT = 1"
definition PAGING_IS_WRITEABLE :: u32 where "PAGING_IS_WRITEABLE = 2"
definition PAGING_ACCESS_FROM_ALL :: u32 where "PAGING_ACCESS_FROM_ALL = 4"
definition PAGING_TOTAL_ENTRIES_PER_TABLE :: u32 where "PAGING_TOTAL_ENTRIES_PER_TABLE = 1024"

lemmas paging_defs = PAGING_IS_PRESENT_def PAGING_IS_WRITEABLE_def PAGING_ACCESS_FROM_ALL_def
  PAGING_TOTAL_ENTRIES_PER_TABLE_def PAGE_SIZE_def

section \<open>Creating and freeing a directory\<close>

function fill_table :: "mem \<Rightarrow> addr \<Rightarrow> u32 \<Rightarrow> u8 \<Rightarrow> u32 \<Rightarrow> mem" where
  "fill_table m table offset flags j =
     (if j < PAGING_TOTAL_ENTRIES_PER_TABLE
      then fill_table (store32 m (table + 4 * j) ((offset + j * PAGE_SIZE) OR ucast flags))
             table offset flags (j + 1)
      else m)"
  by pat_completeness auto
termination
  by (relation "measure (\<lambda>(m, table, offset, flags, j). 1024 - unat j)")
    (simp_all add: PAGING_TOTAL_ENTRIES_PER_TABLE_def loop_1024)

declare fill_table.simps [simp del]

function create_tables ::
  "mem \<Rightarrow> page_allocator_info \<Rightarrow> addr \<Rightarrow> u8 \<Rightarrow> u32 \<Rightarrow> u32 \<Rightarrow> (page_allocator_info \<times> mem) outcome" where
  "create_tables m pa directory flags offset i =
     (if i < PAGING_TOTAL_ENTRIES_PER_TABLE then
        obind (page_alloc m pa) (\<lambda>(table, pa', m').
          let m'' = fill_table m' table offset flags 0
          in create_tables
               (store32 m'' (directory + 4 * i) (table OR ucast flags OR PAGING_IS_WRITEABLE))
               pa' directory flags (offset + PAGING_TOTAL_ENTRIES_PER_TABLE * PAGE_SIZE) (i + 1))
      else Ret (pa, m))"
  by pat_completeness auto
termination
  by (relation "measure (\<lambda>(m, pa, directory, flags, offset, i). 1024 - unat i)")
    (simp_all add: PAGING_TOTAL_ENTRIES_PER_TABLE_def loop_1024)

definition page_directory_create ::
  "mem \<Rightarrow> page_allocator_info \<Rightarrow> u8 \<Rightarrow> (addr \<times> page_allocator_info \<times> mem) outcome" where
  "page_directory_create m pa flags =
     obind (page_alloc m pa) (\<lambda>(directory, pa', m').
       obind (create_tables m' pa' directory flags 0 0) (\<lambda>(pa'', m''). Ret (directory, pa'', m'')))"

function free_tables :: "mem \<Rightarrow> page_allocator_info \<Rightarrow> addr \<Rightarrow> u32 \<Rightarrow> page_allocator_info \<times> mem" where
  "free_tables m pa page_directory i =
     (if i < 1024 then
        (let table = load32 m (page_directory + 4 * i) AND 0xFFFFF000;
             (pa', m') = page_free m pa table
         in free_tables m' pa' page_directory (i + 1))
      else (pa, m))"
  by pat_completeness auto
termination
  by (relation "measure (\<lambda>(m, pa, page_directory, i). 1024 - unat i)")
    (simp_all add: loop_1024)

definition page_directory_free :: "mem \<Rightarrow> page_allocator_info \<Rightarrow> addr \<Rightarrow> page_allocator_info \<times> mem" where
  "page_directory_free m pa page_directory =
     (let (pa', m') = free_tables m pa page_directory 0 in page_free m' pa' page_directory)"

declare create_tables.simps [simp del] free_tables.simps [simp del]

section \<open>The control registers\<close>

record paging_state =
  cr0 :: u32
  cr3 :: u32
  current_directory :: addr

definition paging_load_directory :: "paging_state \<Rightarrow> addr \<Rightarrow> paging_state" where
  "paging_load_directory s directory = s\<lparr>cr3 := directory\<rparr>"

definition paging_enable :: "paging_state \<Rightarrow> paging_state" where
  "paging_enable s = s\<lparr>cr0 := cr0 s OR 0x80000000\<rparr>"

definition paging_switch_directory :: "paging_state \<Rightarrow> addr \<Rightarrow> paging_state" where
  "paging_switch_directory s directory =
     (paging_load_directory s directory)\<lparr>current_directory := directory\<rparr>"

section \<open>Mapping\<close>

definition paging_is_aligned :: "addr \<Rightarrow> bool" where
  "paging_is_aligned a \<longleftrightarrow> a mod PAGE_SIZE = 0"

text \<open>\<open>Inl\<close> the status, or \<open>Inr\<close> the two indices the C code stores through its pointers.\<close>

definition paging_get_indices :: "addr \<Rightarrow> u32 + u32 \<times> u32" where
  "paging_get_indices virtual_address =
     (if \<not> paging_is_aligned virtual_address then Inl EINVARG
      else Inr (virtual_address div (PAGING_TOTAL_ENTRIES_PER_TABLE * PAGE_SIZE),
                virtual_address mod (PAGING_TOTAL_ENTRIES_PER_TABLE * PAGE_SIZE) div PAGE_SIZE))"

definition paging_set :: "mem \<Rightarrow> addr \<Rightarrow> addr \<Rightarrow> u32 \<Rightarrow> u32 \<times> mem" where
  "paging_set m directory virt val =
     (if \<not> paging_is_aligned virt then (EINVARG, m)
      else (case paging_get_indices virt of
              Inl res \<Rightarrow> (res, m)
            | Inr (directory_index, table_index) \<Rightarrow>
                let entry = load32 m (directory + 4 * directory_index);
                    table = entry AND 0xFFFFF000
                in (EOK, store32 m (table + 4 * table_index) val)))"

definition paging_map :: "mem \<Rightarrow> addr \<Rightarrow> addr \<Rightarrow> addr \<Rightarrow> u8 \<Rightarrow> u32 \<times> mem" where
  "paging_map m directory virt phys flags =
     (if \<not> paging_is_aligned virt \<or> \<not> paging_is_aligned phys then (EINVARG, m)
      else paging_set m directory virt (phys OR ucast flags))"

function paging_map_range_loop ::
  "mem \<Rightarrow> addr \<Rightarrow> addr \<Rightarrow> addr \<Rightarrow> u32 \<Rightarrow> u8 \<Rightarrow> u32 \<Rightarrow> u32 \<times> mem" where
  "paging_map_range_loop m directory virt phys count flags i =
     (if i < count then
        (let (res, m') = paging_map m directory virt phys flags
         in if res \<noteq> EOK then (res, m')
            else paging_map_range_loop m' directory (virt + PAGE_SIZE) (phys + PAGE_SIZE) count flags (i + 1))
      else (EOK, m))"
  by pat_completeness auto
termination
  by (relation "measure (\<lambda>(m, directory, virt, phys, count, flags, i). unat count - unat i)")
    (auto simp: unat_diff_step)

declare paging_map_range_loop.simps [simp del]

definition paging_map_range :: "mem \<Rightarrow> addr \<Rightarrow> addr \<Rightarrow> addr \<Rightarrow> u32 \<Rightarrow> u8 \<Rightarrow> u32 \<times> mem" where
  "paging_map_range m directory virt phys count flags =
     paging_map_range_loop m directory virt phys count flags 0"

definition paging_map_to :: "mem \<Rightarrow> addr \<Rightarrow> addr \<Rightarrow> addr \<Rightarrow> addr \<Rightarrow> u8 \<Rightarrow> u32 \<times> mem" where
  "paging_map_to m directory virt phys phys_end flags =
     (if \<not> paging_is_aligned virt \<or> \<not> paging_is_aligned phys \<or> \<not> paging_is_aligned phys_end
      then (EINVARG, m)
      else if phys_end < phys then (EINVARG, m)
      else (let total_bytes = phys_end - phys; total_pages = total_bytes div PAGE_SIZE
            in paging_map_range m directory virt phys total_pages flags))"

definition paging_get_phys_address :: "mem \<Rightarrow> addr \<Rightarrow> addr \<Rightarrow> addr" where
  "paging_get_phys_address m directory virt =
     (if \<not> paging_is_aligned virt then NULL
      else (case paging_get_indices virt of
              Inl res \<Rightarrow> NULL
            | Inr (directory_index, table_index) \<Rightarrow>
                let entry = load32 m (directory + 4 * directory_index) in
                if entry AND PAGING_IS_PRESENT = 0 then NULL
                else
                  (let table = entry AND 0xFFFFF000;
                       page_entry = load32 m (table + 4 * table_index)
                   in if page_entry AND PAGING_IS_PRESENT = 0 then NULL
                      else (page_entry AND 0xFFFFF000) + virt mod PAGE_SIZE)))"

definition paging_align_address :: "addr \<Rightarrow> addr" where
  "paging_align_address ptr =
     (if paging_is_aligned ptr then ptr else ptr + PAGE_SIZE - ptr mod PAGE_SIZE)"

section \<open>Pages and words\<close>

lemma unat_page_offset:
  fixes k x :: u32
  assumes "k < 2 ^ 20" "x < 4096"
  shows "unat (k * PAGE_SIZE + x) = unat k * 4096 + unat x"
proof -
  have "unat k < 2 ^ 20" "unat x < 4096" using assms by (simp_all add: word_less_nat_alt)
  then show ?thesis by (simp add: unat_word_ariths PAGE_SIZE_def)
qed

lemma page_of_offset:
  "k < 2 ^ 20 \<Longrightarrow> x < 4096 \<Longrightarrow> (k * PAGE_SIZE + x) div PAGE_SIZE = k" for k x :: u32
  by (simp add: word_unat_eq_iff unat_div unat_page_offset word_less_nat_alt)
    (simp add: PAGE_SIZE_def word_less_nat_alt)

lemma word_in_page:
  assumes "k < 2 ^ 20" "i < 1024" "in_region (k * PAGE_SIZE + 4 * i) 4 a"
  shows "a div PAGE_SIZE = k"
proof -
  obtain j where j: "j < 4" "a = k * PAGE_SIZE + 4 * i + of_nat j"
    using assms(3) by (rule in_regionE)
  have "unat (4 * i + of_nat j) = 4 * unat i + j"
    using assms(2) j(1) by (simp add: unat_word_ariths unat_of_nat32 word_less_nat_alt)
  then have "4 * i + of_nat j < 4096" using assms(2) j(1) by (simp add: word_less_nat_alt)
  from page_of_offset [OF assms(1) this] show ?thesis by (simp add: j(2) add.assoc)
qed

lemma words_disjoint:
  fixes i j :: u32
  assumes "i < 1024" "j < 1024" "i \<noteq> j"
  shows "disjoint_regions (p + 4 * i) 4 (p + 4 * j) 4"
  unfolding disjoint_regions_def
proof (intro allI notI, elim conjE)
  fix a assume "in_region (p + 4 * i) 4 a" "in_region (p + 4 * j) 4 a"
  then obtain x y where xy: "x < 4" "y < 4" "a = p + 4 * i + of_nat x" "a = p + 4 * j + of_nat y"
    by (metis in_regionE)
  then have "4 * i + of_nat x = 4 * j + of_nat y" by (simp add: add.assoc)
  then have "unat (4 * i + of_nat x) = unat (4 * j + of_nat y)" by simp
  moreover have "unat (4 * i + of_nat x) = 4 * unat i + x" "unat (4 * j + of_nat y) = 4 * unat j + y"
    using assms(1,2) xy(1,2) by (simp_all add: unat_word_ariths unat_of_nat32 word_less_nat_alt)
  ultimately have "4 * unat i + x = 4 * unat j + y" by simp
  then have "unat i = unat j" using xy(1,2) by presburger
  with assms(3) show False by (simp add: word_unat_eq_iff)
qed

definition same_off_page :: "u32 \<Rightarrow> mem \<Rightarrow> mem \<Rightarrow> bool" where
  "same_off_page k m m' \<longleftrightarrow> (\<forall>a. a div PAGE_SIZE \<noteq> k \<longrightarrow> m' a = m a)"

lemma load_in_page:
  "k < 2 ^ 20 \<Longrightarrow> i < 1024 \<Longrightarrow> (\<And>a. a div PAGE_SIZE = k \<Longrightarrow> m' a = m a) \<Longrightarrow>
   load32 m' (k * PAGE_SIZE + 4 * i) = load32 m (k * PAGE_SIZE + 4 * i)"
  by (rule load32_cong) (simp add: word_in_page)

lemma load_off_page:
  "same_off_page q m m' \<Longrightarrow> k \<noteq> q \<Longrightarrow> k < 2 ^ 20 \<Longrightarrow> i < 1024 \<Longrightarrow>
   load32 m' (k * PAGE_SIZE + 4 * i) = load32 m (k * PAGE_SIZE + 4 * i)"
  by (rule load_in_page) (auto simp: same_off_page_def)

lemma same_off_page_store:
  "k < 2 ^ 20 \<Longrightarrow> i < 1024 \<Longrightarrow> same_off_page k m (store32 m (k * PAGE_SIZE + 4 * i) v)"
  unfolding same_off_page_def using word_in_page store32_outside by blast

lemma same_off_page_trans:
  "same_off_page k m m' \<Longrightarrow> same_off_page k m' m'' \<Longrightarrow> same_off_page k m m''"
  by (simp add: same_off_page_def)

lemma fill_table_entries:
  assumes "k < 2 ^ 20" "j \<le> 1024"
  shows "same_off_page k m (fill_table m (k * PAGE_SIZE) offset flags j) \<and>
    (\<forall>t < 1024. load32 (fill_table m (k * PAGE_SIZE) offset flags j) (k * PAGE_SIZE + 4 * t) =
      (if j \<le> t then (offset + t * PAGE_SIZE) OR ucast flags else load32 m (k * PAGE_SIZE + 4 * t)))"
  using assms(2)
proof (induction m "k * PAGE_SIZE" offset flags j rule: fill_table.induct)
  case (1 m offset flags j)
  show ?case
  proof (cases "j < 1024")
    case False
    then show ?thesis
      by (auto simp: fill_table.simps [of m] PAGING_TOTAL_ENTRIES_PER_TABLE_def same_off_page_def)
  next
    case True
    let ?m1 = "store32 m (k * PAGE_SIZE + 4 * j) ((offset + j * PAGE_SIZE) OR ucast flags)"
    have unfold: "fill_table m (k * PAGE_SIZE) offset flags j = fill_table ?m1 (k * PAGE_SIZE) offset flags (j + 1)"
      using True by (simp add: fill_table.simps [of m] PAGING_TOTAL_ENTRIES_PER_TABLE_def)
    have IH: "same_off_page k ?m1 (fill_table ?m1 (k * PAGE_SIZE) offset flags (j + 1)) \<and>
      (\<forall>t < 1024. load32 (fill_table ?m1 (k * PAGE_SIZE) offset flags (j + 1)) (k * PAGE_SIZE + 4 * t) =
        (if j + 1 \<le> t then (offset + t * PAGE_SIZE) OR ucast flags else load32 ?m1 (k * PAGE_SIZE + 4 * t)))"
      using True by (intro "1.hyps") (simp_all add: PAGING_TOTAL_ENTRIES_PER_TABLE_def inc_le)
    have m1: "load32 ?m1 (k * PAGE_SIZE + 4 * t) =
        (if t = j then (offset + j * PAGE_SIZE) OR ucast flags else load32 m (k * PAGE_SIZE + 4 * t))"
      if "t < 1024" for t
      using words_disjoint [OF True that] by (auto simp: load32_store32_other)
    have "same_off_page k m ?m1" using assms(1) True by (rule same_off_page_store)
    with IH have "same_off_page k m (fill_table ?m1 (k * PAGE_SIZE) offset flags (j + 1))"
      using same_off_page_trans by blast
    moreover have "j \<le> t \<longleftrightarrow> t = j \<or> j + 1 \<le> t" for t
      using word_step_le [OF True, of t] by (auto simp: le_less)
    ultimately show ?thesis
      unfolding unfold using IH m1 by auto
  qed
qed

section \<open>A fresh directory\<close>

text \<open>
  \<open>off_bitmap pa k\<close>: page \<open>k\<close> holds no byte of the allocation bitmap. \<open>free_above m pa\<close>:
  the free pages the allocator can still find.
\<close>

definition off_bitmap :: "page_allocator_info \<Rightarrow> u32 \<Rightarrow> bool" where
  "off_bitmap pa k \<longleftrightarrow> (\<forall>j < num_pages pa. (bitmap pa + j div 8) div PAGE_SIZE \<noteq> k)"

definition free_above :: "mem \<Rightarrow> page_allocator_info \<Rightarrow> u32 set" where
  "free_above m pa = {k. last_index pa \<le> k \<and> page_free_at m pa k}"

lemma page_alloc_step:
  assumes "free_above m pa \<noteq> {}"
  obtains k where "k \<in> free_above m pa"
    "page_alloc m pa = Ret (k * PAGE_SIZE, pa\<lparr>last_index := k\<rparr>, bit_set m (bitmap pa) k)"
    "free_above (bit_set m (bitmap pa) k) (pa\<lparr>last_index := k\<rparr>) = free_above m pa - {k}"
proof -
  from assms page_alloc_loop_cases [of "last_index pa" m pa]
  obtain k where k: "last_index pa \<le> k" "page_free_at m pa k"
      "\<forall>j. last_index pa \<le> j \<and> j < k \<longrightarrow> \<not> page_free_at m pa j"
      "page_alloc m pa = Ret (k * PAGE_SIZE, pa\<lparr>last_index := k\<rparr>, bit_set m (bitmap pa) k)"
    by (auto simp: free_above_def page_alloc_def)
  have "free_above (bit_set m (bitmap pa) k) (pa\<lparr>last_index := k\<rparr>) = free_above m pa - {k}"
    using k(1,3) by (auto simp: free_above_def page_free_at_def bit_get_set not_le[symmetric])
  with k that show ?thesis by (simp add: free_above_def)
qed

lemma bit_set_off_bitmap:
  "k < num_pages pa \<Longrightarrow> off_bitmap pa q \<Longrightarrow> a div PAGE_SIZE = q \<Longrightarrow> bit_set m (bitmap pa) k a = m a"
  by (auto simp: bit_set_byte off_bitmap_def)

lemma page_free_off_page:
  "same_off_page k m m' \<Longrightarrow> off_bitmap pa k \<Longrightarrow> page_free_at m' pa j = page_free_at m pa j"
  by (auto simp: page_free_at_def bit_get_byte same_off_page_def off_bitmap_def)

lemma free_above_off_page:
  "same_off_page k m m' \<Longrightarrow> off_bitmap pa k \<Longrightarrow> free_above m' pa = free_above m pa"
  by (simp add: free_above_def page_free_off_page)

lemma off_bitmap_cursor [simp]: "off_bitmap (pa\<lparr>last_index := k\<rparr>) = off_bitmap pa"
  by (simp add: off_bitmap_def fun_eq_iff)

lemma page_free_at_cursor [simp]: "page_free_at m (pa\<lparr>last_index := k\<rparr>) = page_free_at m pa"
  by (simp add: page_free_at_def fun_eq_iff)

text \<open>
  \<open>identity_tables m kd flags n K\<close>: the first \<open>n\<close> entries of the directory in page \<open>kd\<close>
  point to the distinct tables in pages \<open>K 0\<close>, \<open>K 1\<close>, and so on, which map every page to
  itself.
\<close>

definition identity_tables :: "mem \<Rightarrow> u32 \<Rightarrow> u8 \<Rightarrow> u32 \<Rightarrow> (u32 \<Rightarrow> u32) \<Rightarrow> bool" where
  "identity_tables m kd flags n K \<longleftrightarrow>
     (\<forall>d < n. K d < 2 ^ 20 \<and> K d \<noteq> kd \<and> (\<forall>e < n. K d = K e \<longrightarrow> d = e)
        \<and> load32 m (kd * PAGE_SIZE + 4 * d) = K d * PAGE_SIZE OR ucast flags OR PAGING_IS_WRITEABLE
        \<and> (\<forall>t < 1024. load32 m (K d * PAGE_SIZE + 4 * t) =
             (d * (PAGING_TOTAL_ENTRIES_PER_TABLE * PAGE_SIZE) + t * PAGE_SIZE) OR ucast flags))"

lemma identity_tables_cong:
  assumes "identity_tables m kd flags n K" "kd < 2 ^ 20" "n \<le> 1024"
    and "\<And>a. a div PAGE_SIZE = kd \<or> (\<exists>d < n. a div PAGE_SIZE = K d) \<Longrightarrow> m' a = m a"
  shows "identity_tables m' kd flags n K"
  unfolding identity_tables_def
proof (intro allI impI)
  fix d assume d: "d < n"
  with assms(3) have "d < 1024" by simp
  then have "load32 m' (kd * PAGE_SIZE + 4 * d) = load32 m (kd * PAGE_SIZE + 4 * d)"
    using assms(2) by (intro load_in_page assms(4)) auto
  moreover have "load32 m' (K d * PAGE_SIZE + 4 * t) = load32 m (K d * PAGE_SIZE + 4 * t)" if "t < 1024" for t
  proof (rule load_in_page [OF _ that])
    show "K d < 2 ^ 20" using assms(1) d by (auto simp: identity_tables_def)
    show "m' a = m a" if "a div PAGE_SIZE = K d" for a using assms(4) that d by blast
  qed
  ultimately show "K d < 2 ^ 20 \<and> K d \<noteq> kd \<and> (\<forall>e < n. K d = K e \<longrightarrow> d = e)
        \<and> load32 m' (kd * PAGE_SIZE + 4 * d) = K d * PAGE_SIZE OR ucast flags OR PAGING_IS_WRITEABLE
        \<and> (\<forall>t < 1024. load32 m' (K d * PAGE_SIZE + 4 * t) =
             (d * (PAGING_TOTAL_ENTRIES_PER_TABLE * PAGE_SIZE) + t * PAGE_SIZE) OR ucast flags)"
    using assms(1) d by (simp add: identity_tables_def)
qed

lemma identity_tables_extend:
  assumes I: "identity_tables m kd flags n K" and n: "n < 1024" and kd: "kd < 2 ^ 20"
    and k: "k < 2 ^ 20" "k \<noteq> kd" "\<forall>d < n. K d \<noteq> k"
    and m2: "m2 = fill_table m (k * PAGE_SIZE) (n * (PAGING_TOTAL_ENTRIES_PER_TABLE * PAGE_SIZE)) flags 0"
  shows "identity_tables (store32 m2 (kd * PAGE_SIZE + 4 * n) (k * PAGE_SIZE OR ucast flags OR PAGING_IS_WRITEABLE))
           kd flags (n + 1) (K(n := k))"
proof -
  let ?m3 = "store32 m2 (kd * PAGE_SIZE + 4 * n) (k * PAGE_SIZE OR ucast flags OR PAGING_IS_WRITEABLE)"
  have less: "d < n + 1 \<longleftrightarrow> d = n \<or> d < n" for d
    using unat_plus_one [OF n] by (auto simp: word_less_nat_alt word_unat_eq_iff)
  have fill: "same_off_page k m m2"
    "\<forall>t < 1024. load32 m2 (k * PAGE_SIZE + 4 * t) = (n * (PAGING_TOTAL_ENTRIES_PER_TABLE * PAGE_SIZE) + t * PAGE_SIZE) OR ucast flags"
    using fill_table_entries [OF k(1), of 0] m2 by auto
  have off: "same_off_page kd m2 ?m3" using kd n by (rule same_off_page_store)
  have dir: "load32 ?m3 (kd * PAGE_SIZE + 4 * d) = load32 m (kd * PAGE_SIZE + 4 * d)" if "d < n" for d
  proof -
    have d: "d < 1024" "n \<noteq> d" using that n by auto
    have "load32 ?m3 (kd * PAGE_SIZE + 4 * d) = load32 m2 (kd * PAGE_SIZE + 4 * d)"
      by (rule load32_store32_other) (rule words_disjoint [OF n d])
    also have "\<dots> = load32 m (kd * PAGE_SIZE + 4 * d)"
      using fill(1) k(2) kd d(1) by (intro load_off_page) auto
    finally show ?thesis .
  qed
  have table: "load32 ?m3 (q * PAGE_SIZE + 4 * t) = load32 m2 (q * PAGE_SIZE + 4 * t)"
    if "q \<noteq> kd" "q < 2 ^ 20" "t < 1024" for q t
    using off that by (rule load_off_page)
  have old: "load32 m2 (q * PAGE_SIZE + 4 * t) = load32 m (q * PAGE_SIZE + 4 * t)"
    if "q \<noteq> k" "q < 2 ^ 20" "t < 1024" for q t
    using fill(1) that by (rule load_off_page)
  show ?thesis
    unfolding identity_tables_def
  proof (intro allI impI)
    fix d assume "d < n + 1"
    then consider "d = n" | "d < n" "d \<noteq> n" by (auto simp: less)
    then show "(K(n := k)) d < 2 ^ 20 \<and> (K(n := k)) d \<noteq> kd \<and> (\<forall>e < n + 1. (K(n := k)) d = (K(n := k)) e \<longrightarrow> d = e)
        \<and> load32 ?m3 (kd * PAGE_SIZE + 4 * d) = (K(n := k)) d * PAGE_SIZE OR ucast flags OR PAGING_IS_WRITEABLE
        \<and> (\<forall>t < 1024. load32 ?m3 ((K(n := k)) d * PAGE_SIZE + 4 * t) =
             (d * (PAGING_TOTAL_ENTRIES_PER_TABLE * PAGE_SIZE) + t * PAGE_SIZE) OR ucast flags)"
    proof cases
      case 1
      with k fill(2) table show ?thesis by (auto simp: less)
    next
      case 2
      with I k(3) show ?thesis
        by (auto simp: less identity_tables_def dir table old)
    qed
  qed
qed


text \<open>The state between two rounds of the loop that creates the tables.\<close>

definition directory_progress ::
  "u32 set \<Rightarrow> nat \<Rightarrow> mem \<Rightarrow> page_allocator_info \<Rightarrow> u32 \<Rightarrow> u8 \<Rightarrow> u32 \<Rightarrow> (u32 \<Rightarrow> u32) \<Rightarrow> bool" where
  "directory_progress avail spare m pa kd flags i K \<longleftrightarrow>
     identity_tables m kd flags i K \<and> num_pages pa \<le> 2 ^ 20 \<and> kd < 2 ^ 20 \<and> i \<le> 1024 \<and>
     kd \<notin> free_above m pa \<and> off_bitmap pa kd \<and>
     (\<forall>k \<in> free_above m pa. off_bitmap pa k) \<and>
     (\<forall>d < i. K d \<notin> free_above m pa \<and> off_bitmap pa (K d)) \<and>
     free_above m pa \<subseteq> avail \<and> 1024 + spare \<le> card (free_above m pa) + unat i"

lemma free_above_page:
  "k \<in> free_above m pa \<Longrightarrow> num_pages pa \<le> 2 ^ 20 \<Longrightarrow> k < 2 ^ 20 \<and> k < num_pages pa"
  by (auto simp: free_above_def page_free_at_def intro: less_le_trans)

lemma directory_progress_step:
  assumes P: "directory_progress avail spare m pa kd flags i K" and i: "i < 1024"
  obtains k m1 m3 where
    "page_alloc m pa = Ret (k * PAGE_SIZE, pa\<lparr>last_index := k\<rparr>, m1)"
    "m3 = store32 (fill_table m1 (k * PAGE_SIZE) (i * (PAGING_TOTAL_ENTRIES_PER_TABLE * PAGE_SIZE)) flags 0)
            (kd * PAGE_SIZE + 4 * i) (k * PAGE_SIZE OR ucast flags OR PAGING_IS_WRITEABLE)"
    "directory_progress avail spare m3 (pa\<lparr>last_index := k\<rparr>) kd flags (i + 1) (K(i := k))"
proof -
  have F: "free_above m pa \<noteq> {}" using P i by (auto simp: directory_progress_def word_less_nat_alt)
  from page_alloc_step [OF this] obtain k where k: "k \<in> free_above m pa"
    "page_alloc m pa = Ret (k * PAGE_SIZE, pa\<lparr>last_index := k\<rparr>, bit_set m (bitmap pa) k)"
    "free_above (bit_set m (bitmap pa) k) (pa\<lparr>last_index := k\<rparr>) = free_above m pa - {k}" .
  define m1 where "m1 = bit_set m (bitmap pa) k"
  define m2 where "m2 = fill_table m1 (k * PAGE_SIZE) (i * (PAGING_TOTAL_ENTRIES_PER_TABLE * PAGE_SIZE)) flags 0"
  define m3 where "m3 = store32 m2 (kd * PAGE_SIZE + 4 * i) (k * PAGE_SIZE OR ucast flags OR PAGING_IS_WRITEABLE)"
  have kd: "kd < 2 ^ 20" and off: "off_bitmap pa kd" "off_bitmap pa k"
    and kp: "k < 2 ^ 20" "k < num_pages pa" "k \<noteq> kd" "\<forall>d < i. K d \<noteq> k"
    using P k(1) free_above_page by (auto simp: directory_progress_def)
  have I1: "identity_tables m1 kd flags i K"
  proof (rule identity_tables_cong)
    show "identity_tables m kd flags i K" "kd < 2 ^ 20" "i \<le> 1024"
      using P by (auto simp: directory_progress_def)
    show "m1 a = m a" if "a div PAGE_SIZE = kd \<or> (\<exists>d < i. a div PAGE_SIZE = K d)" for a
      using that P kp(2) by (auto simp: m1_def directory_progress_def intro: bit_set_off_bitmap)
  qed
  have I3: "identity_tables m3 kd flags (i + 1) (K(i := k))"
    unfolding m3_def using I1 i kd kp(1,3,4) m2_def by (rule identity_tables_extend)
  have off1: "same_off_page k m1 m2" using fill_table_entries [OF kp(1), of 0] by (auto simp: m2_def)
  have off2: "same_off_page kd m2 m3" unfolding m3_def using kd i by (rule same_off_page_store)
  have F3: "free_above m3 (pa\<lparr>last_index := k\<rparr>) = free_above m pa - {k}"
    using free_above_off_page [OF off2, of "pa\<lparr>last_index := k\<rparr>"]
      free_above_off_page [OF off1, of "pa\<lparr>last_index := k\<rparr>"] off k(3) by (simp add: m1_def)
  have less: "d < i + 1 \<longleftrightarrow> d = i \<or> d < i" for d
    using unat_plus_one [OF i] by (auto simp: word_less_nat_alt word_unat_eq_iff)
  have card: "card (free_above m pa) = Suc (card (free_above m pa - {k}))"
    by (rule card.remove [OF finite k(1)])
  have "directory_progress avail spare m3 (pa\<lparr>last_index := k\<rparr>) kd flags (i + 1) (K(i := k))"
    unfolding directory_progress_def F3
  proof (intro conjI ballI allI impI)
    show "1024 + spare \<le> card (free_above m pa - {k}) + unat (i + 1)"
      using P card unat_plus_one [OF i] by (simp add: directory_progress_def)
    show "i + 1 \<le> 1024" using i by (rule inc_le)
    show "(K(i := k)) d \<notin> free_above m pa - {k}" "off_bitmap (pa\<lparr>last_index := k\<rparr>) ((K(i := k)) d)"
      if "d < i + 1" for d
      using that P off(2) by (auto simp: directory_progress_def less)
  qed (use P I3 off kp in \<open>auto simp: directory_progress_def\<close>)
  with k(2) that show ?thesis by (auto simp: m1_def m2_def m3_def)
qed

lemma create_tables_identity:
  "directory_progress avail spare m pa kd flags i K \<Longrightarrow>
   \<exists>pa' m' K'. create_tables m pa (kd * PAGE_SIZE) flags (i * (PAGING_TOTAL_ENTRIES_PER_TABLE * PAGE_SIZE)) i
                 = Ret (pa', m')
     \<and> directory_progress avail spare m' pa' kd flags 1024 K'"
proof (induction "1024 - unat i" arbitrary: m pa i K rule: less_induct)
  case less
  show ?case
  proof (cases "i < 1024")
    case False
    with less.prems have "i = 1024" by (auto simp: directory_progress_def)
    with less.prems show ?thesis
      by (auto simp: create_tables.simps [of m] PAGING_TOTAL_ENTRIES_PER_TABLE_def)
  next
    case True
    from less.prems True obtain k m1 m3 where step:
      "page_alloc m pa = Ret (k * PAGE_SIZE, pa\<lparr>last_index := k\<rparr>, m1)"
      "m3 = store32 (fill_table m1 (k * PAGE_SIZE) (i * (PAGING_TOTAL_ENTRIES_PER_TABLE * PAGE_SIZE)) flags 0)
            (kd * PAGE_SIZE + 4 * i) (k * PAGE_SIZE OR ucast flags OR PAGING_IS_WRITEABLE)"
      "directory_progress avail spare m3 (pa\<lparr>last_index := k\<rparr>) kd flags (i + 1) (K(i := k))"
      by (rule directory_progress_step)
    have "create_tables m pa (kd * PAGE_SIZE) flags (i * (PAGING_TOTAL_ENTRIES_PER_TABLE * PAGE_SIZE)) i
      = create_tables m3 (pa\<lparr>last_index := k\<rparr>) (kd * PAGE_SIZE) flags
          ((i + 1) * (PAGING_TOTAL_ENTRIES_PER_TABLE * PAGE_SIZE)) (i + 1)"
      using True step(1,2)
      by (simp add: create_tables.simps [of m] Let_def PAGING_TOTAL_ENTRIES_PER_TABLE_def distrib_right)
    with less.hyps [OF loop_1024 [OF True] step(3)] show ?thesis by simp
  qed
qed

lemma page_directory_create_tables:
  assumes "num_pages pa \<le> 2 ^ 20" "1025 + spare \<le> card (free_above m pa)"
    and "\<forall>k \<in> free_above m pa. off_bitmap pa k"
  shows "\<exists>kd K pa' m'. page_directory_create m pa flags = Ret (kd * PAGE_SIZE, pa', m')
    \<and> directory_progress (free_above m pa) spare m' pa' kd flags 1024 K"
proof -
  have "free_above m pa \<noteq> {}" using assms(2) by auto
  from page_alloc_step [OF this] obtain k where k: "k \<in> free_above m pa"
    "page_alloc m pa = Ret (k * PAGE_SIZE, pa\<lparr>last_index := k\<rparr>, bit_set m (bitmap pa) k)"
    "free_above (bit_set m (bitmap pa) k) (pa\<lparr>last_index := k\<rparr>) = free_above m pa - {k}" .
  have "card (free_above m pa) = Suc (card (free_above m pa - {k}))"
    by (rule card.remove [OF finite k(1)])
  then have P: "directory_progress (free_above m pa) spare (bit_set m (bitmap pa) k) (pa\<lparr>last_index := k\<rparr>) k flags 0 K" for K
    unfolding directory_progress_def k(3) identity_tables_def
    using k(1) assms free_above_page [OF k(1)] by auto
  from create_tables_identity [OF P] obtain pa' m' K' where
    "create_tables (bit_set m (bitmap pa) k) (pa\<lparr>last_index := k\<rparr>) (k * PAGE_SIZE) flags 0 0 = Ret (pa', m')"
    "directory_progress (free_above m pa) spare m' pa' k flags 1024 K'"
    by auto
  with k show ?thesis
    by (intro exI [of _ k] exI [of _ K'] exI [of _ pa'] exI [of _ m'])
      (simp add: page_directory_create_def)
qed

lemma card_words_below: "card {k :: u32. k < n} = unat n"
proof -
  have "unat ` {k :: u32. k < n} = {..< unat n}"
  proof (intro equalityI subsetI)
    fix x assume "x \<in> {..< unat n}"
    then have "x < unat n" by simp
    then have "unat (of_nat x :: u32) = x" using less_trans [OF _ unat_u32_lt [of n]] by (intro unat_of_nat32) simp
    with \<open>x < unat n\<close> show "x \<in> unat ` {k :: u32. k < n}"
      by (intro image_eqI [of _ _ "of_nat x"]) (simp_all add: word_less_nat_alt)
  qed (auto simp: word_less_nat_alt)
  moreover have "inj_on unat {k :: u32. k < n}" by (rule inj_onI) (simp add: word_unat_eq_iff)
  ultimately show ?thesis by (metis card_image card_lessThan)
qed

definition empty_mem :: mem where "empty_mem = (\<lambda>a. 0)"

definition small_allocator :: page_allocator_info where
  "small_allocator = \<lparr>bitmap = 0xA00000, num_pages = 0x800, last_index = 1\<rparr>"

lemma small_allocator_free: "free_above empty_mem small_allocator = {k. k < 0x800} - {0}"
  by (auto simp: free_above_def page_free_at_def small_allocator_def bit_get_byte empty_mem_def
      word_less_nat_alt word_le_nat_alt word_unat_eq_iff)

lemma small_allocator_card: "card (free_above empty_mem small_allocator) = 0x7FF"
proof -
  have "card ({k :: u32. k < 0x800} - {0}) = card {k :: u32. k < 0x800} - 1"
    by (rule card_Diff_singleton) simp
  then show ?thesis by (simp add: small_allocator_free card_words_below)
qed

lemma small_allocator_off: "k < 0x800 \<Longrightarrow> off_bitmap small_allocator k"
  unfolding off_bitmap_def
proof (intro allI impI)
  fix j assume k: "k < 0x800" and "j < num_pages small_allocator"
  then have "unat (j div 8) < 4096" by (simp add: small_allocator_def unat_div word_less_nat_alt)
  then have "j div 8 < 4096" by (simp add: word_less_nat_alt)
  from page_of_offset [OF _ this, of "0xA00"]
  have "(0xA00000 + j div 8) div PAGE_SIZE = 0xA00" by (simp add: PAGE_SIZE_def)
  with k show "(bitmap small_allocator + j div 8) div PAGE_SIZE \<noteq> k"
    by (auto simp: small_allocator_def)
qed

section \<open>Mapping pages\<close>

text \<open>
  \<open>directory_wf m kd K\<close>: page \<open>kd\<close> is a directory whose 1024 entries are present and point to
  the distinct tables in pages \<open>K 0\<close>, \<open>K 1\<close>, and so on.
\<close>

definition directory_wf :: "mem \<Rightarrow> u32 \<Rightarrow> (u32 \<Rightarrow> u32) \<Rightarrow> bool" where
  "directory_wf m kd K \<longleftrightarrow> kd < 2 ^ 20 \<and>
     (\<forall>d < 1024. K d < 2 ^ 20 \<and> K d \<noteq> kd \<and> (\<forall>e < 1024. K d = K e \<longrightarrow> d = e)
        \<and> load32 m (kd * PAGE_SIZE + 4 * d) AND 0xFFFFF000 = K d * PAGE_SIZE
        \<and> load32 m (kd * PAGE_SIZE + 4 * d) AND PAGING_IS_PRESENT \<noteq> 0)"

lemma page_mask_bits: "0xFFFFF000 = (NOT (mask 12) :: u32)"
  by (simp add: mask_eq_exp_minus_1)

lemma aligned_bits: "p mod PAGE_SIZE = 0 \<longleftrightarrow> take_bit 12 p = 0" for p :: u32
  by (simp add: PAGE_SIZE_def take_bit_eq_mod)

lemma low_bits: "x < 4096 \<Longrightarrow> take_bit 12 x = x" for x :: u32
  by (simp add: take_bit_eq_mod word_unat_eq_iff unat_mod word_less_nat_alt)

lemma page_mask_or:
  fixes p x :: u32
  assumes "p mod PAGE_SIZE = 0" "take_bit 12 x = x"
  shows "(p OR x) AND 0xFFFFF000 = p"
proof (rule bit_eqI)
  fix n assume n: "possible_bit TYPE(32 word) n"
  have "n < 12 \<Longrightarrow> \<not> bit p n"
    using assms(1) bit_take_bit_iff [of 12 p n] by (simp add: aligned_bits)
  moreover have "\<not> n < 12 \<Longrightarrow> \<not> bit x n"
    using assms(2) bit_take_bit_iff [of 12 x n] by simp
  ultimately show "bit ((p OR x) AND 0xFFFFF000) n \<longleftrightarrow> bit p n"
    using n unfolding page_mask_bits by (auto simp: bit_simps)
qed

lemma flags_low: "take_bit 12 (ucast (flags :: u8) :: u32) = ucast flags"
  by (rule bit_eqI) (auto simp: bit_simps dest: bit_imp_le_length)

lemma page_mask_flags: "p mod PAGE_SIZE = 0 \<Longrightarrow> (p OR ucast flags) AND 0xFFFFF000 = p" for flags :: u8
  by (rule page_mask_or) (simp_all add: flags_low)


abbreviation dir_index :: "addr \<Rightarrow> u32" where
  "dir_index v \<equiv> v div (PAGING_TOTAL_ENTRIES_PER_TABLE * PAGE_SIZE)"

abbreviation table_index :: "addr \<Rightarrow> u32" where
  "table_index v \<equiv> v mod (PAGING_TOTAL_ENTRIES_PER_TABLE * PAGE_SIZE) div PAGE_SIZE"

lemma dir_index_lt: "dir_index v < 1024"
  by (simp add: paging_defs word_less_nat_alt unat_div less_mult_imp_div_less)

lemma table_index_lt: "table_index v < 1024"
  by (simp add: paging_defs word_less_nat_alt unat_div unat_mod less_mult_imp_div_less)

lemma index_join:
  assumes "paging_is_aligned v"
  shows "dir_index v * (PAGING_TOTAL_ENTRIES_PER_TABLE * PAGE_SIZE) + table_index v * PAGE_SIZE = v"
proof -
  have "table_index v * PAGE_SIZE = v mod (PAGING_TOTAL_ENTRIES_PER_TABLE * PAGE_SIZE)"
  proof (rule page_address)
    have "unat v mod 4096 = 0" using assms
      by (simp add: paging_is_aligned_def PAGE_SIZE_def word_unat_eq_iff unat_mod)
    then show "v mod (PAGING_TOTAL_ENTRIES_PER_TABLE * PAGE_SIZE) mod PAGE_SIZE = 0"
      by (simp add: paging_defs word_unat_eq_iff unat_mod mod_mod_cancel)
  qed
  then show ?thesis by (simp add: word_mod_div_equality)
qed

lemma index_inj:
  "paging_is_aligned v \<Longrightarrow> paging_is_aligned w \<Longrightarrow> dir_index v = dir_index w \<Longrightarrow> table_index v = table_index w \<Longrightarrow> v = w"
  by (metis index_join)

lemma directory_wf_at:
  assumes "directory_wf m kd K"
  shows "K (dir_index v) < 2 ^ 20" "K (dir_index v) \<noteq> kd"
    "load32 m (kd * PAGE_SIZE + 4 * dir_index v) AND 0xFFFFF000 = K (dir_index v) * PAGE_SIZE"
    "load32 m (kd * PAGE_SIZE + 4 * dir_index v) AND PAGING_IS_PRESENT \<noteq> 0"
    "K (dir_index v) = K (dir_index w) \<longleftrightarrow> dir_index v = dir_index w"
proof -
  have all: "\<And>d. d < 1024 \<Longrightarrow> K d < 2 ^ 20 \<and> K d \<noteq> kd \<and> (\<forall>e < 1024. K d = K e \<longrightarrow> d = e)
        \<and> load32 m (kd * PAGE_SIZE + 4 * d) AND 0xFFFFF000 = K d * PAGE_SIZE
        \<and> load32 m (kd * PAGE_SIZE + 4 * d) AND PAGING_IS_PRESENT \<noteq> 0"
    using assms by (simp add: directory_wf_def)
  note v = all [OF dir_index_lt [of v]]
  show "K (dir_index v) < 2 ^ 20" "K (dir_index v) \<noteq> kd"
    "load32 m (kd * PAGE_SIZE + 4 * dir_index v) AND 0xFFFFF000 = K (dir_index v) * PAGE_SIZE"
    "load32 m (kd * PAGE_SIZE + 4 * dir_index v) AND PAGING_IS_PRESENT \<noteq> 0"
    using v by (simp_all only: simp_thms not_False_eq_True)
  show "K (dir_index v) = K (dir_index w) \<longleftrightarrow> dir_index v = dir_index w"
    using v dir_index_lt [of w] by metis
qed

lemma paging_set_store:
  assumes "directory_wf m kd K" "paging_is_aligned v"
  shows "paging_set m (kd * PAGE_SIZE) v val =
           (EOK, store32 m (K (dir_index v) * PAGE_SIZE + 4 * table_index v) val)"
  using assms(2) directory_wf_at(3) [OF assms(1), of v] by (simp add: paging_set_def paging_get_indices_def)

lemma get_phys_entry:
  assumes "directory_wf m kd K" "paging_is_aligned v"
  shows "paging_get_phys_address m (kd * PAGE_SIZE) v =
    (let e = load32 m (K (dir_index v) * PAGE_SIZE + 4 * table_index v)
     in if e AND PAGING_IS_PRESENT = 0 then NULL else e AND 0xFFFFF000)"
  using assms(2) directory_wf_at(3,4) [OF assms(1), of v]
  by (simp add: paging_get_phys_address_def paging_get_indices_def paging_is_aligned_def Let_def)

lemma directory_wf_store:
  assumes "directory_wf m kd K"
  shows "directory_wf (store32 m (K (dir_index v) * PAGE_SIZE + 4 * table_index v) val) kd K"
proof -
  have "same_off_page (K (dir_index v)) m (store32 m (K (dir_index v) * PAGE_SIZE + 4 * table_index v) val)"
    using directory_wf_at(1) [OF assms] table_index_lt by (rule same_off_page_store)
  note load_off_page [OF this directory_wf_at(2) [OF assms, symmetric]]
  with assms show ?thesis by (simp add: directory_wf_def)
qed

lemma entry_store:
  assumes wf: "directory_wf m kd K" and v: "paging_is_aligned v" and w: "paging_is_aligned w"
  shows "load32 (store32 m (K (dir_index v) * PAGE_SIZE + 4 * table_index v) val)
           (K (dir_index w) * PAGE_SIZE + 4 * table_index w) =
         (if w = v then val else load32 m (K (dir_index w) * PAGE_SIZE + 4 * table_index w))"
proof (cases "dir_index w = dir_index v")
  case True
  show ?thesis
  proof (cases "w = v")
    case False
    with True index_inj [OF w v] have "table_index v \<noteq> table_index w" by metis
    from words_disjoint [OF table_index_lt table_index_lt this] True False
    show ?thesis by (simp add: load32_store32_other)
  qed (simp add: load32_store32_same)
next
  case False
  then have "K (dir_index w) \<noteq> K (dir_index v)" by (simp add: directory_wf_at(5) [OF wf])
  from load_off_page [OF same_off_page_store [OF directory_wf_at(1) [OF wf] table_index_lt] this directory_wf_at(1) [OF wf] table_index_lt]
  show ?thesis using False by auto
qed

text \<open>
  Mapping an aligned page with the present flag: afterwards the page translates to the given
  frame, every other page translates as before, and the directory stays well-formed.
\<close>

lemma paging_map_translates:
  assumes "directory_wf m kd K" "paging_is_aligned virt" "paging_is_aligned phys" "bit flags 0"
  shows "\<exists>m'. paging_map m (kd * PAGE_SIZE) virt phys flags = (EOK, m') \<and> directory_wf m' kd K
    \<and> (\<forall>v. paging_is_aligned v \<longrightarrow>
         paging_get_phys_address m' (kd * PAGE_SIZE) v =
           (if v = virt then phys else paging_get_phys_address m (kd * PAGE_SIZE) v))"
proof -
  let ?m = "store32 m (K (dir_index virt) * PAGE_SIZE + 4 * table_index virt) (phys OR ucast flags)"
  have wf: "directory_wf ?m kd K" using assms(1) by (rule directory_wf_store)
  have "bit ((phys OR ucast flags) AND PAGING_IS_PRESENT) 0"
    using assms(4) by (simp add: PAGING_IS_PRESENT_def bit_simps)
  then have present: "(phys OR ucast flags) AND PAGING_IS_PRESENT \<noteq> 0" by auto
  have "paging_get_phys_address ?m (kd * PAGE_SIZE) v =
           (if v = virt then phys else paging_get_phys_address m (kd * PAGE_SIZE) v)"
    if "paging_is_aligned v" for v
    using that assms(3) present entry_store [OF assms(1,2) that]
    by (simp add: get_phys_entry [OF wf that] get_phys_entry [OF assms(1) that] Let_def
        page_mask_flags paging_is_aligned_def)
  moreover have "paging_map m (kd * PAGE_SIZE) virt phys flags = (EOK, ?m)"
    using paging_set_store [OF assms(1,2)] assms(2,3) by (simp add: paging_map_def)
  ultimately show ?thesis using wf by blast
qed

lemma paging_map_unaligned:
  "\<not> paging_is_aligned virt \<or> \<not> paging_is_aligned phys \<Longrightarrow>
   paging_map m directory virt phys flags = (EINVARG, m)"
  by (simp add: paging_map_def)

lemma aligned_nat: "paging_is_aligned v \<longleftrightarrow> 4096 dvd unat v"
  by (simp add: paging_is_aligned_def PAGE_SIZE_def word_unat_eq_iff unat_mod dvd_eq_mod_eq_0)

lemma aligned_add: "paging_is_aligned v \<Longrightarrow> paging_is_aligned w \<Longrightarrow> paging_is_aligned (v + w)"
proof -
  assume "paging_is_aligned v" "paging_is_aligned w"
  then have "4096 dvd (unat v + unat w) mod 2 ^ 32"
    by (intro dvd_mod) (simp_all add: aligned_nat)
  then show ?thesis by (simp add: aligned_nat unat_word_ariths)
qed

lemma aligned_diff: "paging_is_aligned v \<Longrightarrow> paging_is_aligned w \<Longrightarrow> paging_is_aligned (v - w)"
proof -
  assume "paging_is_aligned v" "paging_is_aligned w"
  then have "4096 dvd (if unat w \<le> unat v then unat v - unat w else unat v + 2 ^ 32 - unat w)"
    by (auto simp: aligned_nat intro!: dvd_diff_nat dvd_add)
  then show ?thesis by (simp add: aligned_nat unat_sub_if' split: if_splits)
qed

lemma aligned_page: "paging_is_aligned PAGE_SIZE"
  by (simp add: aligned_nat PAGE_SIZE_def)

lemma aligned_mult: "k < 2 ^ 20 \<Longrightarrow> paging_is_aligned (k * PAGE_SIZE)"
  using unat_page_offset [of k 0] by (simp add: aligned_nat)

lemma page_step:
  assumes "paging_is_aligned d" "n < c" "c \<le> 2 ^ 20"
  shows "d div PAGE_SIZE < c - n \<longleftrightarrow> d = 0 \<or> (d - PAGE_SIZE) div PAGE_SIZE < c - (n + 1)"
    and "d = 0 \<Longrightarrow> \<not> (d - PAGE_SIZE) div PAGE_SIZE < c - (n + 1)"
proof -
  have c: "unat c \<le> 1048576" "unat (c - n) = unat c - unat n" "unat (c - (n + 1)) = unat c - unat n - 1" "unat n < unat c"
    using assms(2,3) unat_plus_one [OF assms(2)] inc_le [OF assms(2)]
    by (simp_all add: word_le_nat_alt word_less_nat_alt unat_sub)
  then show "d = 0 \<Longrightarrow> \<not> (d - PAGE_SIZE) div PAGE_SIZE < c - (n + 1)"
    by (simp add: word_less_nat_alt unat_div PAGE_SIZE_def)
  show "d div PAGE_SIZE < c - n \<longleftrightarrow> d = 0 \<or> (d - PAGE_SIZE) div PAGE_SIZE < c - (n + 1)"
  proof (cases "d = 0")
    case False
    obtain q where q: "unat d = 4096 * q" using assms(1) by (auto simp: aligned_nat dvd_def)
    with False have "q \<noteq> 0" by (auto simp: word_unat_eq_iff)
    then have "unat (d - PAGE_SIZE) = 4096 * (q - 1)"
      using q by (simp add: PAGE_SIZE_def unat_sub word_le_nat_alt diff_mult_distrib2)
    with q c \<open>q \<noteq> 0\<close> False show ?thesis
      by (simp add: word_less_nat_alt unat_div PAGE_SIZE_def) arith
  qed (use assms(2) in \<open>simp add: word_less_nat_alt c\<close>)
qed

lemma paging_map_range_loop_translates:
  assumes "directory_wf m kd K" "paging_is_aligned virt" "paging_is_aligned phys" "bit flags 0"
    "count \<le> 2 ^ 20"
  shows "\<exists>m'. paging_map_range_loop m (kd * PAGE_SIZE) virt phys count flags i = (EOK, m') \<and> directory_wf m' kd K
    \<and> (\<forall>v. paging_is_aligned v \<longrightarrow>
         paging_get_phys_address m' (kd * PAGE_SIZE) v =
           (if i < count \<and> (v - virt) div PAGE_SIZE < count - i then phys + (v - virt)
            else paging_get_phys_address m (kd * PAGE_SIZE) v))"
  using assms
proof (induction "unat count - unat i" arbitrary: m virt phys i rule: less_induct)
  case less
  show ?case
  proof (cases "i < count")
    case False
    with less.prems show ?thesis by (simp add: paging_map_range_loop.simps [of m])
  next
    case True
    let ?g = "\<lambda>m. paging_get_phys_address m (kd * PAGE_SIZE)"
    from paging_map_translates [OF less.prems(1-4)] obtain m1 where m1:
      "paging_map m (kd * PAGE_SIZE) virt phys flags = (EOK, m1)" "directory_wf m1 kd K"
      "\<And>v. paging_is_aligned v \<Longrightarrow> ?g m1 v = (if v = virt then phys else ?g m v)" by blast
    have "paging_is_aligned (virt + PAGE_SIZE)" "paging_is_aligned (phys + PAGE_SIZE)"
      using less.prems aligned_page by (simp_all add: aligned_add)
    from less.hyps [OF unat_diff_step [OF True] m1(2) this less.prems(4,5)] obtain m2 where m2:
      "paging_map_range_loop m1 (kd * PAGE_SIZE) (virt + PAGE_SIZE) (phys + PAGE_SIZE) count flags (i + 1) = (EOK, m2)"
      "directory_wf m2 kd K"
      "\<And>v. paging_is_aligned v \<Longrightarrow> ?g m2 v =
        (if i + 1 < count \<and> (v - virt - PAGE_SIZE) div PAGE_SIZE < count - (i + 1) then phys + (v - virt) else ?g m1 v)"
      by (auto simp: algebra_simps)
    have "?g m2 v = (if (v - virt) div PAGE_SIZE < count - i then phys + (v - virt) else ?g m v)"
      if v: "paging_is_aligned v" for v
    proof -
      have more: "(v - virt - PAGE_SIZE) div PAGE_SIZE < count - (i + 1) \<Longrightarrow> i + 1 < count"
        using inc_le [OF True] by (auto simp: le_less)
      from page_step [OF aligned_diff [OF v less.prems(2)] True less.prems(5)] more show ?thesis
        unfolding m2(3) [OF v] m1(3) [OF v] by auto
    qed
    with True m1(1) m2(1,2) show ?thesis
      by (simp add: paging_map_range_loop.simps [of m])
  qed
qed

lemma paging_map_to_maps:
  assumes "directory_wf m kd K" "paging_is_aligned virt" "paging_is_aligned phys"
    "paging_is_aligned phys_end" "phys \<le> phys_end" "bit flags 0"
  shows "\<exists>m'. paging_map_to m (kd * PAGE_SIZE) virt phys phys_end flags = (EOK, m') \<and> directory_wf m' kd K
    \<and> (\<forall>v. paging_is_aligned v \<longrightarrow>
         paging_get_phys_address m' (kd * PAGE_SIZE) v =
           (if v - virt < phys_end - phys then phys + (v - virt)
            else paging_get_phys_address m (kd * PAGE_SIZE) v))"
proof -
  let ?c = "(phys_end - phys) div PAGE_SIZE"
  have "unat ?c \<le> 2 ^ 20" 
    using less_mult_imp_div_less [of "unat (phys_end - phys)" "2 ^ 20" 4096] by (simp add: PAGE_SIZE_def unat_div)
  then have "?c \<le> 2 ^ 20" by (simp add: word_le_nat_alt)
  from paging_map_range_loop_translates [OF assms(1,2,3,6) this, of 0] obtain m' where m':
    "paging_map_range_loop m (kd * PAGE_SIZE) virt phys ?c flags 0 = (EOK, m')" "directory_wf m' kd K"
    "\<And>v. paging_is_aligned v \<Longrightarrow> paging_get_phys_address m' (kd * PAGE_SIZE) v =
           (if 0 < ?c \<and> (v - virt) div PAGE_SIZE < ?c then phys + (v - virt)
            else paging_get_phys_address m (kd * PAGE_SIZE) v)" by auto
  have "0 < ?c \<and> d div PAGE_SIZE < ?c \<longleftrightarrow> d < phys_end - phys" if al: "paging_is_aligned d" for d
  proof -
    obtain q where "unat d = 4096 * q"
      using al unfolding aligned_nat by (rule dvdE)
    moreover obtain r where "unat (phys_end - phys) = 4096 * r"
      using aligned_diff [OF assms(4,3)] unfolding aligned_nat by (rule dvdE)
    ultimately show ?thesis by (auto simp: word_less_nat_alt unat_div PAGE_SIZE_def)
  qed
  with m' assms show ?thesis
    by (simp add: paging_map_to_def paging_map_range_def aligned_diff leD)
qed

text \<open>
  C12. \<open>paging_map_to\<close> maps every page of the range to the page at the same distance from the physical start, and no other page.
\<close>
theorem paging_map_to_translates:
  assumes "directory_wf m kd K" "paging_is_aligned virt" "paging_is_aligned phys"
    "paging_is_aligned phys_end" "phys \<le> phys_end" "bit flags 0"
  shows "\<exists>m'. paging_map_to m (kd * PAGE_SIZE) virt phys phys_end flags = (EOK, m') \<and> directory_wf m' kd K
    \<and> (\<forall>v. paging_is_aligned v \<longrightarrow>
         paging_get_phys_address m' (kd * PAGE_SIZE) v =
           (if v - virt < phys_end - phys then phys + (v - virt)
            else paging_get_phys_address m (kd * PAGE_SIZE) v))"
  using assms by (rule paging_map_to_maps)

theorem paging_map_to_rejects:
  assumes "\<not> paging_is_aligned virt \<or> \<not> paging_is_aligned phys \<or> \<not> paging_is_aligned phys_end \<or> phys_end < phys"
  shows "paging_map_to m directory virt phys phys_end flags = (EINVARG, m)"
  using assms by (auto simp: paging_map_to_def)

lemma identity_tables_wf:
  assumes I: "identity_tables m kd flags 1024 K" and "kd < 2 ^ 20" "bit flags 0"
  shows "directory_wf m kd K"
    and "paging_is_aligned v \<Longrightarrow> paging_get_phys_address m (kd * PAGE_SIZE) v = v"
proof -
  have present: "(x OR ucast flags) AND PAGING_IS_PRESENT \<noteq> 0" for x :: u32
  proof
    assume 0: "(x OR ucast flags) AND PAGING_IS_PRESENT = 0"
    have "bit ((x OR ucast flags) AND PAGING_IS_PRESENT) 0"
      using assms(3) by (simp add: PAGING_IS_PRESENT_def bit_simps)
    with 0 show False by simp
  qed
  have low: "take_bit 12 (ucast flags OR PAGING_IS_WRITEABLE :: u32) = ucast flags OR PAGING_IS_WRITEABLE"
    by (simp add: take_bit_or flags_low PAGING_IS_WRITEABLE_def)
  show wf: "directory_wf m kd K"
    unfolding directory_wf_def
  proof (intro conjI allI impI)
    fix d :: u32 assume d: "d < 1024"
    note Id = I [unfolded identity_tables_def, rule_format, OF d]
    show "load32 m (kd * PAGE_SIZE + 4 * d) AND 0xFFFFF000 = K d * PAGE_SIZE"
      using Id page_mask_or [OF _ low] aligned_mult by (simp add: or.assoc paging_is_aligned_def)
    show "load32 m (kd * PAGE_SIZE + 4 * d) AND PAGING_IS_PRESENT \<noteq> 0"
      using Id present [of "K d * PAGE_SIZE OR PAGING_IS_WRITEABLE"] by (simp add: or.assoc or.commute or.left_commute)
  qed (use I assms(2) in \<open>auto simp: identity_tables_def\<close>)
  show "paging_get_phys_address m (kd * PAGE_SIZE) v = v" if v: "paging_is_aligned v"
  proof -
    have "load32 m (K (dir_index v) * PAGE_SIZE + 4 * table_index v) = v OR ucast flags"
      using I dir_index_lt [of v] table_index_lt [of v] index_join [OF v]
      by (simp add: identity_tables_def)
    with present v show ?thesis
      by (simp add: get_phys_entry [OF wf v] page_mask_flags paging_is_aligned_def)
  qed
qed

theorem paging_align_address_up:
  assumes "ptr \<le> 0xFFFFF000"
  shows "paging_is_aligned (paging_align_address ptr)"
    and "ptr \<le> paging_align_address ptr" and "paging_align_address ptr - ptr < PAGE_SIZE"
proof -
  define q r where "q = unat ptr div 4096" and "r = unat ptr mod 4096"
  have p: "unat ptr = 4096 * q + r" and r: "r < 4096" and rm: "unat (ptr mod PAGE_SIZE) = r"
    by (simp_all add: q_def r_def PAGE_SIZE_def unat_mod)
  have le: "unat ptr \<le> 4294963200" using assms by (simp add: word_le_nat_alt)
  have up: "unat (ptr + PAGE_SIZE - ptr mod PAGE_SIZE) = 4096 * (q + 1)" if "r \<noteq> 0"
  proof -
    have "unat ptr < 4294963200" using le that by (cases "unat ptr = 4294963200") (simp_all add: r_def)
    then have "unat (ptr + PAGE_SIZE) = unat ptr + 4096"
      by (simp add: unat_word_ariths PAGE_SIZE_def)
    then show ?thesis using rm r p by (subst unat_sub) (simp_all add: word_le_nat_alt)
  qed
  have al: "paging_is_aligned ptr \<longleftrightarrow> r = 0"
    by (simp add: paging_is_aligned_def word_unat_eq_iff rm)
  have new: "unat (paging_align_address ptr) = (if r = 0 then unat ptr else 4096 * (q + 1))"
    using up by (simp add: paging_align_address_def al)
  then show "paging_is_aligned (paging_align_address ptr)" by (simp add: aligned_nat p)
  show le: "ptr \<le> paging_align_address ptr" using new p r by (simp add: word_le_nat_alt)
  then show "paging_align_address ptr - ptr < PAGE_SIZE"
    using new p r by (simp add: word_less_nat_alt unat_sub PAGE_SIZE_def)
qed


text \<open>
  \<open>tables_reserved m pa kd K\<close>: page \<open>kd\<close> holds a well-formed directory, and neither it nor its
  tables are free or hold the bitmap.
\<close>

definition tables_reserved :: "mem \<Rightarrow> page_allocator_info \<Rightarrow> u32 \<Rightarrow> (u32 \<Rightarrow> u32) \<Rightarrow> bool" where
  "tables_reserved m pa kd K \<longleftrightarrow> directory_wf m kd K \<and> num_pages pa \<le> 2 ^ 20
     \<and> kd \<notin> free_above m pa \<and> off_bitmap pa kd
     \<and> (\<forall>d < 1024. K d \<notin> free_above m pa \<and> off_bitmap pa (K d))"

lemma page_directory_create_reserved:
  assumes "num_pages pa \<le> 2 ^ 20" "1025 + spare \<le> card (free_above m pa)"
    and "\<forall>k \<in> free_above m pa. off_bitmap pa k" and "bit flags 0"
  shows "\<exists>kd K pa' m'. page_directory_create m pa flags = Ret (kd * PAGE_SIZE, pa', m')
    \<and> tables_reserved m' pa' kd K
    \<and> (\<forall>v. paging_is_aligned v \<longrightarrow> paging_get_phys_address m' (kd * PAGE_SIZE) v = v)
    \<and> free_above m' pa' \<subseteq> free_above m pa \<and> spare \<le> card (free_above m' pa')
    \<and> (\<forall>k \<in> free_above m' pa'. off_bitmap pa' k)"
proof -
  from page_directory_create_tables [OF assms(1-3), of flags] obtain kd K pa' m' where
    c: "page_directory_create m pa flags = Ret (kd * PAGE_SIZE, pa', m')"
    and P: "directory_progress (free_above m pa) spare m' pa' kd flags 1024 K" by blast
  then have I: "identity_tables m' kd flags 1024 K" "kd < 2 ^ 20" by (simp_all add: directory_progress_def)
  note W = identity_tables_wf [OF I assms(4)]
  have "tables_reserved m' pa' kd K" using W(1) P by (simp add: tables_reserved_def directory_progress_def)
  moreover have "free_above m' pa' \<subseteq> free_above m pa \<and> spare \<le> card (free_above m' pa')
    \<and> (\<forall>k \<in> free_above m' pa'. off_bitmap pa' k)" using P by (simp add: directory_progress_def)
  ultimately show ?thesis using c W(2) by blast
qed

text \<open>
  C11. With 1025 free pages and more at or after the allocator's cursor, none of them holding the
  bitmap, and the present flag among the flags, \<open>page_directory_create\<close> returns a well-formed
  directory that maps every page to itself; the directory and its tables are no longer free,
  and the pages to spare are still available.
\<close>

theorem page_directory_create_identity:
  assumes "num_pages pa \<le> 2 ^ 20" "1025 + spare \<le> card (free_above m pa)"
    and "\<forall>k \<in> free_above m pa. off_bitmap pa k" and "bit flags 0"
  shows "\<exists>kd K pa' m'. page_directory_create m pa flags = Ret (kd * PAGE_SIZE, pa', m')
    \<and> tables_reserved m' pa' kd K
    \<and> (\<forall>v. paging_is_aligned v \<longrightarrow> paging_get_phys_address m' (kd * PAGE_SIZE) v = v)
    \<and> free_above m' pa' \<subseteq> free_above m pa \<and> spare \<le> card (free_above m' pa')"
  using page_directory_create_reserved [OF assms] by blast

lemma page_directory_create_identity_witness:
  "\<exists>kd K pa' m'. page_directory_create empty_mem small_allocator 7 = Ret (kd * PAGE_SIZE, pa', m')
    \<and> directory_wf m' kd K \<and> 0x40 \<le> card (free_above m' pa')"
proof -
  have "num_pages small_allocator \<le> 2 ^ 20" "1025 + 0x40 \<le> card (free_above empty_mem small_allocator)"
    "\<forall>k \<in> free_above empty_mem small_allocator. off_bitmap small_allocator k" "bit (7 :: u8) 0"
    using small_allocator_off
    by (simp_all add: small_allocator_free card_words_below) (simp add: small_allocator_def)
  from page_directory_create_identity [OF this] show ?thesis by (auto simp: tables_reserved_def)
qed

lemma small_directory:
  obtains kd K pa m where "tables_reserved m pa kd K" "0 \<notin> free_above m pa" "0x40 \<le> card (free_above m pa)"
    "\<forall>k \<in> free_above m pa. off_bitmap pa k"
proof -
  have "num_pages small_allocator \<le> 2 ^ 20" "1025 + 0x40 \<le> card (free_above empty_mem small_allocator)"
    "\<forall>k \<in> free_above empty_mem small_allocator. off_bitmap small_allocator k" "bit (7 :: u8) 0"
    using small_allocator_off
    by (simp_all add: small_allocator_free card_words_below) (simp add: small_allocator_def)
  from page_directory_create_reserved [OF this] that small_allocator_free show ?thesis by blast
qed

lemma paging_map_to_translates_witness:
  "\<exists>m kd m'. paging_map_to m (kd * PAGE_SIZE) 0xFFFC0000 0x5000 0x7000 3 = (EOK, m')
    \<and> paging_get_phys_address m' (kd * PAGE_SIZE) 0xFFFC1000 = 0x6000"
proof -
  obtain kd K pa m where "tables_reserved m pa kd K" by (rule small_directory)
  then have wf: "directory_wf m kd K" by (simp add: tables_reserved_def)
  have "paging_is_aligned 0xFFFC0000" "paging_is_aligned 0x5000" "paging_is_aligned 0x7000" "paging_is_aligned 0xFFFC1000"
    by (simp_all add: paging_is_aligned_def PAGE_SIZE_def)
  with paging_map_to_translates [OF wf this(1-3), of 3]
  have "\<exists>m'. paging_map_to m (kd * PAGE_SIZE) 0xFFFC0000 0x5000 0x7000 3 = (EOK, m')
    \<and> paging_get_phys_address m' (kd * PAGE_SIZE) 0xFFFC1000 = 0x6000" by auto
  then show ?thesis by blast
qed

end
