(* ===== verification/Kernel_Heap.thy ===== *)
theory Kernel_Heap
  imports Paging
begin

text \<open>
  \<^verbatim>\<open>kernel/src/sys/heap.c\<close>: the kernel heap, a doubly linked list of chunks in memory. Each chunk
  is a 16-byte header (\<^verbatim>\<open>memory_chunk_t\<close>) followed by its payload. \<open>heap_wf\<close> relates the bytes
  of the heap to a list of blocks (size of the payload, allocated or not); \<open>allocate\<close> is shown to
  refine first fit on that list and \<open>kfree\<close> to refine marking a block free and merging it with
  its free neighbours. The locale \<open>allocator\<close> states what the callers of the heap rely on.
  \<^verbatim>\<open>strdup\<close> and \<^verbatim>\<open>strndup\<close> of \<^verbatim>\<open>string.c\<close>, which allocate, are modelled here.
\<close>

section \<open>Chunks\<close>

record heap_allocator =
  virtual_address :: addr
  heap_size :: u32

definition sizeof_memory_chunk :: u32 where "sizeof_memory_chunk = 16"

definition chunk_next :: "mem \<Rightarrow> addr \<Rightarrow> addr" where "chunk_next m c = load32 m c"
definition chunk_prev :: "mem \<Rightarrow> addr \<Rightarrow> addr" where "chunk_prev m c = load32 m (c + 4)"
definition chunk_size :: "mem \<Rightarrow> addr \<Rightarrow> u32" where "chunk_size m c = load32 m (c + 8)"
definition chunk_allocated :: "mem \<Rightarrow> addr \<Rightarrow> bool" where "chunk_allocated m c \<longleftrightarrow> m (c + 12) \<noteq> 0"

definition set_next :: "addr \<Rightarrow> addr \<Rightarrow> mem \<Rightarrow> mem" where "set_next c v m = store32 m c v"
definition set_prev :: "addr \<Rightarrow> addr \<Rightarrow> mem \<Rightarrow> mem" where "set_prev c v m = store32 m (c + 4) v"
definition set_size :: "addr \<Rightarrow> u32 \<Rightarrow> mem \<Rightarrow> mem" where "set_size c v m = store32 m (c + 8) v"
definition set_allocated :: "addr \<Rightarrow> bool \<Rightarrow> mem \<Rightarrow> mem" where
  "set_allocated c v m = m(c + 12 := if v then 1 else 0)"

section \<open>Allocation\<close>

text \<open>The search loop of \<^verbatim>\<open>allocate\<close>; on a cyclic chunk list it would not return.\<close>

partial_function (option) find_chunk :: "mem \<Rightarrow> addr \<Rightarrow> u32 \<Rightarrow> addr option" where
  "find_chunk m chunk sz =
     (if chunk = NULL then Some NULL
      else if sz < chunk_size m chunk \<and> \<not> chunk_allocated m chunk then Some chunk
      else find_chunk m (chunk_next m chunk) sz)"

definition split_chunk :: "mem \<Rightarrow> addr \<Rightarrow> u32 \<Rightarrow> mem" where
  "split_chunk m result sz =
     (let new_chunk = result + sizeof_memory_chunk + sz;
          m = set_allocated new_chunk False m;
          m = set_size new_chunk (chunk_size m result - sz - sizeof_memory_chunk) m;
          m = set_prev new_chunk result m;
          m = set_next new_chunk (chunk_next m result) m;
          m = (if chunk_next m new_chunk \<noteq> NULL then set_prev (chunk_next m new_chunk) new_chunk m else m);
          m = set_size result sz m
      in set_next result new_chunk m)"

text \<open>The outcome of a request that does not fit into the heap.\<close>

abbreviation no_memory :: "'a run" where
  "no_memory \<equiv> Some (Panic ''out of kernel heap memory'')"

definition allocate :: "mem \<Rightarrow> heap_allocator \<Rightarrow> u32 \<Rightarrow> (addr \<times> mem) run" where
  "allocate m h sz =
     rbind (map_option Ret (find_chunk m (virtual_address h) sz)) (\<lambda>result.
       if result = NULL then Some (Panic ''out of kernel heap memory'')
       else
         let m = (if sz + sizeof_memory_chunk + 1 \<le> chunk_size m result
                  then split_chunk m result sz else m);
             m = set_allocated result True m
         in Some (Ret (result + sizeof_memory_chunk, m)))"

definition kmalloc :: "mem \<Rightarrow> heap_allocator \<Rightarrow> u32 \<Rightarrow> (addr \<times> mem) run" where
  "kmalloc m h sz =
     rbind (allocate m h sz) (\<lambda>(result, m').
       if result = NULL then Some (Ret (NULL, m'))
       else Some (Ret (result, memset m' result 0 sz)))"

definition kmalloc_aligned :: "mem \<Rightarrow> heap_allocator \<Rightarrow> u32 \<Rightarrow> u32 \<Rightarrow> (addr \<times> mem) run" where
  "kmalloc_aligned m h alignment sz =
     rbind (allocate m h (sz + alignment)) (\<lambda>(result, m').
       if result = NULL then Some (Ret (NULL, m'))
       else if alignment = 0 then Some Fault
       else let result = result + (alignment - result mod alignment)
            in Some (Ret (result, memset m' result 0 sz)))"

definition kcalloc :: "mem \<Rightarrow> heap_allocator \<Rightarrow> u32 \<Rightarrow> u32 \<Rightarrow> (addr \<times> mem) run" where
  "kcalloc m h num element_size =
     (let sz = num * element_size in
      rbind (allocate m h sz) (\<lambda>(result, m').
        if result = NULL then Some (Ret (NULL, m'))
        else Some (Ret (result, memset m' result 0 sz))))"

section \<open>Release\<close>

definition merge_prev :: "mem \<Rightarrow> addr \<Rightarrow> addr \<times> mem" where
  "merge_prev m chunk =
     (if chunk_prev m chunk \<noteq> NULL \<and> \<not> chunk_allocated m (chunk_prev m chunk) then
        let m = set_next (chunk_prev m chunk) (chunk_next m chunk) m;
            m = set_size (chunk_prev m chunk)
                  (chunk_size m (chunk_prev m chunk) + (chunk_size m chunk + sizeof_memory_chunk)) m;
            m = (if chunk_next m chunk \<noteq> NULL
                 then set_prev (chunk_next m chunk) (chunk_prev m chunk) m else m)
        in (chunk_prev m chunk, m)
      else (chunk, m))"

definition merge_next :: "mem \<Rightarrow> addr \<Rightarrow> mem" where
  "merge_next m chunk =
     (if chunk_next m chunk \<noteq> NULL \<and> \<not> chunk_allocated m (chunk_next m chunk) then
        let m = set_size chunk
                  (chunk_size m chunk + (chunk_size m (chunk_next m chunk) + sizeof_memory_chunk)) m;
            m = set_next chunk (chunk_next m (chunk_next m chunk)) m
        in (if chunk_next m chunk \<noteq> NULL then set_prev (chunk_next m chunk) chunk m else m)
      else m)"

definition kfree :: "mem \<Rightarrow> addr \<Rightarrow> mem" where
  "kfree m ptr =
     (let chunk = ptr - sizeof_memory_chunk;
          m = set_allocated chunk False m;
          (chunk, m) = merge_prev m chunk
      in merge_next m chunk)"

definition krealloc :: "mem \<Rightarrow> heap_allocator \<Rightarrow> addr \<Rightarrow> u32 \<Rightarrow> (addr \<times> mem) run" where
  "krealloc m h ptr sz =
     rbind (allocate m h sz) (\<lambda>(result, m').
       if result = NULL then Some (Ret (NULL, m'))
       else Some (Ret (result, kfree (memcpy m' result ptr sz) ptr)))"

section \<open>Header fields\<close>

lemmas field_defs = chunk_next_def chunk_prev_def chunk_size_def chunk_allocated_def
  set_next_def set_prev_def set_size_def set_allocated_def

definition apart :: "addr \<Rightarrow> addr \<Rightarrow> bool" where
  "apart c d \<longleftrightarrow> disjoint_regions c 16 d 16"

lemma apart_sym: "apart c d \<longleftrightarrow> apart d c"
  by (auto simp: apart_def disjoint_regions_def)

lemma in_field:
  assumes "unat k + n \<le> 2 ^ 32"
  shows "in_region (c + k) n a \<longleftrightarrow> unat k \<le> unat (a - c) \<and> unat (a - c) < unat k + n"
proof -
  have "in_region (c + k) n a \<longleftrightarrow> in_region k n (a - c)" by (simp add: in_region_def diff_diff_eq)
  with in_region_nat [OF assms] show ?thesis by simp
qed

lemma in_field_chunk:
  "in_region c 4 a \<Longrightarrow> in_region c 16 a" "in_region (c + 4) 4 a \<Longrightarrow> in_region c 16 a"
  "in_region (c + 8) 4 a \<Longrightarrow> in_region c 16 a" "in_region c 16 (c + 12)"
  by (simp_all add: in_field) (simp_all add: in_region_def)

lemma fields_disjoint:
  "disjoint_regions c 4 (c + 4) 4" "disjoint_regions c 4 (c + 8) 4" "disjoint_regions (c + 4) 4 (c + 8) 4"
  "disjoint_regions (c + 4) 4 c 4" "disjoint_regions (c + 8) 4 c 4" "disjoint_regions (c + 8) 4 (c + 4) 4"
  "\<not> in_region c 4 (c + 12)" "\<not> in_region (c + 4) 4 (c + 12)" "\<not> in_region (c + 8) 4 (c + 12)"
  by (auto simp: disjoint_regions_def in_field) (auto simp: in_region_def)

lemma field_same_chunk [mem_simps]:
  "chunk_next (set_next c v m) c = v" "chunk_next (set_prev c v m) c = chunk_next m c"
  "chunk_next (set_size c w m) c = chunk_next m c" "chunk_next (set_allocated c b m) c = chunk_next m c"
  "chunk_prev (set_next c v m) c = chunk_prev m c" "chunk_prev (set_prev c v m) c = v"
  "chunk_prev (set_size c w m) c = chunk_prev m c" "chunk_prev (set_allocated c b m) c = chunk_prev m c"
  "chunk_size (set_next c v m) c = chunk_size m c" "chunk_size (set_prev c v m) c = chunk_size m c"
  "chunk_size (set_size c w m) c = w" "chunk_size (set_allocated c b m) c = chunk_size m c"
  "chunk_allocated (set_next c v m) c = chunk_allocated m c"
  "chunk_allocated (set_prev c v m) c = chunk_allocated m c"
  "chunk_allocated (set_size c w m) c = chunk_allocated m c" "chunk_allocated (set_allocated c b m) c = b"
  by (simp_all add: field_defs load32_store32_other load32_upd_other store32_outside fields_disjoint)

lemma set_same_outside:
  "same_outside c 16 m (set_next c v m)" "same_outside c 16 m (set_prev c v m)"
  "same_outside c 16 m (set_size c w m)" "same_outside c 16 m (set_allocated c b m)"
  unfolding field_defs
  by (rule same_outside_mono [OF store32_same_outside], erule in_field_chunk)+
    (rule same_outside_upd, rule in_field_chunk)

lemma header_cong:
  assumes "\<And>a. in_region c 16 a \<Longrightarrow> m' a = m a"
  shows "chunk_next m' c = chunk_next m c" "chunk_prev m' c = chunk_prev m c"
    "chunk_size m' c = chunk_size m c" "chunk_allocated m' c = chunk_allocated m c"
  using assms in_field_chunk by (auto simp: field_defs intro!: load32_cong)

lemma header_apart:
  assumes "same_outside c 16 m m'" "apart c d"
  shows "chunk_next m' d = chunk_next m d" "chunk_prev m' d = chunk_prev m d"
    "chunk_size m' d = chunk_size m d" "chunk_allocated m' d = chunk_allocated m d"
  using assms by (auto simp: apart_def disjoint_regions_def same_outside_def intro!: header_cong)

lemmas field_other_chunk [mem_simps] =
  header_apart [OF set_same_outside(1)] header_apart [OF set_same_outside(2)]
  header_apart [OF set_same_outside(3)] header_apart [OF set_same_outside(4)]

section \<open>The heap as a list of blocks\<close>

text \<open>
  A block is the size of its payload and whether it is allocated. \<open>chunks m prev p bs stop\<close>: from
  address \<open>p\<close> on, the memory holds the headers of the blocks \<open>bs\<close>, one after the other, linked in
  both directions, the first with predecessor \<open>prev\<close> and the last with successor \<open>stop\<close>.
\<close>

type_synonym block = "nat \<times> bool"

fun span :: "block list \<Rightarrow> nat" where
  "span [] = 0"
| "span ((s, al) # bs) = 16 + s + span bs"

fun chunks :: "mem \<Rightarrow> addr \<Rightarrow> nat \<Rightarrow> block list \<Rightarrow> addr \<Rightarrow> bool" where
  "chunks m prev p [] stop \<longleftrightarrow> True"
| "chunks m prev p ((s, al) # bs) stop \<longleftrightarrow>
     chunk_next m (of_nat p) = (if bs = [] then stop else of_nat (p + 16 + s))
     \<and> chunk_prev m (of_nat p) = prev \<and> chunk_size m (of_nat p) = of_nat s
     \<and> chunk_allocated m (of_nat p) = al
     \<and> chunks m (of_nat p) (p + 16 + s) bs stop"

fun last_chunk :: "addr \<Rightarrow> nat \<Rightarrow> block list \<Rightarrow> addr" where
  "last_chunk prev p [] = prev"
| "last_chunk prev p ((s, al) # bs) = last_chunk (of_nat p) (p + 16 + s) bs"

fun header_bytes :: "nat \<Rightarrow> block list \<Rightarrow> nat set" where
  "header_bytes p [] = {}"
| "header_bytes p ((s, al) # bs) = {p ..< p + 16} \<union> header_bytes (p + 16 + s) bs"

definition heap_wf :: "mem \<Rightarrow> nat \<Rightarrow> block list \<Rightarrow> bool" where
  "heap_wf m b bs \<longleftrightarrow> bs \<noteq> [] \<and> 0 < b \<and> b + span bs \<le> 2 ^ 32 \<and> chunks m NULL b bs NULL"

lemma span_append [simp]: "span (xs @ ys) = span xs + span ys"
  by (induction xs rule: span.induct) auto

lemma last_chunk_append: "last_chunk prev p (xs @ ys) = last_chunk (last_chunk prev p xs) (p + span xs) ys"
  by (induction prev p xs rule: last_chunk.induct) (auto simp: add.assoc)

lemma header_bytes_append [simp]:
  "header_bytes p (xs @ ys) = header_bytes p xs \<union> header_bytes (p + span xs) ys"
  by (induction p xs rule: header_bytes.induct) (auto simp: add.assoc)

lemma chunks_append:
  "chunks m prev p (xs @ ys) stop \<longleftrightarrow>
     chunks m prev p xs (if ys = [] then stop else of_nat (p + span xs))
     \<and> chunks m (last_chunk prev p xs) (p + span xs) ys stop"
  by (induction m prev p xs stop rule: chunks.induct) (auto simp: add.assoc)

lemma in_region_of_nat:
  "p + n \<le> 2 ^ 32 \<Longrightarrow> 0 < n \<Longrightarrow> in_region (of_nat p) n a \<longleftrightarrow> p \<le> unat a \<and> unat a < p + n"
  by (subst in_region_nat) (simp_all add: unat_of_nat32)

lemma apart_nat:
  "p + 16 \<le> q \<or> q + 16 \<le> p \<Longrightarrow> p + 16 \<le> 2 ^ 32 \<Longrightarrow> q + 16 \<le> 2 ^ 32 \<Longrightarrow> apart (of_nat p) (of_nat q)"
  by (auto simp: apart_def disjoint_regions_def in_region_of_nat)

lemma chunks_cong:
  "(\<And>a. unat a \<in> header_bytes p bs \<Longrightarrow> m' a = m a) \<Longrightarrow> p + span bs \<le> 2 ^ 32 \<Longrightarrow>
   chunks m' prev p bs stop = chunks m prev p bs stop"
proof (induction m prev p bs stop rule: chunks.induct)
  case (2 m prev p s al bs stop)
  have "m' a = m a" if "in_region (of_nat p) 16 a" for a
    using that "2.prems" by (simp add: in_region_of_nat)
  note header_cong [OF this]
  moreover have "chunks m' (of_nat p) (p + 16 + s) bs stop = chunks m (of_nat p) (p + 16 + s) bs stop"
    using "2.prems" by (intro "2.IH") auto
  ultimately show ?case by simp
qed simp

lemma of_nat_not_NULL: "0 < r \<Longrightarrow> r < 2 ^ 32 \<Longrightarrow> (of_nat r :: addr) \<noteq> NULL"
  by (simp add: NULL_def word_unat_eq_iff unat_of_nat32)

lemma header_bytes_range: "x \<in> header_bytes p bs \<Longrightarrow> p \<le> x \<and> x < p + span bs"
  by (induction p bs rule: header_bytes.induct) auto

text \<open>Giving the first chunk of a run another predecessor.\<close>

lemma chunks_repoint:
  assumes "chunks m prev p ys stop" "p + span ys \<le> 2 ^ 32"
    and "ys \<noteq> [] \<Longrightarrow> chunk_prev m' (of_nat p) = prev'"
    and "ys \<noteq> [] \<Longrightarrow> chunk_next m' (of_nat p) = chunk_next m (of_nat p)"
    and "ys \<noteq> [] \<Longrightarrow> chunk_size m' (of_nat p) = chunk_size m (of_nat p)"
    and "ys \<noteq> [] \<Longrightarrow> chunk_allocated m' (of_nat p) = chunk_allocated m (of_nat p)"
    and "\<And>a. p + 16 \<le> unat a \<Longrightarrow> unat a < p + span ys \<Longrightarrow> m' a = m a"
  shows "chunks m' prev' p ys stop"
proof (cases ys)
  case (Cons y ys')
  obtain s al where y: "y = (s, al)" by (cases y)
  have "chunks m' (of_nat p) (p + 16 + s) ys' stop = chunks m (of_nat p) (p + 16 + s) ys' stop"
    using assms(2,7) Cons y by (intro chunks_cong) (auto dest: header_bytes_range)
  with assms Cons y show ?thesis by simp
qed simp

section \<open>First fit on blocks\<close>

definition fits :: "nat \<Rightarrow> block \<Rightarrow> bool" where
  "fits n blk \<longleftrightarrow> \<not> snd blk \<and> n < fst blk"

definition split_block :: "nat \<Rightarrow> nat \<Rightarrow> block list" where
  "split_block n s = (if n + 17 \<le> s then [(n, True), (s - n - 16, False)] else [(s, True)])"

text \<open>The offset of the payload in the heap, and the blocks afterwards.\<close>

fun alloc_blocks :: "nat \<Rightarrow> block list \<Rightarrow> (nat \<times> block list) option" where
  "alloc_blocks n [] = None"
| "alloc_blocks n ((s, al) # bs) =
     (if fits n (s, al) then Some (16, split_block n s @ bs)
      else map_option (\<lambda>(off, bs'). (16 + s + off, (s, al) # bs')) (alloc_blocks n bs))"

lemma alloc_blocks_None: "alloc_blocks n bs = None \<longleftrightarrow> (\<forall>blk \<in> set bs. \<not> fits n blk)"
  by (induction n bs rule: alloc_blocks.induct) auto

lemma alloc_blocks_SomeE:
  assumes "alloc_blocks n bs = Some (off, bs')"
  obtains xs s ys where "bs = xs @ (s, False) # ys" "\<forall>blk \<in> set xs. \<not> fits n blk" "n < s"
    "off = span xs + 16" "bs' = xs @ split_block n s @ ys"
  using assms
proof (induction n bs arbitrary: off bs' thesis rule: alloc_blocks.induct)
  case (2 n s al bs)
  show ?case
  proof (cases "fits n (s, al)")
    case True
    with "2.prems"(1) [of "[]" s bs] "2.prems"(2) show ?thesis by (auto simp: fits_def)
  next
    case False
    with "2.prems"(2) obtain off1 bs1 where o: "alloc_blocks n bs = Some (off1, bs1)"
      "off = 16 + s + off1" "bs' = (s, al) # bs1" by auto
    from "2.IH" [OF False _ o(1)] obtain xs s1 ys where "bs = xs @ (s1, False) # ys"
      "\<forall>blk \<in> set xs. \<not> fits n blk" "n < s1" "off1 = span xs + 16" "bs1 = xs @ split_block n s1 @ ys" by blast
    with False o(2,3) show ?thesis by (intro "2.prems"(1) [of "(s, al) # xs" s1 ys]) auto
  qed
qed simp

section \<open>\<open>allocate\<close> refines first fit\<close>

lemma find_chunk_none:
  "chunks m prev p bs NULL \<Longrightarrow> \<forall>blk \<in> set bs. \<not> fits (unat n) blk \<Longrightarrow> 0 < p \<Longrightarrow> p + span bs \<le> 2 ^ 32 \<Longrightarrow>
   find_chunk m (if bs = [] then NULL else of_nat p) n = Some NULL"
proof (induction m prev p bs "NULL" rule: chunks.induct)
  case (1 m prev p)
  then show ?case by (simp add: find_chunk.simps)
next
  case (2 m prev p s al bs)
  have "(of_nat p :: addr) \<noteq> NULL" "unat (of_nat s :: u32) = s"
    using "2.prems" by (simp_all add: NULL_def word_unat_eq_iff unat_of_nat32)
  with 2 show ?case
    by (auto simp: find_chunk.simps [of m "of_nat p"] fits_def word_less_nat_alt)
qed

lemma find_chunk_some:
  "chunks m prev p (xs @ (s, False) # ys) NULL \<Longrightarrow> \<forall>blk \<in> set xs. \<not> fits (unat n) blk \<Longrightarrow> unat n < s \<Longrightarrow>
   0 < p \<Longrightarrow> p + span (xs @ (s, False) # ys) \<le> 2 ^ 32 \<Longrightarrow>
   find_chunk m (of_nat p) n = Some (of_nat (p + span xs))"
proof (induction xs arbitrary: prev p)
  case Nil
  then have "(of_nat p :: addr) \<noteq> NULL" "unat (of_nat s :: u32) = s"
    by (simp_all add: NULL_def word_unat_eq_iff unat_of_nat32)
  with Nil show ?case by (simp add: find_chunk.simps [of m "of_nat p"] word_less_nat_alt)
next
  case (Cons x xs)
  obtain s' al where x: "x = (s', al)" by (cases x)
  have "(of_nat p :: addr) \<noteq> NULL" "unat (of_nat s' :: u32) = s'"
    using Cons.prems x by (simp_all add: NULL_def word_unat_eq_iff unat_of_nat32)
  with Cons.prems x have "find_chunk m (of_nat p) n = find_chunk m (of_nat (p + 16 + s')) n"
    by (auto simp: find_chunk.simps [of m "of_nat p"] fits_def word_less_nat_alt)
  also have "\<dots> = Some (of_nat (p + 16 + s' + span xs))"
    using Cons.prems x by (intro Cons.IH) auto
  finally show ?case by (simp add: x add.assoc)
qed


lemma header_outside:
  "\<not> in_region c 16 a \<Longrightarrow> set_next c v m a = m a" "\<not> in_region c 16 a \<Longrightarrow> set_prev c v m a = m a"
  "\<not> in_region c 16 a \<Longrightarrow> set_size c w m a = m a" "\<not> in_region c 16 a \<Longrightarrow> set_allocated c b m a = m a"
  using set_same_outside [of c m] by (simp_all add: same_outside_def)

lemma split_chunk_headers:
  assumes "new = c + sizeof_memory_chunk + n" "apart c new"
    and "chunk_next m c \<noteq> NULL \<Longrightarrow> apart c (chunk_next m c) \<and> apart new (chunk_next m c)"
  shows "chunk_next (split_chunk m c n) c = new" "chunk_prev (split_chunk m c n) c = chunk_prev m c"
    "chunk_size (split_chunk m c n) c = n"
    "chunk_next (split_chunk m c n) new = chunk_next m c" "chunk_prev (split_chunk m c n) new = c"
    "chunk_size (split_chunk m c n) new = chunk_size m c - n - sizeof_memory_chunk"
    "\<not> chunk_allocated (split_chunk m c n) new"
    "chunk_next m c \<noteq> NULL \<Longrightarrow> chunk_prev (split_chunk m c n) (chunk_next m c) = new"
    "chunk_next m c \<noteq> NULL \<Longrightarrow> chunk_next (split_chunk m c n) (chunk_next m c) = chunk_next m (chunk_next m c)"
    "chunk_next m c \<noteq> NULL \<Longrightarrow> chunk_size (split_chunk m c n) (chunk_next m c) = chunk_size m (chunk_next m c)"
    "chunk_next m c \<noteq> NULL \<Longrightarrow> chunk_allocated (split_chunk m c n) (chunk_next m c) = chunk_allocated m (chunk_next m c)"
  using assms(2,3) unfolding split_chunk_def Let_def assms(1) [symmetric]
  by (cases "chunk_next m c = NULL"; simp add: mem_simps apart_sym [of new c] apart_sym [of "chunk_next m c"])+

lemma split_chunk_outside:
  assumes "new = c + sizeof_memory_chunk + n" "apart c new"
    and "\<not> in_region c 16 a" "\<not> in_region new 16 a" "chunk_next m c \<noteq> NULL \<Longrightarrow> \<not> in_region (chunk_next m c) 16 a"
  shows "split_chunk m c n a = m a"
  using assms(2-) unfolding split_chunk_def Let_def assms(1) [symmetric]
  by (simp add: mem_simps header_outside apart_sym [of new c])


text \<open>Splitting the free block between \<open>xs\<close> and \<open>ys\<close>, and marking it allocated.\<close>

text \<open>
  The geometry of a split: \<open>p\<close> is the block, \<open>q\<close> the header of the new free block, \<open>r\<close> the block after it.
\<close>

lemma split_layout:
  assumes wf: "heap_wf m b (xs @ (s, False) # ys)" and n: "unat n + 17 \<le> s"
    and pqr: "p = b + span xs" "q = p + 16 + unat n" "r = p + 16 + s"
  defines "c \<equiv> of_nat p :: addr"
  shows "0 < b" "r + span ys \<le> 2 ^ 32" "q + 16 < r" "p + 16 \<le> q"
    and "chunks m NULL b xs c" "chunks m c r ys NULL"
    and "chunk_next m c = (if ys = [] then NULL else of_nat r)" "chunk_prev m c = last_chunk NULL b xs" "chunk_size m c = of_nat s"
    and "of_nat q = c + sizeof_memory_chunk + n" "apart c (of_nat q)"
    and "ys \<noteq> [] \<Longrightarrow> r + 16 \<le> 2 ^ 32 \<and> (of_nat r :: addr) \<noteq> NULL \<and> apart c (of_nat r) \<and> apart (of_nat q) (of_nat r)"
proof -
  show "of_nat q = c + sizeof_memory_chunk + n" by (simp add: c_def pqr sizeof_memory_chunk_def)
  show g: "0 < b" "r + span ys \<le> 2 ^ 32" "q + 16 < r" "p + 16 \<le> q"
    using wf n by (auto simp: heap_wf_def pqr)
  show "chunks m NULL b xs c" "chunks m c r ys NULL"
    "chunk_next m c = (if ys = [] then NULL else of_nat r)" "chunk_prev m c = last_chunk NULL b xs" "chunk_size m c = of_nat s"
    using wf by (auto simp: heap_wf_def chunks_append c_def pqr add.assoc)
  show "apart c (of_nat q)" using g unfolding c_def by (auto intro!: apart_nat)
  assume "ys \<noteq> []"
  then have "r + 16 \<le> 2 ^ 32" using g(2) by (cases ys) (auto simp: split_paired_all)
  moreover from this have "(of_nat r :: addr) \<noteq> NULL" using g by (intro of_nat_not_NULL) simp_all
  ultimately show "r + 16 \<le> 2 ^ 32 \<and> (of_nat r :: addr) \<noteq> NULL \<and> apart c (of_nat r) \<and> apart (of_nat q) (of_nat r)"
    using g unfolding c_def by (auto intro!: apart_nat)
qed

lemma split_allocated_frame:
  assumes wf: "heap_wf m b (xs @ (s, False) # ys)" and n: "unat n + 17 \<le> s"
    and pqr: "p = b + span xs" "q = p + 16 + unat n" "r = p + 16 + s"
    and a: "\<not> (p \<le> unat a \<and> unat a < p + 16)" "\<not> (q \<le> unat a \<and> unat a < q + 16)"
      "ys \<noteq> [] \<Longrightarrow> \<not> (r \<le> unat a \<and> unat a < r + 16)"
  shows "set_allocated (of_nat p) True (split_chunk m (of_nat p) n) a = m a"
proof -
  note G = split_layout [OF wf n pqr]
  have "\<not> in_region (of_nat p) 16 a" "\<not> in_region (of_nat q) 16 a"
    using a G(2-4) by (simp_all add: in_region_of_nat)
  moreover have "chunk_next m (of_nat p) \<noteq> NULL \<Longrightarrow> \<not> in_region (chunk_next m (of_nat p)) 16 a"
    using a(3) G(12) by (auto simp: G(7) in_region_of_nat split: if_splits)
  ultimately show ?thesis using split_chunk_outside [OF G(10,11)] by (simp add: header_outside)
qed

lemma split_allocated_chunks:
  assumes wf: "heap_wf m b (xs @ (s, False) # ys)" and n: "unat n + 17 \<le> s"
  defines "c \<equiv> of_nat (b + span xs) :: addr"
  defines "m' \<equiv> set_allocated c True (split_chunk m c n)"
  shows "heap_wf m' b (xs @ (unat n, True) # (s - unat n - 16, False) # ys)"
    and "unat a \<notin> header_bytes b (xs @ (unat n, True) # (s - unat n - 16, False) # ys) \<Longrightarrow> m' a = m a"
proof -
  define p q r where p: "p = b + span xs" and q: "q = p + 16 + unat n" and r: "r = p + 16 + s"
  have c: "c = of_nat p" by (simp add: c_def p)
  note G = split_layout [OF wf n p q r, folded c]
  note outside = split_allocated_frame [OF wf n p q r, folded c, folded m'_def]
  have "chunk_next m c \<noteq> NULL \<Longrightarrow> apart c (chunk_next m c) \<and> apart (of_nat q) (chunk_next m c)"
    using G(12) by (auto simp: G(7) split: if_splits)
  note hdr = split_chunk_headers [OF G(10,11) this]
  have steps: "p + (16 + unat n) = q" "q + (16 + (s - unat n - 16)) = r" using n by (simp_all add: q r)
  show "heap_wf m' b (xs @ (unat n, True) # (s - unat n - 16, False) # ys)"
    unfolding heap_wf_def chunks_append
  proof (intro conjI)
    have "chunks m' NULL b xs c = chunks m NULL b xs c"
      using G(1-4) by (intro chunks_cong outside) (auto simp: p r dest: header_bytes_range)
    then show "chunks m' NULL b xs (if (unat n, True) # (s - unat n - 16, False) # ys = [] then NULL else of_nat (b + span xs))"
      using G(5) by (simp add: c_def)
    have "chunks m' (of_nat q) r ys NULL"
    proof (rule chunks_repoint [OF G(6,2)])
      show "m' a = m a" if "r + 16 \<le> unat a" for a using that G(3,4) by (intro outside) auto
    qed (use hdr G(12) in \<open>auto simp: m'_def G(7) mem_simps\<close>)
    moreover have "(of_nat (s - unat n - 16) :: u32) = of_nat s - n - sizeof_memory_chunk"
      using n by (simp add: sizeof_memory_chunk_def of_nat_diff)
    ultimately show "chunks m' (last_chunk NULL b xs) (b + span xs)
        ((unat n, True) # (s - unat n - 16, False) # ys) NULL"
      using hdr G(7-11) steps by (simp add: p [symmetric] c [symmetric] m'_def mem_simps add.assoc)
  qed (use wf n G(1) in \<open>auto simp: heap_wf_def\<close>)
  assume "unat a \<notin> header_bytes b (xs @ (unat n, True) # (s - unat n - 16, False) # ys)"
  then have *: "unat a \<notin> {p..<p + 16} \<union> {q..<q + 16} \<union> header_bytes r ys"
    using steps by (simp add: p [symmetric] add.assoc)
  then show "m' a = m a" by (intro outside) (auto simp: neq_Nil_conv split_paired_all)
qed


text \<open>Without a split only the \<^verbatim>\<open>allocated\<close> byte changes.\<close>

lemma set_allocated_chunks:
  fixes al' :: bool
  assumes wf: "heap_wf m b (xs @ (s, al) # ys)"
  defines "c \<equiv> of_nat (b + span xs) :: addr"
  defines "m' \<equiv> set_allocated c al' m"
  shows "heap_wf m' b (xs @ (s, al') # ys)"
    and "unat a \<notin> header_bytes b (xs @ (s, al') # ys) \<Longrightarrow> m' a = m a"
proof -
  define p where "p = b + span xs"
  have c: "c = of_nat p" by (simp add: c_def p_def)
  have bound: "0 < b" "p + 16 + s + span ys \<le> 2 ^ 32"
    using wf by (auto simp: heap_wf_def p_def)
  have outside: "m' a = m a" if "\<not> (p \<le> unat a \<and> unat a < p + 16)" for a
    using that bound(2) by (simp add: m'_def header_outside c in_region_of_nat)
  have xs: "chunks m' NULL b xs c = chunks m NULL b xs c"
    using bound by (intro chunks_cong outside) (auto simp: p_def dest: header_bytes_range)
  have ys: "chunks m' c (p + 16 + s) ys NULL = chunks m c (p + 16 + s) ys NULL"
    using bound by (intro chunks_cong outside) (auto dest: header_bytes_range)
  have here: "chunk_next m c = (if ys = [] then NULL else of_nat (p + 16 + s))"
    "chunk_prev m c = last_chunk NULL b xs" "chunk_size m c = of_nat s"
    "chunks m NULL b xs c" "chunks m c (p + 16 + s) ys NULL"
    using wf by (simp_all add: heap_wf_def chunks_append p_def c_def add.assoc)
  have "chunks m' NULL b xs c" "chunks m' (last_chunk NULL b xs) p ((s, al') # ys) NULL"
    using xs ys here by (simp_all add: c [symmetric] m'_def mem_simps)
  with wf show "heap_wf m' b (xs @ (s, al') # ys)"
    by (simp add: heap_wf_def chunks_append p_def [symmetric] c [symmetric])
  show "m' a = m a" if "unat a \<notin> header_bytes b (xs @ (s, al') # ys)"
    using that by (intro outside) (simp add: p_def [symmetric])
qed

lemma allocate_first_fit:
  assumes wf: "heap_wf m (unat (virtual_address h)) bs"
  shows "case alloc_blocks (unat n) bs of
      None \<Rightarrow> allocate m h n = Some (Panic ''out of kernel heap memory'')
    | Some (off, bs') \<Rightarrow> \<exists>m'. allocate m h n = Some (Ret (virtual_address h + of_nat off, m'))
        \<and> heap_wf m' (unat (virtual_address h)) bs'
        \<and> (\<forall>a. unat a \<notin> header_bytes (unat (virtual_address h)) bs' \<longrightarrow> m' a = m a)"
proof (cases "alloc_blocks (unat n) bs")
  case None
  then have "find_chunk m (virtual_address h) n = Some NULL"
    using wf find_chunk_none [of m NULL "unat (virtual_address h)" bs n]
    by (simp add: heap_wf_def alloc_blocks_None)
  with None show ?thesis by (simp add: allocate_def)
next
  case (Some r)
  obtain off bs' where r: "r = (off, bs')" by (cases r)
  define b where "b = unat (virtual_address h)"
  from Some r obtain xs s ys where bs: "bs = xs @ (s, False) # ys" and none: "\<forall>blk \<in> set xs. \<not> fits (unat n) blk"
    and n: "unat n < s" and off: "off = span xs + 16" "bs' = xs @ split_block (unat n) s @ ys"
    by (auto elim: alloc_blocks_SomeE)
  have va: "virtual_address h = of_nat b" by (simp add: b_def)
  have wf': "heap_wf m b (xs @ (s, False) # ys)" using wf bs by (simp add: b_def)
  then have bound: "0 < b" "b + span xs + 16 + s \<le> 2 ^ 32" and ch: "chunks m NULL b (xs @ (s, False) # ys) NULL"
    by (auto simp: heap_wf_def)
  let ?c = "of_nat (b + span xs) :: addr"
  have found: "find_chunk m (virtual_address h) n = Some ?c"
    unfolding va using ch none n wf' by (intro find_chunk_some) (auto simp: heap_wf_def)
  have c: "?c \<noteq> NULL" using bound by (intro of_nat_not_NULL) auto
  have "chunk_size m ?c = of_nat s" using ch by (simp add: chunks_append)
  moreover have "unat (n + sizeof_memory_chunk + 1) = unat n + 17"
    using n bound by (simp add: sizeof_memory_chunk_def unat_word_ariths)
  moreover have "unat (of_nat s :: u32) = s" using bound by (simp add: unat_of_nat32)
  ultimately have test: "n + sizeof_memory_chunk + 1 \<le> chunk_size m ?c \<longleftrightarrow> unat n + 17 \<le> s"
    by (simp add: word_le_nat_alt)
  let ?m' = "set_allocated ?c True (if unat n + 17 \<le> s then split_chunk m ?c n else m)"
  have "?c + sizeof_memory_chunk = virtual_address h + of_nat off"
    by (simp add: va off sizeof_memory_chunk_def)
  with found c test have "allocate m h n = Some (Ret (virtual_address h + of_nat off, ?m'))"
    by (simp add: allocate_def)
  moreover have "heap_wf ?m' b bs' \<and> (\<forall>a. unat a \<notin> header_bytes b bs' \<longrightarrow> ?m' a = m a)"
  proof (cases "unat n + 17 \<le> s")
    case True
    have "bs' = xs @ (unat n, True) # (s - unat n - 16, False) # ys"
      using True by (simp add: off split_block_def)
    with True split_allocated_chunks [OF wf' True] show ?thesis by (simp only: if_True) blast
  next
    case False
    have "bs' = xs @ (s, True) # ys" using False by (simp add: off split_block_def)
    with False set_allocated_chunks [OF wf', where al' = True] show ?thesis
      by (simp only: if_False) blast
  qed
  ultimately show ?thesis using Some r by (auto simp: b_def)
qed

section \<open>\<open>kfree\<close> refines releasing a block\<close>

text \<open>Two neighbouring chunks joined into one; the memory \<open>m'\<close> differs in two headers only.\<close>

lemma join_chunks:
  assumes wf: "heap_wf m b (xs @ (s, al) # (t, al2) # ys)"
  defines "p \<equiv> b + span xs" and "r \<equiv> b + span xs + 16 + s + 16 + t"
  assumes next_p: "chunk_next m' (of_nat p) = (if ys = [] then NULL else of_nat r)"
    and size_p: "chunk_size m' (of_nat p) = of_nat (s + 16 + t)"
    and rest_p: "chunk_prev m' (of_nat p) = chunk_prev m (of_nat p)"
      "chunk_allocated m' (of_nat p) = chunk_allocated m (of_nat p)"
    and r: "ys \<noteq> [] \<Longrightarrow> chunk_prev m' (of_nat r) = of_nat p"
      "ys \<noteq> [] \<Longrightarrow> chunk_next m' (of_nat r) = chunk_next m (of_nat r)"
      "ys \<noteq> [] \<Longrightarrow> chunk_size m' (of_nat r) = chunk_size m (of_nat r)"
      "ys \<noteq> [] \<Longrightarrow> chunk_allocated m' (of_nat r) = chunk_allocated m (of_nat r)"
    and outside: "\<And>a. \<not> in_region (of_nat p) 16 a \<Longrightarrow> (ys \<noteq> [] \<Longrightarrow> \<not> in_region (of_nat r) 16 a) \<Longrightarrow> m' a = m a"
  shows "heap_wf m' b (xs @ (s + 16 + t, al) # ys)"
    and "unat a \<notin> header_bytes b (xs @ (s, al) # (t, al2) # ys) \<Longrightarrow> m' a = m a"
proof -
  have bound: "0 < b" "r + span ys \<le> 2 ^ 32" "p + 32 \<le> r" "b \<le> p"
    using wf by (auto simp: heap_wf_def p_def r_def)
  have r16: "r + 16 \<le> 2 ^ 32" if "ys \<noteq> []" using bound(2) that by (cases ys) auto
  have outside': "m' a = m a" if "\<not> (p \<le> unat a \<and> unat a < p + 16)" "ys \<noteq> [] \<Longrightarrow> \<not> (r \<le> unat a \<and> unat a < r + 16)" for a
    using that bound r16 by (intro outside) (auto simp: in_region_of_nat)
  have here: "chunks m NULL b xs (of_nat p)" "chunk_prev m (of_nat p) = last_chunk NULL b xs"
    "chunk_allocated m (of_nat p) = al" and ys: "chunks m (of_nat (p + 16 + s)) r ys NULL"
    using wf by (simp_all add: heap_wf_def chunks_append p_def r_def add.assoc)
  have "chunks m' NULL b xs (of_nat p) = chunks m NULL b xs (of_nat p)"
    using bound by (intro chunks_cong outside') (auto simp: p_def dest: header_bytes_range)
  moreover have "chunks m' (of_nat p) r ys NULL"
    using bound by (intro chunks_repoint [OF ys] r outside') auto
  moreover have "p + 16 + (s + 16 + t) = r" by (simp add: p_def r_def)
  ultimately have "chunks m' NULL b (xs @ (s + 16 + t, al) # ys) NULL"
    using here next_p size_p rest_p unfolding chunks_append p_def [symmetric] by simp
  with bound show "heap_wf m' b (xs @ (s + 16 + t, al) # ys)" by (simp add: heap_wf_def p_def r_def)
  show "m' a = m a" if "unat a \<notin> header_bytes b (xs @ (s, al) # (t, al2) # ys)"
  proof (rule outside')
    from that have *: "unat a \<notin> {p..<p + 16} \<union> header_bytes r ys" by (simp add: p_def r_def add.assoc)
    then show "\<not> (p \<le> unat a \<and> unat a < p + 16)" by simp
    show "\<not> (r \<le> unat a \<and> unat a < r + 16)" if "ys \<noteq> []" using * that by (cases ys) auto
  qed
qed

text \<open>The header facts of three neighbouring chunks in a well-formed heap.\<close>

lemma heap_wf_pair:
  assumes wf: "heap_wf m b (xs @ (s, al) # (t, al2) # ys)"
  defines "p \<equiv> of_nat (b + span xs) :: addr" and "q \<equiv> of_nat (b + span xs + 16 + s) :: addr"
    and "r \<equiv> of_nat (b + span xs + 16 + s + 16 + t) :: addr"
  shows "chunk_next m p = q" "chunk_size m p = of_nat s" "chunk_allocated m p = al"
    "chunk_next m q = (if ys = [] then NULL else r)" "chunk_prev m q = p" "chunk_size m q = of_nat t"
    "chunk_allocated m q = al2" "p \<noteq> NULL" "q \<noteq> NULL" "apart p q"
    "ys \<noteq> [] \<Longrightarrow> r \<noteq> NULL" "ys \<noteq> [] \<Longrightarrow> apart p r" "ys \<noteq> [] \<Longrightarrow> apart q r"
proof -
  have bound: "0 < b" "b + span xs + 16 + s + 16 + t + span ys \<le> 2 ^ 32"
    using wf by (auto simp: heap_wf_def)
  have r16: "b + span xs + 16 + s + 16 + t + 16 \<le> 2 ^ 32" if "ys \<noteq> []"
    using bound(2) that by (cases ys) auto
  show "p \<noteq> NULL" "q \<noteq> NULL" unfolding p_def q_def using bound by (intro of_nat_not_NULL; simp)+
  show "ys \<noteq> [] \<Longrightarrow> r \<noteq> NULL" unfolding r_def using r16 bound by (intro of_nat_not_NULL) simp_all
  show "apart p q" unfolding p_def q_def using bound by (intro apart_nat) simp_all
  show "ys \<noteq> [] \<Longrightarrow> apart p r" unfolding p_def r_def using r16 bound by (intro apart_nat) simp_all
  show "ys \<noteq> [] \<Longrightarrow> apart q r" unfolding q_def r_def using r16 bound by (intro apart_nat) simp_all
qed (use wf in \<open>simp_all add: heap_wf_def chunks_append p_def q_def r_def add.assoc\<close>)

fun merge_head :: "nat \<Rightarrow> block list \<Rightarrow> block list" where
  "merge_head s ((t, False) # ys) = (s + 16 + t, False) # ys"
| "merge_head s ys = (s, False) # ys"

lemma merge_next_chunks:
  assumes wf: "heap_wf m b (xs @ (s, False) # ys)"
  defines "c \<equiv> of_nat (b + span xs) :: addr"
  shows "heap_wf (merge_next m c) b (xs @ merge_head s ys)"
    and "unat a \<notin> header_bytes b (xs @ (s, False) # ys) \<Longrightarrow> merge_next m c a = m a"
proof -
  have "heap_wf (merge_next m c) b (xs @ merge_head s ys) \<and>
    (unat a \<notin> header_bytes b (xs @ (s, False) # ys) \<longrightarrow> merge_next m c a = m a)"
  proof (cases "\<exists>t ys'. ys = (t, False) # ys'")
    case True
    then obtain t ys' where ys: "ys = (t, False) # ys'" by blast
    note wf' = wf [unfolded ys]
    note facts = heap_wf_pair [OF wf', folded c_def]
    let ?q = "of_nat (b + span xs + 16 + s) :: addr"
    let ?r = "of_nat (b + span xs + 16 + s + 16 + t) :: addr"
    have sym: "apart ?q c" "ys' \<noteq> [] \<Longrightarrow> apart ?r c" using facts by (simp_all add: apart_sym)
    have m': "merge_next m c = (let m1 = set_next c (if ys' = [] then NULL else ?r)
          (set_size c (of_nat s + (of_nat t + sizeof_memory_chunk)) m)
        in if ys' = [] then m1 else set_prev ?r c m1)"
      unfolding merge_next_def Let_def using facts by (simp add: mem_simps)
    show ?thesis unfolding ys merge_head.simps
      using join_chunks [OF wf', folded c_def, of "merge_next m c"] facts sym
      by (cases "ys' = []") (simp_all add: m' Let_def mem_simps sizeof_memory_chunk_def header_outside)
  next
    case False
    then have "merge_head s ys = (s, False) # ys"
      by (metis merge_head.elims prod.collapse)
    moreover have "merge_next m c = m"
    proof (cases ys)
      case Nil
      with wf show ?thesis by (simp add: merge_next_def heap_wf_def chunks_append c_def)
    next
      case (Cons y ys')
      with False obtain t where "ys = (t, True) # ys'" by (cases y) auto
      with heap_wf_pair(1,7) [of m b xs s False t True ys'] wf show ?thesis
        by (simp add: merge_next_def c_def)
    qed
    ultimately show ?thesis using wf by simp
  qed
  then show "heap_wf (merge_next m c) b (xs @ merge_head s ys)"
    and "unat a \<notin> header_bytes b (xs @ (s, False) # ys) \<Longrightarrow> merge_next m c a = m a" by blast+
qed


lemma merge_prev_chunks:
  assumes wf: "heap_wf m b (xs @ (s, False) # (t, al) # ys)"
  shows "heap_wf (snd (merge_prev m (of_nat (b + span xs + 16 + s)))) b (xs @ (s + 16 + t, False) # ys)"
    and "fst (merge_prev m (of_nat (b + span xs + 16 + s))) = of_nat (b + span xs)"
    and "unat a \<notin> header_bytes b (xs @ (s, False) # (t, al) # ys) \<Longrightarrow>
      snd (merge_prev m (of_nat (b + span xs + 16 + s))) a = m a"
proof -
  let ?p = "of_nat (b + span xs) :: addr"
  let ?q = "of_nat (b + span xs + 16 + s) :: addr"
  let ?r = "of_nat (b + span xs + 16 + s + 16 + t) :: addr"
  note facts = heap_wf_pair [OF wf]
  have sym: "apart ?q ?p" "ys \<noteq> [] \<Longrightarrow> apart ?r ?p" "ys \<noteq> [] \<Longrightarrow> apart ?r ?q" using facts by (simp_all add: apart_sym)
  define m' where "m' = (let m1 = set_size ?p (of_nat s + (of_nat t + sizeof_memory_chunk))
          (set_next ?p (if ys = [] then NULL else ?r) m)
        in if ys = [] then m1 else set_prev ?r ?p m1)"
  have m': "merge_prev m ?q = (?p, m')"
  proof (cases "ys = []")
    case True
    then show ?thesis
      unfolding merge_prev_def Let_def m'_def using facts(1-10) sym(1) by (simp add: mem_simps)
  next
    case False
    then show ?thesis
      unfolding merge_prev_def Let_def m'_def using facts sym by (simp add: mem_simps)
  qed
  show "fst (merge_prev m ?q) = ?p" by (simp only: m' fst_conv)
  have J: "heap_wf m' b (xs @ (s + 16 + t, False) # ys) \<and>
      (\<forall>a. unat a \<notin> header_bytes b (xs @ (s, False) # (t, al) # ys) \<longrightarrow> m' a = m a)"
    using join_chunks [OF wf, of m'] facts sym
    by (cases "ys = []") (simp_all add: m'_def Let_def mem_simps sizeof_memory_chunk_def header_outside)
  then show "heap_wf (snd (merge_prev m ?q)) b (xs @ (s + 16 + t, False) # ys)"
    "unat a \<notin> header_bytes b (xs @ (s, False) # (t, al) # ys) \<Longrightarrow> snd (merge_prev m ?q) a = m a"
    unfolding m' snd_conv by blast+
qed

text \<open>No two neighbouring blocks are free: what \<open>kfree\<close> maintains and relies on.\<close>

fun no_free_pair :: "block list \<Rightarrow> bool" where
  "no_free_pair [] \<longleftrightarrow> True"
| "no_free_pair (blk # bs) \<longleftrightarrow> (bs = [] \<or> snd blk \<or> snd (hd bs)) \<and> no_free_pair bs"

text \<open>The allocated payloads: address and size.\<close>

fun live :: "nat \<Rightarrow> block list \<Rightarrow> (nat \<times> nat) set" where
  "live p [] = {}"
| "live p ((s, al) # bs) = (if al then {(p + 16, s)} else {}) \<union> live (p + 16 + s) bs"

fun mark_free :: "nat \<Rightarrow> block list \<Rightarrow> block list" where
  "mark_free off [] = []"
| "mark_free off ((s, al) # bs) =
     (if off = 16 then (s, False) # bs else (s, al) # mark_free (off - 16 - s) bs)"

fun coalesce :: "block list \<Rightarrow> block list" where
  "coalesce ((s, False) # (t, False) # bs) = coalesce ((s + 16 + t, False) # bs)"
| "coalesce (blk # bs) = blk # coalesce bs"
| "coalesce [] = []"

definition free_block :: "nat \<Rightarrow> block list \<Rightarrow> block list" where
  "free_block off bs = coalesce (mark_free off bs)"

lemma live_append [simp]: "live p (xs @ ys) = live p xs \<union> live (p + span xs) ys"
  by (induction p xs rule: live.induct) (auto simp: add.assoc)

lemma live_at:
  assumes "(a, k) \<in> live p bs"
  obtains xs ys where "bs = xs @ (k, True) # ys" "a = p + span xs + 16"
  using assms
proof (induction p bs arbitrary: thesis rule: live.induct)
  case (2 p s al bs)
  show ?case
  proof (cases "(a, k) \<in> live (p + 16 + s) bs")
    case True
    from "2.IH" [OF _ True] obtain xs ys where "bs = xs @ (k, True) # ys" "a = p + 16 + s + span xs + 16" by blast
    then show ?thesis by (intro "2.prems"(1) [of "(s, al) # xs" ys]) auto
  next
    case False
    with "2.prems"(2) have "al" "a = p + 16" "k = s" by (auto split: if_splits)
    then show ?thesis by (intro "2.prems"(1) [of "[]" bs]) auto
  qed
qed simp

lemma mark_free_at: "mark_free (span xs + 16) (xs @ (s, al) # ys) = xs @ (s, False) # ys"
  by (induction xs rule: span.induct) (auto simp: add.commute [of 16])

lemma no_free_pair_append:
  "no_free_pair (xs @ y # ys) \<longleftrightarrow> no_free_pair (xs @ [y]) \<and> no_free_pair (y # ys)"
  by (induction xs) (auto simp: hd_append)

lemma coalesce_id: "no_free_pair bs \<Longrightarrow> coalesce bs = bs"
  by (induction bs rule: coalesce.induct) auto

lemma coalesce_merge_head: "no_free_pair ys \<Longrightarrow> coalesce ((s, False) # ys) = merge_head s ys"
proof (cases "ys \<noteq> [] \<and> \<not> snd (hd ys)")
  case True
  moreover assume "no_free_pair ys"
  ultimately obtain t ys' where ys: "ys = (t, False) # ys'" "ys' = [] \<or> snd (hd ys')" "no_free_pair ys'"
    by (cases ys) auto
  then have "no_free_pair ((s + 16 + t, False) # ys')" by simp
  then show ?thesis by (simp add: ys(1) coalesce_id)
next
  case False
  moreover assume "no_free_pair ys"
  ultimately show ?thesis by (cases ys) (auto simp: coalesce_id)
qed

lemma live_range: "(a, k) \<in> live p bs \<Longrightarrow> p + 16 \<le> a \<and> a + k \<le> p + span bs"
  by (induction p bs rule: live.induct) (auto split: if_splits)

lemma coalesce_append:
  "no_free_pair xs \<Longrightarrow> xs = [] \<or> snd (last xs) \<Longrightarrow> coalesce (xs @ zs) = xs @ coalesce zs"
  by (induction xs rule: coalesce.induct) (auto split: if_splits)

lemma live_merge_head: "live p (merge_head s ys) = live (p + 16 + s) ys"
  by (cases "(s, ys)" rule: merge_head.cases) (auto simp: add.assoc)

lemma no_free_pair_merge_head: "no_free_pair ys \<Longrightarrow> no_free_pair (merge_head s ys)"
  by (cases "(s, ys)" rule: merge_head.cases) (auto simp: no_free_pair.simps)

lemma no_free_pair_glue:
  "no_free_pair xs \<Longrightarrow> no_free_pair ys \<Longrightarrow> xs = [] \<or> snd (last xs) \<Longrightarrow> no_free_pair (xs @ ys)"
  by (induction xs) (auto simp: hd_append)

lemma no_free_pair_split: "no_free_pair (xs @ ys) \<Longrightarrow> no_free_pair xs \<and> no_free_pair ys"
  by (induction xs) (auto simp: hd_append split: if_splits)

lemma no_free_pair_snoc: "no_free_pair (xs @ [(s, False)]) \<Longrightarrow> xs = [] \<or> snd (last xs)"
  by (induction xs) (auto simp: hd_append split: if_splits)

text \<open>Merging backwards: either nothing happens, or the free block before joins.\<close>

lemma merge_prev_cases:
  assumes wf: "heap_wf m b (xs @ (s, False) # ys)" and nf: "no_free_pair xs"
  obtains xs' s' where
    "heap_wf (snd (merge_prev m (of_nat (b + span xs)))) b (xs' @ (s', False) # ys)"
    "fst (merge_prev m (of_nat (b + span xs))) = of_nat (b + span xs')"
    "\<And>a. unat a \<notin> header_bytes b (xs @ (s, False) # ys) \<Longrightarrow> snd (merge_prev m (of_nat (b + span xs))) a = m a"
    "no_free_pair xs'" "xs' = [] \<or> snd (last xs')"
    "\<And>zs. coalesce (xs @ (s, False) # zs) = xs' @ coalesce ((s', False) # zs)"
    "span xs' + 16 + s' = span xs + 16 + s" "live b xs' = live b xs"
    "header_bytes b (xs' @ (s', False) # ys) \<subseteq> header_bytes b (xs @ (s, False) # ys)"
proof (cases "xs \<noteq> [] \<and> \<not> snd (last xs)")
  case True
  then obtain xs0 s0 where xs: "xs = xs0 @ [(s0, False)]"
    by (metis append_butlast_last_id prod.collapse)
  note nf0 = no_free_pair_split [OF nf [unfolded xs]] no_free_pair_snoc [OF nf [unfolded xs]]
  have wf': "heap_wf m b (xs0 @ (s0, False) # (s, False) # ys)" using wf xs by simp
  note M = merge_prev_chunks [OF wf']
  have at: "of_nat (b + span xs0 + 16 + s0) = (of_nat (b + span xs) :: addr)" by (simp add: xs add.assoc)
  show ?thesis
  proof (rule that [of xs0 "s0 + 16 + s"])
    show "coalesce (xs @ (s, False) # zs) = xs0 @ coalesce ((s0 + 16 + s, False) # zs)" for zs
      using nf0 by (simp add: xs coalesce_append)
  qed (use M nf0 in \<open>simp_all only: at, auto simp: xs add.assoc\<close>)
next
  case False
  have same: "merge_prev m (of_nat (b + span xs)) = (of_nat (b + span xs), m)"
  proof (cases "xs = []")
    case True
    with wf show ?thesis by (simp add: merge_prev_def heap_wf_def)
  next
    case ne: False
    with False obtain xs0 s0 where xs: "xs = xs0 @ [(s0, True)]"
      by (metis append_butlast_last_id prod.collapse)
    then have wf': "heap_wf m b (xs0 @ (s0, True) # (s, False) # ys)" using wf by simp
    from heap_wf_pair(3,5) [OF wf'] show ?thesis by (simp add: merge_prev_def xs add.assoc)
  qed
  show ?thesis
    by (rule that [of xs s]) (use wf nf False same coalesce_append [OF nf] in auto)
qed

lemma kfree_coalesces:
  assumes wf: "heap_wf m b bs" and nf: "no_free_pair bs" and a: "(a, k) \<in> live b bs"
  shows "heap_wf (kfree m (of_nat a)) b (free_block (a - b) bs)
    \<and> no_free_pair (free_block (a - b) bs)
    \<and> live b (free_block (a - b) bs) = live b bs - {(a, k)}
    \<and> (\<forall>x. unat x \<notin> header_bytes b bs \<longrightarrow> kfree m (of_nat a) x = m x)"
proof -
  from a obtain xs ys where bs: "bs = xs @ (k, True) # ys" and a': "a = b + span xs + 16" by (rule live_at)
  define c where "c = (of_nat (b + span xs) :: addr)"
  have chunk: "of_nat a - sizeof_memory_chunk = c" by (simp add: c_def a' sizeof_memory_chunk_def)
  define m1 where "m1 = set_allocated c False m"
  note S = set_allocated_chunks [OF wf [unfolded bs], where al' = False, folded c_def m1_def]
  have nfs: "no_free_pair xs" "no_free_pair ys"
    using no_free_pair_split [OF nf [unfolded bs]] by simp_all
  from merge_prev_cases [OF S(1) nfs(1), folded c_def] obtain xs' s' where P:
    "heap_wf (snd (merge_prev m1 c)) b (xs' @ (s', False) # ys)"
    "fst (merge_prev m1 c) = of_nat (b + span xs')"
    "\<And>x. unat x \<notin> header_bytes b (xs @ (k, False) # ys) \<Longrightarrow> snd (merge_prev m1 c) x = m1 x"
    "no_free_pair xs'" "xs' = [] \<or> snd (last xs')"
    "\<And>zs. coalesce (xs @ (k, False) # zs) = xs' @ coalesce ((s', False) # zs)"
    "span xs' + 16 + s' = span xs + 16 + k" "live b xs' = live b xs"
    "header_bytes b (xs' @ (s', False) # ys) \<subseteq> header_bytes b (xs @ (k, False) # ys)" by blast
  define m2 where "m2 = snd (merge_prev m1 c)"
  note N = merge_next_chunks [OF P(1), folded m2_def]
  have free: "free_block (a - b) bs = xs' @ merge_head s' ys"
    using mark_free_at [of xs k True ys] P(6) [of ys] coalesce_merge_head [OF nfs(2), of s']
    by (simp add: free_block_def bs a')
  have kfree: "kfree m (of_nat a) = merge_next m2 (of_nat (b + span xs'))"
    using P(2) by (simp add: kfree_def Let_def chunk m1_def [symmetric] m2_def case_prod_unfold)
  have "b + span xs' + 16 + s' = b + span xs + 16 + k" using P(7) by simp
  then have "live b (xs' @ merge_head s' ys) = live b xs \<union> live (b + span xs + 16 + k) ys"
    using P(8) by (simp only: live_append live_merge_head)
  also have "\<dots> = live b bs - {(a, k)}"
    by (auto simp: bs a' add.assoc dest: live_range)
  finally have "live b (free_block (a - b) bs) = live b bs - {(a, k)}" by (simp add: free)
  moreover have "no_free_pair (free_block (a - b) bs)"
    unfolding free by (rule no_free_pair_glue [OF P(4) no_free_pair_merge_head [OF nfs(2)] P(5)])
  moreover have "kfree m (of_nat a) x = m x" if x: "unat x \<notin> header_bytes b bs" for x
  proof -
    have h: "unat x \<notin> header_bytes b (xs @ (k, False) # ys)" using x by (simp add: bs)
    with P(9) have "unat x \<notin> header_bytes b (xs' @ (s', False) # ys)" by blast
    from N(2) [OF this] P(3) [OF h] S(2) [OF h] show ?thesis by (simp add: kfree m2_def)
  qed
  ultimately show ?thesis using N(1) by (simp add: kfree free)
qed

end
