(* ===== verification/Heap_Contract.thy ===== *)
theory Heap_Contract
  imports Kernel_Heap
begin

text \<open>
  What the callers of the kernel heap rely on. \<open>heap_inv h m L\<close> says that the heap is well-formed
  and that \<open>L\<close> is the set of its live allocations (address and size); the locale \<open>allocator\<close> states
  the contract of allocation and release over it, and is interpreted on \<open>kmalloc\<close> and \<open>kfree\<close>.
  The theory also holds \<^verbatim>\<open>strdup\<close> and \<^verbatim>\<open>strndup\<close> of \<^verbatim>\<open>string.c\<close>, clients of the heap, and
  \<^verbatim>\<open>heap_init\<close>, which sets the heap up in freshly mapped pages.
\<close>

section \<open>Live allocations\<close>

definition heap_inv :: "heap_allocator \<Rightarrow> mem \<Rightarrow> (nat \<times> nat) set \<Rightarrow> bool" where
  "heap_inv h m L \<longleftrightarrow> (\<exists>bs. heap_wf m (unat (virtual_address h)) bs \<and> no_free_pair bs
     \<and> live (unat (virtual_address h)) bs = L \<and> (\<forall>(a, k) \<in> L. a < 2 ^ 32))"

definition payload :: "nat \<times> nat \<Rightarrow> nat set" where
  "payload blk = {fst blk ..< fst blk + snd blk}"

lemma live_header_apart:
  "(a, k) \<in> live p bs \<Longrightarrow> a \<le> x \<Longrightarrow> x < a + k \<Longrightarrow> x \<notin> header_bytes p bs"
proof (induction p bs rule: live.induct)
  case (2 p s al bs)
  then show ?case
    using header_bytes_range [of x "p + 16 + s" bs] live_range [of a k "p + 16 + s" bs]
    by (auto split: if_splits)
qed simp

lemma live_apart:
  "(a, k) \<in> live p bs \<Longrightarrow> (a', k') \<in> live p bs \<Longrightarrow> (a, k) \<noteq> (a', k') \<Longrightarrow> a + k + 16 \<le> a' \<or> a' + k' + 16 \<le> a"
proof (induction p bs rule: live.induct)
  case (2 p s al bs)
  then show ?case
    using live_range [of a k "p + 16 + s" bs] live_range [of a' k' "p + 16 + s" bs]
    by (auto split: if_splits)
qed simp

lemma alloc_blocks_live:
  assumes "alloc_blocks n bs = Some (off, bs')"
  shows "span bs' = span bs" and "no_free_pair bs \<Longrightarrow> no_free_pair bs'"
    and "\<exists>k \<ge> n. live b bs' = insert (b + off, k) (live b bs) \<and> (b + off, k) \<notin> live b bs"
proof -
  from assms obtain xs s ys where d: "bs = xs @ (s, False) # ys" "n < s"
    "off = span xs + 16" "bs' = xs @ split_block n s @ ys" by (rule alloc_blocks_SomeE)
  show "span bs' = span bs" using d by (simp add: split_block_def)
  show "no_free_pair bs'" if "no_free_pair bs"
    using that unfolding d(1,4) split_block_def
    by (induction xs) (auto simp: hd_append)
  define k where "k = (if n + 17 \<le> s then n else s)"
  have "live b bs' = insert (b + off, k) (live b bs)"
    using d by (auto simp: split_block_def k_def add.assoc)
  moreover have "(b + off, k) \<notin> live b bs"
    using d by (auto dest: live_range)
  moreover have "n \<le> k" using d by (simp add: k_def)
  ultimately show "\<exists>k \<ge> n. live b bs' = insert (b + off, k) (live b bs) \<and> (b + off, k) \<notin> live b bs" by blast
qed

lemma heap_wf_cong:
  "heap_wf m b bs \<Longrightarrow> (\<And>a. unat a \<in> header_bytes b bs \<Longrightarrow> m' a = m a) \<Longrightarrow> heap_wf m' b bs"
  unfolding heap_wf_def using chunks_cong [of b bs m' m NULL NULL] by auto

lemma alloc_blocks_bound:
  assumes "alloc_blocks n bs = Some (off, bs')" "b + span bs \<le> 2 ^ 32"
  shows "b + off + n < 2 ^ 32" "16 \<le> off"
  using assms by (auto elim!: alloc_blocks_SomeE)

text \<open>Bytes inside the live allocations are the callers' own.\<close>

lemma heap_inv_write:
  assumes "heap_inv h m L" "\<And>x. m' x \<noteq> m x \<Longrightarrow> \<exists>blk \<in> L. unat x \<in> payload blk"
  shows "heap_inv h m' L"
proof -
  from assms(1) obtain bs where bs: "heap_wf m (unat (virtual_address h)) bs" "no_free_pair bs"
    "live (unat (virtual_address h)) bs = L" "\<forall>(a, k) \<in> L. a < 2 ^ 32"
    by (auto simp: heap_inv_def)
  have "m' x = m x" if "unat x \<in> header_bytes (unat (virtual_address h)) bs" for x
    using assms(2) [of x] that live_header_apart bs(3) by (fastforce simp: payload_def)
  with bs show ?thesis by (auto simp: heap_inv_def intro: heap_wf_cong)
qed

lemma heap_inv_apart:
  assumes "heap_inv h m L" "x \<in> L" "y \<in> L" "x \<noteq> y"
  shows "payload x \<inter> payload y = {}"
  using assms live_apart [of "fst x" "snd x" _ _ "fst y" "snd y"]
  by (fastforce simp: heap_inv_def payload_def prod_eq_iff)

lemma heap_inv_bound:
  assumes "heap_inv h m L" "(a, k) \<in> L"
  shows "a + k \<le> 2 ^ 32" "unat (of_nat a :: addr) = a" "a \<noteq> 0"
  using assms by (auto simp: heap_inv_def heap_wf_def unat_of_nat32 dest: live_range)

text \<open>One allocation, as its caller sees it.\<close>

lemma allocate_live:
  assumes "heap_inv h m L"
  shows "allocate m h n = no_memory \<or>
    (\<exists>p k m'. allocate m h n = Some (Ret (p, m')) \<and> p \<noteq> NULL \<and> unat n \<le> k
       \<and> heap_inv h m' (insert (unat p, k) L) \<and> (unat p, k) \<notin> L
       \<and> (\<forall>(a, j) \<in> L. \<forall>x. a \<le> unat x \<and> unat x < a + j \<longrightarrow> m' x = m x))"
proof -
  let ?b = "unat (virtual_address h)"
  from assms obtain bs where bs: "heap_wf m ?b bs" "no_free_pair bs" "live ?b bs = L" "\<forall>(a, k) \<in> L. a < 2 ^ 32"
    by (auto simp: heap_inv_def)
  show ?thesis
  proof (cases "alloc_blocks (unat n) bs")
    case None
    with allocate_first_fit [OF bs(1), of n] show ?thesis by simp
  next
    case (Some r)
    obtain off bs' where r: "alloc_blocks (unat n) bs = Some (off, bs')" using Some by (cases r) auto
    with allocate_first_fit [OF bs(1), of n] obtain m' where m':
      "allocate m h n = Some (Ret (virtual_address h + of_nat off, m'))" "heap_wf m' ?b bs'"
      "\<And>a. unat a \<notin> header_bytes ?b bs' \<Longrightarrow> m' a = m a" by auto
    from alloc_blocks_live(2) [OF r] alloc_blocks_live(3) [OF r, of ?b] obtain k where k: "unat n \<le> k"
      "live ?b bs' = insert (?b + off, k) L" "(?b + off, k) \<notin> L" "no_free_pair bs'"
      using bs(2,3) by auto
    have lt: "?b + off + unat n < 2 ^ 32" using alloc_blocks_bound [OF r, of ?b] bs(1) by (simp add: heap_wf_def)
    then have p: "unat (virtual_address h + of_nat off) = ?b + off"
      by (simp add: unat_word_ariths unat_of_nat32)
    have "virtual_address h + of_nat off \<noteq> NULL"
      using bs(1) p by (auto simp: heap_wf_def NULL_def word_unat_eq_iff)
    moreover have "heap_inv h m' (insert (?b + off, k) L)"
      using m'(2) k bs(4) lt by (auto simp: heap_inv_def)
    moreover have "m' x = m x" if "(a, j) \<in> L" "a \<le> unat x" "unat x < a + j" for a j x
      using that m'(3) live_header_apart [of a j ?b bs'] k(2) by blast
    ultimately show ?thesis using m'(1) k(1,3) p by fastforce
  qed
qed


lemma kfree_live:
  assumes "heap_inv h m L" "(a, k) \<in> L"
  shows "heap_inv h (kfree m (of_nat a)) (L - {(a, k)})"
    and "(a', j) \<in> L \<Longrightarrow> unat x \<in> payload (a', j) \<Longrightarrow> kfree m (of_nat a) x = m x"
proof -
  let ?b = "unat (virtual_address h)"
  from assms obtain bs where bs: "heap_wf m ?b bs" "no_free_pair bs" "live ?b bs = L" "\<forall>(a, k) \<in> L. a < 2 ^ 32"
    by (auto simp: heap_inv_def)
  note F = kfree_coalesces [OF bs(1,2), of a k, unfolded bs(3), OF assms(2)]
  with bs(4) show "heap_inv h (kfree m (of_nat a)) (L - {(a, k)})" by (auto simp: heap_inv_def)
  show "kfree m (of_nat a) x = m x" if "(a', j) \<in> L" "unat x \<in> payload (a', j)"
    using F that live_header_apart [of a' j ?b bs] bs(3) by (auto simp: payload_def)
qed

section \<open>The contract\<close>

text \<open>
  \<open>inv s L\<close>: state \<open>s\<close> has the live allocations \<open>L\<close>. Allocation returns a new block of at least the
  requested size, filled with zeros, or panics; it always returns or panics. Release removes
  one allocation. Neither changes the bytes of another allocation, and writing into a live
  allocation changes nothing else.
\<close>

locale allocator =
  fixes inv :: "'s \<Rightarrow> (nat \<times> nat) set \<Rightarrow> bool"
    and alloc :: "'s \<Rightarrow> u32 \<Rightarrow> (addr \<times> 's) run"
    and release :: "'s \<Rightarrow> addr \<Rightarrow> 's"
    and get :: "'s \<Rightarrow> nat \<Rightarrow> u8"
    and put :: "'s \<Rightarrow> nat \<Rightarrow> u8 \<Rightarrow> 's"
  assumes alloc_outcome: "inv s L \<Longrightarrow> alloc s n = no_memory \<or>
      (\<exists>p k s'. alloc s n = Some (Ret (p, s')) \<and> unat n \<le> k \<and> (unat p, k) \<notin> L \<and> inv s' (insert (unat p, k) L)
         \<and> (\<forall>x. unat p \<le> x \<and> x < unat p + unat n \<longrightarrow> get s' x = 0)
         \<and> (\<forall>blk \<in> L. \<forall>x \<in> payload blk. get s' x = get s x))"
    and release_inv: "inv s L \<Longrightarrow> (a, k) \<in> L \<Longrightarrow> inv (release s (of_nat a)) (L - {(a, k)})"
    and release_get: "inv s L \<Longrightarrow> (a, k) \<in> L \<Longrightarrow> blk \<in> L \<Longrightarrow> x \<in> payload blk \<Longrightarrow>
      get (release s (of_nat a)) x = get s x"
    and put_inv: "inv s L \<Longrightarrow> blk \<in> L \<Longrightarrow> x \<in> payload blk \<Longrightarrow> inv (put s x v) L"
    and put_get: "inv s L \<Longrightarrow> blk \<in> L \<Longrightarrow> x \<in> payload blk \<Longrightarrow> y < 2 ^ 32 \<Longrightarrow>
      get (put s x v) y = (if y = x then v else get s y)"
    and apart: "inv s L \<Longrightarrow> blk \<in> L \<Longrightarrow> blk' \<in> L \<Longrightarrow> blk \<noteq> blk' \<Longrightarrow> payload blk \<inter> payload blk' = {}"
    and bound: "inv s L \<Longrightarrow> (a, k) \<in> L \<Longrightarrow> a + k \<le> 2 ^ 32 \<and> unat (of_nat a :: addr) = a"
begin

text \<open>Releasing what was just allocated restores the live set and every other byte in use.\<close>

lemma alloc_release:
  assumes "inv s L" "alloc s n = Some (Ret (p, s'))"
  shows "inv (release s' p) L \<and> (\<forall>blk \<in> L. \<forall>x \<in> payload blk. get (release s' p) x = get s x)"
proof -
  from alloc_outcome [OF assms(1), of n] assms(2) obtain k where k: "(unat p, k) \<notin> L" "inv s' (insert (unat p, k) L)"
    "\<And>blk x. blk \<in> L \<Longrightarrow> x \<in> payload blk \<Longrightarrow> get s' x = get s x" by auto
  from release_inv [OF k(2), of "unat p" k] have "inv (release s' p) L" using k(1) by simp
  moreover have "get (release s' p) x = get s x" if "blk \<in> L" "x \<in> payload blk" for blk x
    using release_get [OF k(2) insertI1 insertI2 [OF that(1)] that(2)] k(3) [OF that] by simp
  ultimately show ?thesis by blast
qed

text \<open>Two allocations in a row do not overlap, and filling the second leaves the first zero.\<close>

lemma alloc_twice:
  assumes "inv s L" "alloc s n = Some (Ret (p, s1))" "alloc s1 n' = Some (Ret (q, s2))"
  shows "\<exists>k k'. unat n \<le> k \<and> unat n' \<le> k' \<and> inv s2 (insert (unat q, k') (insert (unat p, k) L))
       \<and> payload (unat p, k) \<inter> payload (unat q, k') = {}"
proof -
  from alloc_outcome [OF assms(1), of n] assms(2) obtain k where k: "unat n \<le> k" "inv s1 (insert (unat p, k) L)" by auto
  from alloc_outcome [OF k(2), of n'] assms(3) obtain k' where k': "unat n' \<le> k'"
    "(unat q, k') \<notin> insert (unat p, k) L" "inv s2 (insert (unat q, k') (insert (unat p, k) L))" by auto
  have "payload (unat p, k) \<inter> payload (unat q, k') = {}"
    using k'(2) by (intro apart [OF k'(3)]) auto
  with k(1) k'(1,3) show ?thesis by (intro exI [of _ k] exI [of _ k']) simp
qed

text \<open>
  Filling a live allocation byte by byte.\<close>

lemma fill_block:
  assumes "inv s L" "blk \<in> L" "\<And>i. i < length vs \<Longrightarrow> fst blk + i \<in> payload blk"
  shows "inv (fold (\<lambda>(i, v) s. put s (fst blk + i) v) (zip [0..<length vs] vs) s) L
    \<and> (\<forall>y < 2 ^ 32. get (fold (\<lambda>(i, v) s. put s (fst blk + i) v) (zip [0..<length vs] vs) s) y =
         (if fst blk \<le> y \<and> y < fst blk + length vs then vs ! (y - fst blk) else get s y))"
  using assms(3)
proof (induction vs rule: rev_induct)
  case (snoc v vs)
  let ?f = "\<lambda>(i, v) s. put s (fst blk + i) v"
  have IH: "inv (fold ?f (zip [0..<length vs] vs) s) L"
    "\<And>y. y < 2 ^ 32 \<Longrightarrow> get (fold ?f (zip [0..<length vs] vs) s) y =
         (if fst blk \<le> y \<and> y < fst blk + length vs then vs ! (y - fst blk) else get s y)"
    using snoc by simp_all
  have "fst blk + length vs \<in> payload blk" using snoc.prems by simp
  note put_inv [OF IH(1) assms(2) this] put_get [OF IH(1) assms(2) this]
  then show ?case using IH(2) by (auto simp: nth_append)
next
  case Nil
  with assms(1) show ?case by auto
qed

end

text \<open>A live block addressed by numbers, and what \<^verbatim>\<open>kmalloc\<close> promises.\<close>

lemma payload_word:
  assumes "heap_inv h m L" "blk \<in> L" "x \<in> payload blk"
  shows "unat (of_nat x :: addr) = x"
  using heap_inv_bound(1) [OF assms(1), of "fst blk" "snd blk"] assms(2,3)
  by (auto simp: payload_def intro!: unat_of_nat32)

lemma kmalloc_live:
  assumes inv: "heap_inv h m L" and run: "allocate m h n \<noteq> no_memory"
  obtains p k m' where "kmalloc m h n = Some (Ret (p, m'))" "unat n \<le> k" "(unat p, k) \<notin> L" "heap_inv h m' (insert (unat p, k) L)"
    "\<And>x. unat p \<le> x \<Longrightarrow> x < unat p + unat n \<Longrightarrow> m' (of_nat x) = 0"
    "\<And>blk x. blk \<in> L \<Longrightarrow> x \<in> payload blk \<Longrightarrow> m' (of_nat x) = m (of_nat x)"
proof -
  from allocate_live [OF inv, of n] run obtain p k m' where A: "allocate m h n = Some (Ret (p, m'))" "p \<noteq> NULL" "unat n \<le> k"
    "heap_inv h m' (insert (unat p, k) L)" "(unat p, k) \<notin> L"
    "\<And>a j x. (a, j) \<in> L \<Longrightarrow> a \<le> unat x \<Longrightarrow> unat x < a + j \<Longrightarrow> m' x = m x" by blast
  let ?m2 = "memset m' p 0 n"
  have p: "unat p + unat n \<le> 2 ^ 32" using heap_inv_bound(1) [OF A(4), of "unat p" k] A(3) by simp
  have set: "?m2 x = (if unat p \<le> unat x \<and> unat x < unat p + unat n then 0 else m' x)" for x
    using in_region_nat [OF p, of x] by (simp add: memset_eq in_region_word)
  have inv2: "heap_inv h ?m2 (insert (unat p, k) L)"
    using A(3) by (intro heap_inv_write [OF A(4)]) (auto simp: set payload_def split: if_splits)
  have zero: "?m2 (of_nat x) = 0" if "unat p \<le> x" "x < unat p + unat n" for x
    using that p by (simp add: set unat_of_nat32)
  have frame: "?m2 (of_nat x) = m (of_nat x)" if blk: "blk \<in> L" "x \<in> payload blk" for blk x
  proof -
    have "payload blk \<inter> payload (unat p, k) = {}"
      using A(5) blk(1) by (intro heap_inv_apart [OF A(4)]) auto
    with blk(2) A(3) have "\<not> (unat p \<le> x \<and> x < unat p + unat n)" by (auto simp: payload_def)
    with A(6) [of "fst blk" "snd blk" "of_nat x"] blk payload_word [OF inv blk] show ?thesis by (auto simp: set payload_def)
  qed
  have "kmalloc m h n = Some (Ret (p, ?m2))" using A(1,2) by (simp add: kmalloc_def)
  then show thesis using A(3,5) inv2 zero frame by (rule that)
qed

interpretation heap: allocator "heap_inv h" "\<lambda>m n. kmalloc m h n" kfree "\<lambda>m x. m (of_nat x)" "\<lambda>m x v. m(of_nat x := v)" for h
proof
  fix m L n assume inv: "heap_inv h m L"
  show "kmalloc m h n = no_memory \<or>
      (\<exists>p k m'. kmalloc m h n = Some (Ret (p, m')) \<and> unat n \<le> k \<and> (unat p, k) \<notin> L \<and> heap_inv h m' (insert (unat p, k) L)
         \<and> (\<forall>x. unat p \<le> x \<and> x < unat p + unat n \<longrightarrow> m' (of_nat x) = 0)
         \<and> (\<forall>blk \<in> L. \<forall>x \<in> payload blk. m' (of_nat x) = m (of_nat x)))"
  proof (cases "allocate m h n = no_memory")
    case True
    then show ?thesis by (simp add: kmalloc_def)
  next
    case False
    then show ?thesis by (rule kmalloc_live [OF inv]) blast
  qed
next
  fix m L a k assume "heap_inv h m L" "(a, k) \<in> L"
  then show "heap_inv h (kfree m (of_nat a)) (L - {(a, k)})" by (rule kfree_live)
next
  fix m L a k blk x assume inv: "heap_inv h m L" and L: "(a, k) \<in> L" "blk \<in> L" and x: "x \<in> payload blk"
  with kfree_live(2) [OF inv L(1), of "fst blk" "snd blk" "of_nat x"] payload_word [OF inv L(2) x]
  show "kfree m (of_nat a) (of_nat x) = m (of_nat x)" by simp
next
  fix m L blk x v assume inv: "heap_inv h m L" and L: "blk \<in> L" and x: "x \<in> payload blk"
  note n = payload_word [OF inv L x]
  show "heap_inv h (m(of_nat x := v)) L"
    using inv n L x by (auto intro!: heap_inv_write [OF inv] split: if_splits)
  show "(m(of_nat x := v)) (of_nat y) = (if y = x then v else m (of_nat y))" if "y < 2 ^ 32" for y
    using that n unat_of_nat32 [OF that] by (auto simp: word_unat_eq_iff)
qed (auto dest: heap_inv_apart heap_inv_bound)

section \<open>The contract on the model\<close>

text \<open>
  C1. On a well-formed heap with the live allocations \<open>L\<close>, \<open>kmalloc\<close> either panics, or returns a new
  zeroed block of at least the size asked for, apart from all others, whose bytes stay as they were.
\<close>
theorem kmalloc_contract:
  assumes "heap_inv h m L"
  shows "kmalloc m h n = no_memory \<or>
      (\<exists>p k m'. kmalloc m h n = Some (Ret (p, m')) \<and> unat n \<le> k \<and> (unat p, k) \<notin> L
         \<and> heap_inv h m' (insert (unat p, k) L)
         \<and> (\<forall>x. unat p \<le> x \<and> x < unat p + unat n \<longrightarrow> m' (of_nat x) = 0)
         \<and> (\<forall>blk \<in> L. \<forall>x \<in> payload blk. m' (of_nat x) = m (of_nat x)))"
  by (rule heap.alloc_outcome [OF assms])

text \<open>
  C2. Freeing what \<open>kmalloc\<close> returned restores the live allocations, and leaves their bytes as they were.
\<close>

theorem kmalloc_kfree_restores:
  assumes "heap_inv h m L" and "kmalloc m h n = Some (Ret (p, m'))"
  shows "heap_inv h (kfree m' p) L \<and> (\<forall>blk \<in> L. \<forall>x \<in> payload blk. kfree m' p (of_nat x) = m (of_nat x))"
  by (rule heap.alloc_release [OF assms])

text \<open>\<^verbatim>\<open>kcalloc\<close> multiplies in 32 bits: \<open>0x10000\<close> elements of \<open>0x10000\<close> bytes are a request for none.\<close>

lemma kcalloc_kmalloc: "kcalloc m h num es = kmalloc m h (num * es)"
  by (simp add: kcalloc_def kmalloc_def Let_def)

lemma kcalloc_wraps: "kcalloc m h 0x10000 0x10000 = kmalloc m h 0"
proof -
  have "0x10000 * 0x10000 = (0 :: u32)" by (simp add: word_unat_eq_iff)
  then show ?thesis by (simp only: kcalloc_kmalloc)
qed

section \<open>Reallocation\<close>

text \<open>A copy whose source starts outside the destination: the part of the source before the
  destination arrives unchanged, even where the copy reads further.\<close>

lemma memcpy_loop_outside:
  "\<not> a - dest < n \<Longrightarrow> memcpy_loop m dest src n i a = m a"
proof (induction m dest src n i rule: memcpy_loop.induct)
  case (1 m dest src n i)
  show ?case
  proof (cases "i < n")
    case True
    have "memcpy_loop m dest src n i a = memcpy_loop (m(dest + i := m (src + i))) dest src n (i + 1) a"
      using True by (simp add: memcpy_loop.simps [of m dest])
    also note "1.IH" [OF True "1.prems"]
    finally show ?thesis using "1.prems" True by auto
  qed (simp add: memcpy_loop.simps [of m])
qed

lemma memcpy_prefix:
  assumes "\<And>j. j < k \<Longrightarrow> \<not> src + j - dest < n" "j < k" "j < n"
  shows "memcpy m dest src n (dest + j) = m (src + j)"
proof -
  have "memcpy_loop m dest src n i (dest + j) = (if i \<le> j then m (src + j) else m (dest + j))" for m i
    using assms
  proof (induction m dest src n i rule: memcpy_loop.induct)
    case (1 m dest src n i)
    show ?case
    proof (cases "i < n")
      case True
      have "memcpy_loop m dest src n i (dest + j) = memcpy_loop (m(dest + i := m (src + i))) dest src n (i + 1) (dest + j)"
        using True by (simp add: memcpy_loop.simps [of m dest])
      also note "1.IH" [OF True "1.prems"]
      moreover have "src + j \<noteq> dest + i" using "1.prems"(1) [OF "1.prems"(2)] True by auto
      ultimately show ?thesis using word_step_le [OF True, of j] by auto
    next
      case False
      with "1.prems"(3) have "\<not> i \<le> j" by auto
      with False show ?thesis by (simp add: memcpy_loop.simps [of m dest])
    qed
  qed
  then show ?thesis by (simp add: memcpy_def)
qed


text \<open>
  A copy from one live block to another: as many bytes arrive as the source has and the loop copies,
  whatever the loop reads beyond the source.
\<close>

lemma memcpy_live:
  assumes inv: "heap_inv h m L" and new: "(unat p, k') \<in> L" "unat n \<le> k'"
  shows "unat x \<notin> payload (unat p, k') \<Longrightarrow> memcpy m p src n x = m x" and "heap_inv h (memcpy m p src n) L"
    and "(unat src, k) \<in> L \<Longrightarrow> (unat src, k) \<noteq> (unat p, k') \<Longrightarrow> i < unat n \<Longrightarrow> i < k \<Longrightarrow>
      memcpy m p src n (p + of_nat i) = m (src + of_nat i)"
proof -
  have b: "unat p + unat n \<le> 2 ^ 32" using heap_inv_bound(1) [OF inv new(1)] new(2) by simp
  have inside: "x - p < n \<longleftrightarrow> unat p \<le> unat x \<and> unat x < unat p + unat n" for x
    using in_region_nat [OF b, of x] by (simp add: in_region_word)
  show out: "unat x \<notin> payload (unat p, k') \<Longrightarrow> memcpy m p src n x = m x" for x
    using memcpy_loop_outside [of x p n] inside [of x] new(2) by (auto simp: memcpy_def payload_def)
  show "heap_inv h (memcpy m p src n) L" using new(1) out by (intro heap_inv_write [OF inv]) blast
  assume src: "(unat src, k) \<in> L" "(unat src, k) \<noteq> (unat p, k')" and i: "i < unat n" "i < k"
  have i32: "i < 2 ^ 32" using i(1) less_trans [OF _ unat_u32_lt] by simp
  have k': "unat (of_nat (Suc i) :: u32) = Suc i"
    using le_less_trans [OF Suc_leI [OF i(1)] unat_u32_lt] by (intro unat_of_nat32) simp
  have "\<not> src + j - p < n" if "j < of_nat (Suc i)" for j
  proof -
    have j: "unat j < k" using that i k' by (simp add: word_less_nat_alt)
    then have "unat (src + j) = unat src + unat j"
      using heap_inv_bound(1) [OF inv src(1)] by (simp add: unat_word_ariths)
    then show ?thesis using j heap_inv_apart [OF inv src(1) new(1) src(2)] new(2) by (fastforce simp: inside payload_def)
  qed
  then show "memcpy m p src n (p + of_nat i) = m (src + of_nat i)"
    using k' i i32 by (intro memcpy_prefix [of "of_nat (Suc i)"]) (simp_all add: word_less_nat_alt unat_of_nat32)
qed

text \<open>
  C5. \<^verbatim>\<open>krealloc\<close> moves the allocation: the new block begins with the old contents (as far as both
  blocks reach), the old block is released, every other allocation is untouched.
\<close>

theorem krealloc_moves:
  assumes inv: "heap_inv h m L" and old: "(unat ptr, k) \<in> L"
    and ret: "krealloc m h ptr n = Some (Ret (p, m'))"
  shows "\<exists>k' \<ge> unat n. heap_inv h m' (insert (unat p, k') (L - {(unat ptr, k)}))
    \<and> (\<forall>i. i < unat n \<and> i < k \<longrightarrow> m' (p + of_nat i) = m (ptr + of_nat i))
    \<and> (\<forall>blk \<in> L - {(unat ptr, k)}. \<forall>x. unat x \<in> payload blk \<longrightarrow> m' x = m x)"
proof -
  let ?old = "(unat ptr, k)"
  have "allocate m h n \<noteq> no_memory" using ret by (auto simp: krealloc_def)
  with allocate_live [OF inv, of n] obtain q k' m1 where A: "allocate m h n = Some (Ret (q, m1))"
    "q \<noteq> NULL" "unat n \<le> k'" "heap_inv h m1 (insert (unat q, k') L)" "(unat q, k') \<notin> L"
    "\<And>a j x. (a, j) \<in> L \<Longrightarrow> a \<le> unat x \<Longrightarrow> unat x < a + j \<Longrightarrow> m1 x = m x" by blast
  let ?new = "(unat p, k')" and ?m2 = "memcpy m1 p ptr n"
  have p: "q = p" and m': "m' = kfree ?m2 ptr" using ret A(1,2) by (auto simp: krealloc_def)
  have L: "?old \<in> insert ?new L" "?old \<noteq> ?new" using old A(5) p by auto
  note inv1 = A(4) [unfolded p]
  note C = memcpy_live [OF inv1 insertI1 A(3), where src = ptr]
  note F = kfree_live [OF C(2) L(1), simplified, folded m']
  have "heap_inv h m' (insert ?new (L - {?old}))" using F(1) L(2) by (auto simp: insert_Diff_if split: if_splits)
  moreover have "m' (p + of_nat i) = m (ptr + of_nat i)" if i: "i < unat n" "i < k" for i
  proof -
    have at: "unat (ptr + of_nat i) = unat ptr + i" "unat (p + of_nat i) = unat p + i"
      using heap_inv_bound(1) [OF inv old] heap_inv_bound(1) [OF inv1 insertI1] A(3) i
      by (simp_all add: unat_word_ariths unat_of_nat32)
    have "m' (p + of_nat i) = ?m2 (p + of_nat i)"
      using F(2) [of "unat p" k' "p + of_nat i"] L(2) at(2) i A(3) by (simp add: payload_def)
    also have "\<dots> = m1 (ptr + of_nat i)" using C(3) [OF L i] .
    also have "\<dots> = m (ptr + of_nat i)" using A(6) [OF old] at(1) i by simp
    finally show ?thesis .
  qed
  moreover have "m' x = m x" if blk: "blk \<in> L - {?old}" "unat x \<in> payload blk" for blk x
  proof -
    have "payload blk \<inter> payload ?new = {}" using blk(1) A(5) p by (intro heap_inv_apart [OF inv1]) auto
    then have "?m2 x = m1 x" using blk(2) by (intro C(1)) auto
    then show ?thesis
      using F(2) [of "fst blk" "snd blk" x] A(6) [of "fst blk" "snd blk" x] blk by (auto simp: payload_def)
  qed
  ultimately show ?thesis using A(3) by blast
qed

section \<open>Duplicating strings\<close>

definition strdup :: "mem \<Rightarrow> heap_allocator \<Rightarrow> addr \<Rightarrow> (addr \<times> mem) run" where
  "strdup m h src =
     rbind (map_option Ret (strlen m src)) (\<lambda>src_size.
     rbind (kmalloc m h (src_size + 1)) (\<lambda>(dup, m').
       if dup = NULL then Some (Ret (NULL, m'))
       else rbind (map_option Ret (copy_string m' dup src)) (\<lambda>(m'', dup_offset).
              Some (Ret (dup, m''(dup_offset := 0))))))"

definition strndup :: "mem \<Rightarrow> heap_allocator \<Rightarrow> addr \<Rightarrow> u32 \<Rightarrow> (addr \<times> mem) run" where
  "strndup m h src n =
     rbind (map_option Ret (strlen m src)) (\<lambda>len.
       let src_size = (if n < len then n else len) in
       rbind (kmalloc m h (src_size + 1)) (\<lambda>(dup, m').
         if dup = NULL then Some (Ret (NULL, m'))
         else Some (Ret (dup, (memcpy_loop m' dup src src_size 0)(dup + src_size := 0)))))"

lemma kmalloc_not_NULL:
  assumes "heap_inv h m L" "kmalloc m h n = Some (Ret (p, m'))"
  shows "p \<noteq> NULL"
proof -
  from heap.alloc_outcome [OF assms(1), of n] assms(2) obtain k where "heap_inv h m' (insert (unat p, k) L)"
    by auto
  from heap_inv_bound(3) [OF this, of "unat p" k] show ?thesis by (auto simp: NULL_def)
qed

text \<open>What lies below the heap is not touched by an allocation.\<close>

lemma kmalloc_below:
  assumes inv: "heap_inv h m L" and run: "kmalloc m h n = Some (Ret (p, m'))" and a: "unat a < unat (virtual_address h)"
  shows "m' a = m a"
proof -
  let ?b = "unat (virtual_address h)"
  from inv obtain bs where wf: "heap_wf m ?b bs" by (auto simp: heap_inv_def)
  from run have "alloc_blocks (unat n) bs \<noteq> None"
    using allocate_first_fit [OF wf, of n] by (intro notI) (simp add: kmalloc_def)
  then obtain off bs' where r: "alloc_blocks (unat n) bs = Some (off, bs')" by auto
  with allocate_first_fit [OF wf, of n] obtain m1 where m1:
    "allocate m h n = Some (Ret (virtual_address h + of_nat off, m1))" "\<And>a. unat a \<notin> header_bytes ?b bs' \<Longrightarrow> m1 a = m a"
    by auto
  have bound: "?b + off + unat n < 2 ^ 32" using alloc_blocks_bound [OF r, of ?b] wf by (simp add: heap_wf_def)
  then have p: "unat (virtual_address h + of_nat off) = ?b + off" by (simp add: unat_word_ariths unat_of_nat32)
  have "m1 a = m a" using a header_bytes_range [of "unat a" ?b bs'] by (intro m1(2)) auto
  moreover have "\<not> a - (virtual_address h + of_nat off) < n"
    using a bound p in_region_nat [of "virtual_address h + of_nat off" "unat n" a] by (auto simp: in_region_word)
  ultimately show ?thesis using run m1(1) by (auto simp: kmalloc_def memset_eq split: if_splits)
qed

text \<open>
  \<open>fresh_string h m L cs (p, m')\<close>: the string \<open>cs\<close> is at \<open>p\<close> in a new allocation of \<open>m'\<close>, and the
  allocations of \<open>m\<close> and the memory below the heap are as they were.
\<close>

definition fresh_string :: "heap_allocator \<Rightarrow> mem \<Rightarrow> (nat \<times> nat) set \<Rightarrow> u8 list \<Rightarrow> addr \<times> mem \<Rightarrow> bool" where
  "fresh_string h m L cs = (\<lambda>(p, m'). p \<noteq> NULL \<and> cstr m' p cs
     \<and> (\<exists>k. length cs < k \<and> heap_inv h m' (insert (unat p, k) L) \<and> (unat p, k) \<notin> L)
     \<and> (\<forall>b \<in> L. \<forall>x. unat x \<in> payload b \<longrightarrow> m' x = m x)
     \<and> (\<forall>x. unat x < unat (virtual_address h) \<longrightarrow> m' x = m x))"

lemma kmalloc_block:
  assumes inv: "heap_inv h m L" and run: "kmalloc m h sz = Some (Ret (p, m1))"
  shows "\<exists>k. unat sz \<le> k \<and> (unat p, k) \<notin> L \<and> heap_inv h m1 (insert (unat p, k) L)
    \<and> (\<forall>b \<in> L. payload b \<inter> payload (unat p, k) = {} \<and> (\<forall>x. unat x \<in> payload b \<longrightarrow> m1 x = m x))"
proof -
  from heap.alloc_outcome [OF inv, of sz] run obtain k where k: "unat sz \<le> k" "(unat p, k) \<notin> L"
    "heap_inv h m1 (insert (unat p, k) L)" "\<forall>b \<in> L. \<forall>x \<in> payload b. m1 (of_nat x) = m (of_nat x)" by auto
  have "m1 x = m x" if "b \<in> L" "unat x \<in> payload b" for b x using k(4) [rule_format, OF that] by simp
  moreover have "payload b \<inter> payload (unat p, k) = {}" if "b \<in> L" for b
    using that k(2) by (intro heap_inv_apart [OF k(3)]) auto
  ultimately show ?thesis using k by blast
qed

lemma fresh_stringI:
  assumes inv: "heap_inv h m L" and run: "kmalloc m h sz = Some (Ret (p, m1))"
    and cs: "length cs < unat sz" "0 \<notin> set cs"
  shows "fresh_string h m L cs (p, put_bytes m1 p (cs @ [0]))"
proof -
  from kmalloc_block [OF inv run] obtain k where k: "unat sz \<le> k" "(unat p, k) \<notin> L" "heap_inv h m1 (insert (unat p, k) L)"
    "\<And>b x. b \<in> L \<Longrightarrow> unat x \<in> payload b \<Longrightarrow> m1 x = m x" "\<And>b. b \<in> L \<Longrightarrow> payload b \<inter> payload (unat p, k) = {}"
    by auto
  have "unat sz \<le> 4294967295" using unat_u32_lt [of sz] by linarith
  with cs(1) have len: "length cs < 2 ^ 32 - 1" by simp
  have lk: "Suc (length cs) \<le> k" using cs(1) k(1) by simp
  have kb: "unat p + Suc (length cs) \<le> 2 ^ 32" using heap_inv_bound(1) [OF k(3), of "unat p" k] lk by simp
  have dest: "in_region p (Suc (length cs)) a \<Longrightarrow> unat a \<in> payload (unat p, k)" for a
    using lk by (simp add: in_region_nat [OF kb] payload_def)
  have out: "put_bytes m1 p (cs @ [0]) x = m1 x" if "\<not> in_region p (Suc (length cs)) x" for x
    using put_bytes_same_outside [of "cs @ [0]" "Suc (length cs)" p m1] that len by (simp add: same_outside_def)
  have inv': "heap_inv h (put_bytes m1 p (cs @ [0])) (insert (unat p, k) L)"
    using out dest by (intro heap_inv_write [OF k(3)]) blast
  have keep: "put_bytes m1 p (cs @ [0]) x = m x" if b: "b \<in> L" "unat x \<in> payload b" for b x
  proof -
    have "\<not> in_region p (Suc (length cs)) x" using dest [of x] k(5) [OF b(1)] b(2) by auto
    then show ?thesis using k(4) [OF b] by (simp add: out)
  qed
  have "put_bytes m1 p (cs @ [0]) x = m x" if x: "unat x < unat (virtual_address h)" for x
  proof -
    have "unat (virtual_address h) \<le> unat p"
      using k(3) live_range [of "unat p" k "unat (virtual_address h)"] by (fastforce simp: heap_inv_def)
    with x have "\<not> in_region p (Suc (length cs)) x" by (simp add: in_region_nat [OF kb])
    with out kmalloc_below [OF inv run x] show ?thesis by simp
  qed
  moreover have "cstr (put_bytes m1 p (cs @ [0])) p cs" using cs(2) len by (intro put_bytes_cstr) simp_all
  ultimately show ?thesis
    using inv' keep lk k(2) kmalloc_not_NULL [OF inv run] by (auto simp: fresh_string_def Suc_le_eq)
qed

text \<open>A string inside a live allocation is apart from a new allocation, and still there after it.\<close>

lemma source_apart:
  assumes inv: "heap_inv h m L" and src: "cstr m src bs" and blk: "blk \<in> L"
    and inside: "{unat src .. unat src + length bs} \<subseteq> payload blk"
    and run: "kmalloc m h sz = Some (Ret (p, m1))" and n: "n \<le> unat sz"
  shows "cstr m1 src bs" "disjoint_regions p n src (Suc (length bs))" "length bs < 2 ^ 32"
proof -
  from kmalloc_block [OF inv run] obtain k where k: "unat sz \<le> k" "(unat p, k) \<notin> L" "heap_inv h m1 (insert (unat p, k) L)"
    "\<And>b x. b \<in> L \<Longrightarrow> unat x \<in> payload b \<Longrightarrow> m1 x = m x" "\<And>b. b \<in> L \<Longrightarrow> payload b \<inter> payload (unat p, k) = {}"
    by auto
  have "unat src + length bs \<in> payload blk" using inside by auto
  then have sb: "unat src + Suc (length bs) \<le> 2 ^ 32"
    using heap_inv_bound(1) [OF inv, of "fst blk" "snd blk"] blk by (simp add: payload_def)
  then show "length bs < 2 ^ 32" by simp
  have "unat (src + of_nat i) = unat src + i" if "i \<le> length bs" for i
    using that sb by (simp add: unat_word_ariths unat_of_nat32)
  then show "cstr m1 src bs" using src inside k(4) [OF blk] unfolding cstr_iff by (auto simp: subset_eq)
  have kb: "unat p + n \<le> 2 ^ 32" using heap_inv_bound(1) [OF k(3), of "unat p" k] k(1) n by simp
  have "in_region p n a \<Longrightarrow> unat a \<in> payload (unat p, k)" for a
    using k(1) n by (simp add: in_region_nat [OF kb] payload_def)
  moreover have "in_region src (Suc (length bs)) a \<Longrightarrow> unat a \<in> payload blk" for a
    using inside by (auto simp: in_region_nat [OF sb])
  ultimately show "disjoint_regions p n src (Suc (length bs))"
    using k(5) [OF blk] unfolding disjoint_regions_def by blast
qed

lemma strdup_fresh:
  assumes inv: "heap_inv h m L" and src: "cstr m src bs" and blk: "blk \<in> L"
    and inside: "{unat src .. unat src + length bs} \<subseteq> payload blk" and len: "length bs < 2 ^ 32 - 1"
  shows "strdup m h src = no_memory \<or> (\<exists>r. strdup m h src = Some (Ret r) \<and> fresh_string h m L bs r)"
proof -
  let ?n = "of_nat (length bs) :: u32"
  have n: "unat (?n + 1) = Suc (length bs)" using len by (simp add: unat_word_ariths unat_of_nat32)
  from heap.alloc_outcome [OF inv, of "?n + 1"] show ?thesis
  proof (elim disjE exE conjE)
    fix p k m1 assume run: "kmalloc m h (?n + 1) = Some (Ret (p, m1))"
    note A = source_apart [OF inv src blk inside run, of "Suc (length bs)"]
    have "copy_string m1 p src = Some (put_bytes m1 p bs, p + ?n)" using A n len by (intro copy_string_cstr) simp_all
    then have "strdup m h src = Some (Ret (p, put_bytes m1 p (bs @ [0])))"
      using run kmalloc_not_NULL [OF inv run] by (simp add: strdup_def strlen_cstr [OF src] put_bytes_append)
    with fresh_stringI [OF inv run, of bs] cstr_no_nul [OF src] n show ?thesis by simp
  qed (auto simp: strdup_def strlen_cstr [OF src])
qed

text \<open>
  C6. A string stored in a live allocation is copied into a new allocation; every byte in use stays.\<close>

theorem strdup_copies:
  assumes inv: "heap_inv h m L" and src: "cstr m src bs" and blk: "blk \<in> L"
    and inside: "{unat src .. unat src + length bs} \<subseteq> payload blk" and len: "length bs < 2 ^ 32 - 1"
  shows "strdup m h src = no_memory \<or>
    (\<exists>p k m'. strdup m h src = Some (Ret (p, m')) \<and> cstr m' p bs \<and> length bs < k
       \<and> heap_inv h m' (insert (unat p, k) L) \<and> (unat p, k) \<notin> L
       \<and> (\<forall>b \<in> L. \<forall>x. unat x \<in> payload b \<longrightarrow> m' x = m x))"
  using strdup_fresh [OF assms] by (fastforce simp: fresh_string_def)

text \<open>\<^verbatim>\<open>strndup\<close> copies at most \<open>n\<close> characters.\<close>

lemma strndup_fresh:
  assumes inv: "heap_inv h m L" and src: "cstr m src bs" and blk: "blk \<in> L"
    and inside: "{unat src .. unat src + length bs} \<subseteq> payload blk" and len: "length bs < 2 ^ 32 - 1"
  shows "strndup m h src n = no_memory \<or>
    (\<exists>r. strndup m h src n = Some (Ret r) \<and> fresh_string h m L (take (unat n) bs) r)"
proof -
  define sz :: u32 where "sz = (if n < of_nat (length bs) then n else of_nat (length bs))"
  have ln: "unat (of_nat (length bs) :: u32) = length bs" using len by (simp add: unat_of_nat32)
  have sz: "unat sz = length (take (unat n) bs)" "unat sz \<le> length bs" by (auto simp: sz_def ln word_less_nat_alt)
  have n1: "unat (sz + 1) = Suc (unat sz)" using sz(2) len by (simp add: unat_word_ariths)
  from heap.alloc_outcome [OF inv, of "sz + 1"] show ?thesis
  proof (elim disjE exE conjE)
    fix p k m1 assume run: "kmalloc m h (sz + 1) = Some (Ret (p, m1))"
    note A = source_apart [OF inv src blk inside run, of "unat sz"]
    have bytes: "m1 (src + of_nat i) = bs ! i" if "i < length bs" for i
      using A(1) that n1 by (simp add: cstr_iff)
    have dj: "disjoint_regions p (unat sz) src (unat sz)"
      using A(2) n1 sz(2) by (auto simp: disjoint_regions_def in_region_def)
    have "(memcpy m1 p src sz)(p + sz := 0) = put_bytes m1 p (take (unat n) bs @ [0])"
    proof
      fix a
      show "((memcpy m1 p src sz)(p + sz := 0)) a = put_bytes m1 p (take (unat n) bs @ [0]) a"
      proof (cases "in_region p (Suc (unat sz)) a")
        case True
        then obtain j where j: "j < Suc (unat sz)" "a = p + of_nat j" by (rule in_regionE)
        have uj: "unat (of_nat j :: u32) = j" using j(1) sz(2) len by (intro unat_of_nat32) simp
        have eq: "of_nat j = sz \<longleftrightarrow> j = unat sz" using uj by (auto simp: word_unat_eq_iff)
        have "put_bytes m1 p (take (unat n) bs @ [0]) a = (take (unat n) bs @ [0]) ! j"
          using j sz len by (simp add: put_bytes_nth uj)
        then show ?thesis
          using j sz uj bytes [of j] eq
          by (auto simp: memcpy_disjoint [OF dj] word_less_nat_alt nth_append less_Suc_eq)
      next
        case False
        have "\<not> a - p < sz" "a \<noteq> p + sz"
          using False n1 by (auto simp: in_region_def word_less_nat_alt)
        moreover have "put_bytes m1 p (take (unat n) bs @ [0]) a = m1 a"
          using put_bytes_same_outside [of "take (unat n) bs @ [0]" "Suc (unat sz)" p m1] False sz len
          by (simp add: same_outside_def)
        ultimately show ?thesis by (simp add: memcpy_disjoint [OF dj])
      qed
    qed
    then have "strndup m h src n = Some (Ret (p, put_bytes m1 p (take (unat n) bs @ [0])))"
      using run kmalloc_not_NULL [OF inv run]
      by (simp add: strndup_def strlen_cstr [OF src] Let_def sz_def [symmetric] memcpy_def [symmetric])
    moreover have "0 \<notin> set (take (unat n) bs)" using cstr_no_nul [OF src] by (meson in_set_takeD)
    ultimately show ?thesis
      using fresh_stringI [OF inv run, of "take (unat n) bs"] n1 sz by simp
  qed (auto simp: strndup_def strlen_cstr [OF src] Let_def sz_def)
qed

section \<open>The theorems at a small heap\<close>

text \<open>A heap of one chunk at \<open>0x1000\<close> with a payload of \<open>0xFF0\<close> bytes.\<close>

definition small_heap :: "bool \<Rightarrow> mem" where
  "small_heap al = set_size 0x1000 0xFF0 (set_next 0x1000 NULL (set_prev 0x1000 NULL (set_allocated 0x1000 al empty_mem)))"

definition small_heap_allocator :: heap_allocator where
  "small_heap_allocator = \<lparr>virtual_address = 0x1000, heap_size = 0x1000\<rparr>"

lemma small_heap_wf: "heap_wf (small_heap al) (unat (virtual_address small_heap_allocator)) [(0xFF0, al)]"
  by (simp add: heap_wf_def small_heap_def small_heap_allocator_def mem_simps)

lemma small_heap_inv:
  "heap_inv small_heap_allocator (small_heap True) {(0x1010, 0xFF0)}"
  "heap_inv small_heap_allocator (small_heap False) {}"
proof -
  show "heap_inv small_heap_allocator (small_heap True) {(0x1010, 0xFF0)}"
    using small_heap_wf [of True]
    by (auto simp: heap_inv_def small_heap_allocator_def intro!: exI [of _ "[(0xFF0, True)]"])
  show "heap_inv small_heap_allocator (small_heap False) {}"
    using small_heap_wf [of False]
    by (auto simp: heap_inv_def small_heap_allocator_def intro!: exI [of _ "[(0xFF0, False)]"])
qed

lemmas small_heap_simps = small_heap_allocator_def fits_def split_block_def

lemma small_heap_kmalloc: "\<exists>m'. kmalloc (small_heap False) small_heap_allocator 100 = Some (Ret (0x1010, m'))"
  using allocate_first_fit [OF small_heap_wf [of False], of 100]
  by (auto simp: kmalloc_def small_heap_simps NULL_def)

lemma small_heap_two:
  obtains m where "heap_wf m 0x1000 [(100, True), (0xF7C, False)]"
    "heap_inv small_heap_allocator m {(0x1010, 100)}"
proof -
  from allocate_first_fit [OF small_heap_wf [of False], of 100] obtain m where
    m: "heap_wf m 0x1000 [(100, True), (0xF7C, False)]"
    by (auto simp: small_heap_simps)
  then have "heap_inv small_heap_allocator m {(0x1010, 100)}"
    by (auto simp: heap_inv_def small_heap_allocator_def intro!: exI [of _ "[(100, True), (0xF7C, False)]"])
  with m that show ?thesis by blast
qed

text \<open>
  C3. \<open>allocate\<close> implements first fit: it panics exactly when no free block is larger than the
  request; otherwise it returns the payload of the first such block, splits it as \<open>split_block\<close>
  says, and changes chunk headers only.
\<close>

theorem allocate_refines_first_fit:
  assumes "heap_wf m (unat (virtual_address h)) bs"
  shows "case alloc_blocks (unat n) bs of
      None \<Rightarrow> allocate m h n = no_memory
    | Some (off, bs') \<Rightarrow> \<exists>m'. allocate m h n = Some (Ret (virtual_address h + of_nat off, m'))
        \<and> heap_wf m' (unat (virtual_address h)) bs'
        \<and> (\<forall>a. unat a \<notin> header_bytes (unat (virtual_address h)) bs' \<longrightarrow> m' a = m a)"
  by (rule allocate_first_fit [OF assms])

lemma allocate_refines_first_fit_witness:
  "\<exists>m'. allocate (small_heap False) small_heap_allocator 100 = Some (Ret (0x1010, m'))
     \<and> heap_wf m' 0x1000 [(100, True), (0xF7C, False)]"
  using allocate_refines_first_fit [OF small_heap_wf [of False], of 100]
  by (auto simp: small_heap_simps)

text \<open>
  C4. \<open>kfree\<close> of a live allocation implements release: the block becomes free and is merged with its
  free neighbours, so that no two neighbouring blocks are free; exactly that allocation stops
  being live, and only chunk headers change.
\<close>

theorem kfree_releases:
  assumes "heap_wf m b bs" and "no_free_pair bs" and "(a, k) \<in> live b bs"
  shows "heap_wf (kfree m (of_nat a)) b (free_block (a - b) bs)
    \<and> no_free_pair (free_block (a - b) bs)
    \<and> live b (free_block (a - b) bs) = live b bs - {(a, k)}
    \<and> (\<forall>x. unat x \<notin> header_bytes b bs \<longrightarrow> kfree m (of_nat a) x = m x)"
  by (rule kfree_coalesces [OF assms])

lemma kfree_releases_witness: "heap_wf (kfree (small_heap True) 0x1010) 0x1000 [(0xFF0, False)]"
proof -
  have "heap_wf (small_heap True) 0x1000 [(0xFF0, True)]"
    using small_heap_wf [of True] by (simp add: small_heap_allocator_def)
  from kfree_releases [OF this, where a = "0x1010" and k = "0xFF0"] show ?thesis by (simp add: free_block_def)
qed

lemma kmalloc_contract_witness:
  "\<exists>p k m'. kmalloc (small_heap False) small_heap_allocator 100 = Some (Ret (p, m')) \<and> 100 \<le> k
     \<and> heap_inv small_heap_allocator m' {(unat p, k)}"
  using kmalloc_contract [OF small_heap_inv(2), of 100] small_heap_kmalloc by auto

lemma kmalloc_kfree_restores_witness:
  "\<exists>m'. kmalloc (small_heap False) small_heap_allocator 100 = Some (Ret (0x1010, m'))
     \<and> heap_inv small_heap_allocator (kfree m' 0x1010) {}"
proof -
  obtain m' where m': "kmalloc (small_heap False) small_heap_allocator 100 = Some (Ret (0x1010, m'))"
    using small_heap_kmalloc by blast
  from kmalloc_kfree_restores [OF small_heap_inv(2) m'] m' show ?thesis by blast
qed

lemma krealloc_moves_witness:
  "\<exists>m p m' k'. krealloc m small_heap_allocator 0x1010 50 = Some (Ret (p, m'))
     \<and> 50 \<le> k' \<and> heap_inv small_heap_allocator m' {(unat p, k')}"
proof -
  obtain m where m: "heap_wf m 0x1000 [(100, True), (0xF7C, False)]"
    and inv: "heap_inv small_heap_allocator m {(0x1010, 100)}" by (rule small_heap_two)
  have "alloc_blocks (unat (50 :: u32)) [(100, True), (0xF7C, False)] = Some (132, [(100, True), (50, True), (0xF3A, False)])"
    by (simp add: fits_def split_block_def)
  with allocate_first_fit [of m small_heap_allocator "[(100, True), (0xF7C, False)]" 50] m
  obtain m1 where "allocate m small_heap_allocator 50 = Some (Ret (0x1084, m1))"
    by (auto simp: small_heap_allocator_def)
  then obtain m' where k: "krealloc m small_heap_allocator 0x1010 50 = Some (Ret (0x1084, m'))"
    by (simp add: krealloc_def NULL_def)
  have "(unat (0x1010 :: addr), 100) \<in> {(0x1010, 100)}" by simp
  from krealloc_moves [OF inv this k] obtain k' where
    "50 \<le> k'" "heap_inv small_heap_allocator m' {(unat (0x1084 :: addr), k')}" by auto
  with k show ?thesis by blast
qed

lemma strdup_copies_witness:
  "\<exists>m. strdup m small_heap_allocator 0x1010 = no_memory \<or>
    (\<exists>p k m'. strdup m small_heap_allocator 0x1010 = Some (Ret (p, m')) \<and> cstr m' p [0x48, 0x69]
     \<and> heap_inv small_heap_allocator m' {(unat p, k), (0x1010, 100)})"
proof -
  obtain m where inv: "heap_inv small_heap_allocator m {(0x1010, 100)}" by (rule small_heap_two)
  let ?m = "m(0x1010 := 0x48, 0x1011 := 0x69, 0x1012 := 0)"
  have "heap_inv small_heap_allocator ?m {(0x1010, 100)}"
    by (rule heap_inv_write [OF inv]) (auto simp: payload_def split: if_splits)
  from strdup_copies [OF this, where src = "0x1010" and bs = "[0x48, 0x69]" and blk = "(0x1010, 100)"]
  have "strdup ?m small_heap_allocator 0x1010 = no_memory \<or>
    (\<exists>p k m'. strdup ?m small_heap_allocator 0x1010 = Some (Ret (p, m')) \<and> cstr m' p [0x48, 0x69]
     \<and> heap_inv small_heap_allocator m' {(unat p, k), (0x1010, 100)})"
    by (fastforce simp: payload_def)
  then show ?thesis by blast
qed

end
