(* ===== verification/Heap_Init.thy ===== *)
theory Heap_Init
  imports Heap_Contract
begin

text \<open>
  \<^verbatim>\<open>heap_init\<close> of \<^verbatim>\<open>kernel/src/sys/heap.c\<close>: it maps freshly allocated pages at the virtual addresses
  of the heap and writes the first chunk there. The theorem puts the page allocator, the
  paging code and the heap together.
\<close>


section \<open>Setting up the heap\<close>

text \<open>
  \<open>heap_init\<close> maps fresh pages at the heap's virtual addresses and then writes the header of the
  first chunk through those addresses. The processor's address translation is not code of the
  kernel: it is the parameter \<open>mmu\<close>, from the memory (which holds the tables), the directory in
  \<^verbatim>\<open>cr3\<close> and a virtual address to a physical address. What is used of it is stated by
  \<open>mmu_walks\<close>: it agrees with the kernel's own walk, \<open>paging_get_phys_address\<close>, on pages that the
  walk finds.
\<close>

definition mmu_walks :: "(mem \<Rightarrow> addr \<Rightarrow> addr \<Rightarrow> addr) \<Rightarrow> bool" where
  "mmu_walks mmu \<longleftrightarrow> (\<forall>m dir v x. paging_is_aligned v \<and> x < PAGE_SIZE \<and> paging_get_phys_address m dir v \<noteq> NULL \<longrightarrow>
     mmu m dir (v + x) = paging_get_phys_address m dir v + x)"

function map_heap_pages ::
  "mem \<Rightarrow> page_allocator_info \<Rightarrow> addr \<Rightarrow> addr \<Rightarrow> u32 \<Rightarrow> u32 \<Rightarrow> (page_allocator_info \<times> mem) outcome" where
  "map_heap_pages m pa directory current num i =
     (if i < num then
        obind (page_alloc m pa) (\<lambda>(ptr, pa', m').
          let (res, m'') = paging_map m' directory current ptr
                             (ucast (PAGING_IS_PRESENT OR PAGING_IS_WRITEABLE))
          in map_heap_pages m'' pa' directory (current + PAGE_SIZE) num (i + 1))
      else Ret (pa, m))"
  by pat_completeness auto
termination
  by (relation "measure (\<lambda>(m, pa, directory, current, num, i). unat num - unat i)")
    (auto simp: unat_diff_step)

declare map_heap_pages.simps [simp del]

text \<open>A store of a word through the translation, byte by byte.\<close>

definition vstore :: "(mem \<Rightarrow> addr \<Rightarrow> addr \<Rightarrow> addr) \<Rightarrow> addr \<Rightarrow> addr \<Rightarrow> u8 \<Rightarrow> mem \<Rightarrow> mem" where
  "vstore mmu directory a v m = m(mmu m directory a := v)"

definition vstore32 :: "(mem \<Rightarrow> addr \<Rightarrow> addr \<Rightarrow> addr) \<Rightarrow> addr \<Rightarrow> addr \<Rightarrow> u32 \<Rightarrow> mem \<Rightarrow> mem" where
  "vstore32 mmu directory a v m =
     vstore mmu directory (a + 3) (ucast (drop_bit 24 v))
       (vstore mmu directory (a + 2) (ucast (drop_bit 16 v))
         (vstore mmu directory (a + 1) (ucast (drop_bit 8 v))
           (vstore mmu directory a (ucast v) m)))"

definition heap_init ::
  "(mem \<Rightarrow> addr \<Rightarrow> addr \<Rightarrow> addr) \<Rightarrow> paging_state \<Rightarrow> mem \<Rightarrow> page_allocator_info \<Rightarrow> heap_allocator \<Rightarrow> addr \<Rightarrow> u32 \<Rightarrow> addr \<Rightarrow>
   (u32 \<times> heap_allocator \<times> page_allocator_info \<times> mem) outcome" where
  "heap_init mmu ps m pa h virt num kernel_page_directory =
     (if num < 1 then Ret (- EINVARG, h, pa, m)
      else
        (let h = \<lparr>virtual_address = virt, heap_size = num * PAGE_SIZE\<rparr> in
         obind (map_heap_pages m pa kernel_page_directory virt num 0) (\<lambda>(pa, m).
           let m = vstore mmu (cr3 ps) (virt + 12) 0 m;
               m = vstore32 mmu (cr3 ps) (virt + 4) NULL m;
               m = vstore32 mmu (cr3 ps) virt NULL m;
               m = vstore32 mmu (cr3 ps) (virt + 8) (heap_size h - sizeof_memory_chunk) m
           in Ret (EOK, h, pa, m))))"

lemma directory_wf_cong:
  assumes wf: "directory_wf m kd K"
    and same: "\<And>a. a div PAGE_SIZE = kd \<or> (\<exists>d < 1024. a div PAGE_SIZE = K d) \<Longrightarrow> m' a = m a"
  shows "directory_wf m' kd K"
    and "paging_is_aligned v \<Longrightarrow> paging_get_phys_address m' (kd * PAGE_SIZE) v = paging_get_phys_address m (kd * PAGE_SIZE) v"
proof -
  have "load32 m' (kd * PAGE_SIZE + 4 * d) = load32 m (kd * PAGE_SIZE + 4 * d)" if "d < 1024" for d
    using wf that same by (intro load_in_page) (auto simp: directory_wf_def)
  with wf show wf': "directory_wf m' kd K" by (simp add: directory_wf_def)
  have "load32 m' (K (dir_index v) * PAGE_SIZE + 4 * table_index v) =
      load32 m (K (dir_index v) * PAGE_SIZE + 4 * table_index v)"
    using directory_wf_at(1) [OF wf] table_index_lt same dir_index_lt by (intro load_in_page) blast+
  then show "paging_is_aligned v \<Longrightarrow> paging_get_phys_address m' (kd * PAGE_SIZE) v = paging_get_phys_address m (kd * PAGE_SIZE) v"
    by (simp add: get_phys_entry [OF wf'] get_phys_entry [OF wf])
qed

lemma heap_flags: "bit (ucast (PAGING_IS_PRESENT OR PAGING_IS_WRITEABLE) :: u8) 0"
  by (simp add: paging_defs bit_simps)

lemma map_heap_page:
  assumes T: "tables_reserved m pa kd K" and ne: "free_above m pa \<noteq> {}" and v: "paging_is_aligned v"
  obtains k m1 m2 where "page_alloc m pa = Ret (k * PAGE_SIZE, pa\<lparr>last_index := k\<rparr>, m1)"
    "paging_map m1 (kd * PAGE_SIZE) v (k * PAGE_SIZE) (ucast (PAGING_IS_PRESENT OR PAGING_IS_WRITEABLE)) = (EOK, m2)"
    "tables_reserved m2 (pa\<lparr>last_index := k\<rparr>) kd K"
    "k \<in> free_above m pa" "free_above m2 (pa\<lparr>last_index := k\<rparr>) = free_above m pa - {k}"
    "\<And>w. paging_is_aligned w \<Longrightarrow> paging_get_phys_address m2 (kd * PAGE_SIZE) w =
       (if w = v then k * PAGE_SIZE else paging_get_phys_address m (kd * PAGE_SIZE) w)"
proof -
  from page_alloc_step [OF ne] obtain k where k: "k \<in> free_above m pa"
    "page_alloc m pa = Ret (k * PAGE_SIZE, pa\<lparr>last_index := k\<rparr>, bit_set m (bitmap pa) k)"
    "free_above (bit_set m (bitmap pa) k) (pa\<lparr>last_index := k\<rparr>) = free_above m pa - {k}" .
  let ?m1 = "bit_set m (bitmap pa) k"
  have wf: "directory_wf m kd K" and np: "num_pages pa \<le> 2 ^ 20" using T by (simp_all add: tables_reserved_def)
  note kp = free_above_page [OF k(1) np]
  have off: "?m1 a = m a" if "a div PAGE_SIZE = kd \<or> (\<exists>d < 1024. a div PAGE_SIZE = K d)" for a
    using that T kp by (auto simp: tables_reserved_def intro: bit_set_off_bitmap)
  note C = directory_wf_cong [OF wf off, simplified]
  have al: "paging_is_aligned (k * PAGE_SIZE)" using kp by (simp add: aligned_mult)
  let ?e = "K (dir_index v) * PAGE_SIZE + 4 * table_index v"
  let ?flags = "ucast (PAGING_IS_PRESENT OR PAGING_IS_WRITEABLE) :: u8"
  let ?m2 = "store32 ?m1 ?e (k * PAGE_SIZE OR ucast ?flags)"
  have map: "paging_map ?m1 (kd * PAGE_SIZE) v (k * PAGE_SIZE) ?flags = (EOK, ?m2)"
    using paging_set_store [OF C(1) v] v al by (simp add: paging_map_def)
  from paging_map_translates [OF C(1) v al heap_flags] map
  have M: "directory_wf ?m2 kd K"
    "\<And>w. paging_is_aligned w \<Longrightarrow> paging_get_phys_address ?m2 (kd * PAGE_SIZE) w =
       (if w = v then k * PAGE_SIZE else paging_get_phys_address ?m1 (kd * PAGE_SIZE) w)" by auto
  have "same_off_page (K (dir_index v)) ?m1 ?m2"
    using directory_wf_at(1) [OF wf] table_index_lt by (rule same_off_page_store)
  from free_above_off_page [OF this, of "pa\<lparr>last_index := k\<rparr>"]
  have F: "free_above ?m2 (pa\<lparr>last_index := k\<rparr>) = free_above m pa - {k}"
    using T dir_index_lt k(3) by (simp add: tables_reserved_def)
  have "tables_reserved ?m2 (pa\<lparr>last_index := k\<rparr>) kd K"
    using T M(1) by (simp add: tables_reserved_def F)
  with that [OF k(2) map] k(1) F M(2) C(2) show ?thesis by simp
qed

lemma page_of_inj: "j * PAGE_SIZE = k * PAGE_SIZE \<Longrightarrow> j < 2 ^ 20 \<Longrightarrow> k < 2 ^ 20 \<Longrightarrow> j = k" for j k :: u32
  by (metis page_number)

definition fresh_frames :: "mem \<Rightarrow> page_allocator_info \<Rightarrow> mem \<Rightarrow> page_allocator_info \<Rightarrow> u32 \<Rightarrow> addr \<Rightarrow> u32 \<Rightarrow> bool" where
  "fresh_frames m pa m' pa' kd v c \<longleftrightarrow>
     free_above m' pa' \<subseteq> free_above m pa \<and>
     (\<forall>w. paging_is_aligned w \<longrightarrow>
        (if (w - v) div PAGE_SIZE < c
         then \<exists>k \<in> free_above m pa - free_above m' pa'. paging_get_phys_address m' (kd * PAGE_SIZE) w = k * PAGE_SIZE
         else paging_get_phys_address m' (kd * PAGE_SIZE) w = paging_get_phys_address m (kd * PAGE_SIZE) w)) \<and>
     (\<forall>w w'. paging_is_aligned w \<and> paging_is_aligned w' \<and> (w - v) div PAGE_SIZE < c \<and> (w' - v) div PAGE_SIZE < c
        \<and> paging_get_phys_address m' (kd * PAGE_SIZE) w = paging_get_phys_address m' (kd * PAGE_SIZE) w' \<longrightarrow> w = w')"

text \<open>One page more in front of the pages already mapped.\<close>

lemma fresh_frames_step:
  assumes i: "i < num" "num \<le> 2 ^ 20" and v: "paging_is_aligned v" and np: "num_pages pa \<le> 2 ^ 20"
    and k: "k \<in> free_above m pa" and free: "free_above m2 pa2 = free_above m pa - {k}"
    and map: "\<And>w. paging_is_aligned w \<Longrightarrow> paging_get_phys_address m2 (kd * PAGE_SIZE) w =
       (if w = v then k * PAGE_SIZE else paging_get_phys_address m (kd * PAGE_SIZE) w)"
    and F: "fresh_frames m2 pa2 m' pa' kd (v + PAGE_SIZE) (num - (i + 1))"
  shows "fresh_frames m pa m' pa' kd v (num - i)"
proof -
  let ?g = "\<lambda>m. paging_get_phys_address m (kd * PAGE_SIZE)" and ?in = "\<lambda>w. (w - (v + PAGE_SIZE)) div PAGE_SIZE < num - (i + 1)"
  note parts = F [unfolded fresh_frames_def free]
  have sub: "free_above m' pa' \<subseteq> free_above m pa - {k}" using parts by (rule conjunct1)
  note each = parts [THEN conjunct2, THEN conjunct1, rule_format]
  have frames: "\<exists>k' \<in> free_above m pa - {k} - free_above m' pa'. ?g m' w = k' * PAGE_SIZE" if "paging_is_aligned w" "?in w" for w
    using each [OF that(1)] that(2) by (simp only: if_True)
  have others: "?g m' w = ?g m2 w" if "paging_is_aligned w" "\<not> ?in w" for w
    using each [OF that(1)] that(2) by (simp only: if_False)
  have here: "(w - v) div PAGE_SIZE < num - i \<longleftrightarrow> w = v \<or> ?in w" and not_v: "w = v \<Longrightarrow> \<not> ?in w" if "paging_is_aligned w" for w
    using page_step [OF aligned_diff [OF that v] i] by (simp_all add: diff_diff_eq)
  have gv: "?g m' v = k * PAGE_SIZE" using others [OF v] not_v [OF v] map [OF v] by simp
  have differ: "?g m' w \<noteq> k * PAGE_SIZE" if w: "paging_is_aligned w" "?in w" for w
  proof
    assume eq: "?g m' w = k * PAGE_SIZE"
    from frames [OF w] obtain k' where k': "k' \<in> free_above m pa" "k' \<noteq> k" "?g m' w = k' * PAGE_SIZE" by blast
    with eq page_of_inj [of k' k] free_above_page [OF k'(1) np] free_above_page [OF k np] show False by simp
  qed
  show ?thesis
    unfolding fresh_frames_def
  proof (intro conjI allI impI)
    show "free_above m' pa' \<subseteq> free_above m pa" using sub by blast
    fix w assume w: "paging_is_aligned w"
    consider "w = v" | "w \<noteq> v" "?in w" | "w \<noteq> v" "\<not> ?in w" by blast
    then show "if (w - v) div PAGE_SIZE < num - i then \<exists>k \<in> free_above m pa - free_above m' pa'. ?g m' w = k * PAGE_SIZE
      else ?g m' w = ?g m w"
    proof cases
      case 1
      then show ?thesis using here [OF w] gv k sub by auto
    next
      case 2
      then show ?thesis using here [OF w] frames [OF w] by auto
    next
      case 3
      then show ?thesis using here [OF w] others [OF w] map [OF w] by auto
    qed
  next
    fix w w' assume "paging_is_aligned w \<and> paging_is_aligned w' \<and> (w - v) div PAGE_SIZE < num - i
      \<and> (w' - v) div PAGE_SIZE < num - i \<and> ?g m' w = ?g m' w'"
    then show "w = w'" using here parts [THEN conjunct2, THEN conjunct2] gv differ by metis
  qed
qed

lemma map_heap_pages_fresh:
  assumes "tables_reserved m pa kd K" "paging_is_aligned v" "i \<le> num" "num \<le> 2 ^ 20"
    and "unat num - unat i \<le> card (free_above m pa)"
  shows "\<exists>pa' m'. map_heap_pages m pa (kd * PAGE_SIZE) v num i = Ret (pa', m')
    \<and> tables_reserved m' pa' kd K \<and> fresh_frames m pa m' pa' kd v (num - i) \<and> off_bitmap pa' = off_bitmap pa"
  using assms
proof (induction "unat num - unat i" arbitrary: m pa v i rule: less_induct)
  case less
  show ?case
  proof (cases "i < num")
    case False
    with less.prems show ?thesis
      by (auto simp: map_heap_pages.simps [of m] fresh_frames_def)
  next
    case True
    then have "free_above m pa \<noteq> {}" using less.prems(5) by (auto simp: word_less_nat_alt)
    from map_heap_page [OF less.prems(1) this less.prems(2)] obtain k m1 m2 where S:
      "page_alloc m pa = Ret (k * PAGE_SIZE, pa\<lparr>last_index := k\<rparr>, m1)"
      "paging_map m1 (kd * PAGE_SIZE) v (k * PAGE_SIZE) (ucast (PAGING_IS_PRESENT OR PAGING_IS_WRITEABLE)) = (EOK, m2)"
      "tables_reserved m2 (pa\<lparr>last_index := k\<rparr>) kd K"
      "k \<in> free_above m pa" "free_above m2 (pa\<lparr>last_index := k\<rparr>) = free_above m pa - {k}"
      "\<And>w. paging_is_aligned w \<Longrightarrow> paging_get_phys_address m2 (kd * PAGE_SIZE) w =
         (if w = v then k * PAGE_SIZE else paging_get_phys_address m (kd * PAGE_SIZE) w)" by blast
    have v': "paging_is_aligned (v + PAGE_SIZE)" using less.prems(2) aligned_page by (rule aligned_add)
    have "card (free_above m pa) = Suc (card (free_above m pa - {k}))" by (rule card.remove [OF finite S(4)])
    then have card: "unat num - unat (i + 1) \<le> card (free_above m2 (pa\<lparr>last_index := k\<rparr>))"
      using less.prems(5) S(5) unat_plus_one [OF True] by simp
    from less.hyps [OF unat_diff_step [OF True] S(3) v' inc_le [OF True] less.prems(4) card] obtain pa' m' where R:
      "map_heap_pages m2 (pa\<lparr>last_index := k\<rparr>) (kd * PAGE_SIZE) (v + PAGE_SIZE) num (i + 1) = Ret (pa', m')"
      "tables_reserved m' pa' kd K"
      "fresh_frames m2 (pa\<lparr>last_index := k\<rparr>) m' pa' kd (v + PAGE_SIZE) (num - (i + 1))"
      "off_bitmap pa' = off_bitmap pa" unfolding off_bitmap_cursor by blast
    have "num_pages pa \<le> 2 ^ 20" using less.prems(1) by (simp add: tables_reserved_def)
    from fresh_frames_step [OF True less.prems(4,2) this S(4-6) R(3)] R(1,2,4) True S(1,2)
    show ?thesis by (simp add: map_heap_pages.simps [of m])
  qed
qed

lemma header_view:
  assumes "\<And>x. x < 16 \<Longrightarrow> view (v + x) = m (p + x)"
  shows "chunk_next view v = chunk_next m p" "chunk_prev view v = chunk_prev m p"
    "chunk_size view v = chunk_size m p" "chunk_allocated view v = chunk_allocated m p"
  using assms assms [of 0] by (simp_all add: field_defs load32_def add.assoc)



lemma mmu_frame:
  assumes "mmu_walks mmu" "paging_is_aligned v" "paging_get_phys_address m dir v = p" "p \<noteq> NULL" "x < PAGE_SIZE"
  shows "mmu m dir (v + x) = p + x"
  using assms by (auto simp: mmu_walks_def)

text \<open>Stores through the translation into a frame that holds no page table are plain stores.\<close>

lemma vstore_frame:
  assumes mmu: "mmu_walks mmu" and wf: "directory_wf m1 kd K" and v: "paging_is_aligned v"
    and g: "paging_get_phys_address m1 (kd * PAGE_SIZE) v = k * PAGE_SIZE" and k: "k \<noteq> 0" "k < 2 ^ 20" "k \<noteq> kd"
      "\<forall>d < 1024. K d \<noteq> k"
    and m: "same_off_page k m1 m" and x: "x < PAGE_SIZE"
  shows "mmu m (kd * PAGE_SIZE) (v + x) = k * PAGE_SIZE + x"
    and "vstore mmu (kd * PAGE_SIZE) (v + x) b m = m(k * PAGE_SIZE + x := b)"
    and "same_off_page k m1 (m(k * PAGE_SIZE + x := b))"
proof -
  have "paging_get_phys_address m (kd * PAGE_SIZE) v = k * PAGE_SIZE"
  proof -
    have "m a = m1 a" if "a div PAGE_SIZE = kd \<or> (\<exists>d < 1024. a div PAGE_SIZE = K d)" for a
      using that m k(3,4) unfolding same_off_page_def by metis
    from directory_wf_cong(2) [OF wf this v] g show ?thesis by simp
  qed
  moreover have "k * PAGE_SIZE \<noteq> NULL" using k(1,2) page_of_inj [of k 0] by (auto simp: NULL_def)
  ultimately show *: "mmu m (kd * PAGE_SIZE) (v + x) = k * PAGE_SIZE + x"
    using mmu_frame [OF mmu v] x by blast
  show "vstore mmu (kd * PAGE_SIZE) (v + x) b m = m(k * PAGE_SIZE + x := b)"
    by (simp add: vstore_def *)
  have "(k * PAGE_SIZE + x) div PAGE_SIZE = k" using k(2) x by (intro page_of_offset) (simp_all add: PAGE_SIZE_def)
  with m show "same_off_page k m1 (m(k * PAGE_SIZE + x := b))" by (auto simp: same_off_page_def)
qed

lemma vstore32_frame:
  assumes mmu: "mmu_walks mmu" and wf: "directory_wf m1 kd K" and v: "paging_is_aligned v"
    and g: "paging_get_phys_address m1 (kd * PAGE_SIZE) v = k * PAGE_SIZE" and k: "k \<noteq> 0" "k < 2 ^ 20" "k \<noteq> kd"
      "\<forall>d < 1024. K d \<noteq> k"
    and m: "same_off_page k m1 m" and x: "x < 16"
  shows "vstore32 mmu (kd * PAGE_SIZE) (v + x) w m = store32 m (k * PAGE_SIZE + x) w"
    and "same_off_page k m1 (store32 m (k * PAGE_SIZE + x) w)"
proof -
  note V = vstore_frame [OF mmu wf v g k]
  have lt: "x < PAGE_SIZE" "x + 1 < PAGE_SIZE" "x + 2 < PAGE_SIZE" "x + 3 < PAGE_SIZE"
    using x unfolding PAGE_SIZE_def by unat_arith+
  note S0 = V(2,3) [OF m lt(1), of "ucast w"]
  note S1 = V(2,3) [OF S0(2) lt(2), of "ucast (drop_bit 8 w)"]
  note S2 = V(2,3) [OF S1(2) lt(3), of "ucast (drop_bit 16 w)"]
  note S3 = V(2,3) [OF S2(2) lt(4), of "ucast (drop_bit 24 w)"]
  show "vstore32 mmu (kd * PAGE_SIZE) (v + x) w m = store32 m (k * PAGE_SIZE + x) w"
    using S0(1) S1(1) S2(1) S3(1) by (simp add: vstore32_def store32_def add.assoc)
  show "same_off_page k m1 (store32 m (k * PAGE_SIZE + x) w)"
    using S3(2) by (simp add: store32_def add.assoc)
qed

lemma fresh_frames_cong:
  assumes F: "fresh_frames m pa m1 pa' kd v c" and free: "free_above m' pa' = free_above m1 pa'"
    and g: "\<And>w. paging_is_aligned w \<Longrightarrow> paging_get_phys_address m' (kd * PAGE_SIZE) w = paging_get_phys_address m1 (kd * PAGE_SIZE) w"
  shows "fresh_frames m pa m' pa' kd v c"
  unfolding fresh_frames_def free
proof (intro conjI allI impI)
  note parts = F [unfolded fresh_frames_def]
  show "free_above m1 pa' \<subseteq> free_above m pa" using parts by (rule conjunct1)
  fix w assume w: "paging_is_aligned w"
  show "if (w - v) div PAGE_SIZE < c
         then \<exists>k \<in> free_above m pa - free_above m1 pa'. paging_get_phys_address m' (kd * PAGE_SIZE) w = k * PAGE_SIZE
         else paging_get_phys_address m' (kd * PAGE_SIZE) w = paging_get_phys_address m (kd * PAGE_SIZE) w"
    using parts [THEN conjunct2, THEN conjunct1, rule_format, OF w] unfolding g [OF w] .
next
  fix w w' assume A: "paging_is_aligned w \<and> paging_is_aligned w' \<and> (w - v) div PAGE_SIZE < c \<and> (w' - v) div PAGE_SIZE < c
        \<and> paging_get_phys_address m' (kd * PAGE_SIZE) w = paging_get_phys_address m' (kd * PAGE_SIZE) w'"
  with g have "paging_get_phys_address m1 (kd * PAGE_SIZE) w = paging_get_phys_address m1 (kd * PAGE_SIZE) w'" by metis
  with A show "w = w'" using F [unfolded fresh_frames_def, THEN conjunct2, THEN conjunct2] by blast
qed

text \<open>The header of the first chunk, stored through the translation of the first page of the heap.\<close>

definition first_chunk :: "addr \<Rightarrow> u32 \<Rightarrow> mem \<Rightarrow> mem" where
  "first_chunk p num m = set_size p (num * PAGE_SIZE - sizeof_memory_chunk)
     (set_next p NULL (set_prev p NULL (set_allocated p False m)))"

lemma heap_init_stores:
  assumes mmu: "mmu_walks mmu" and wf: "directory_wf m1 kd K" and cr3: "cr3 ps = kd * PAGE_SIZE"
    and virt: "paging_is_aligned virt" and num: "1 \<le> num"
    and maps: "map_heap_pages m pa (kd * PAGE_SIZE) virt num 0 = Ret (pa', m1)"
    and g: "paging_get_phys_address m1 (kd * PAGE_SIZE) virt = k * PAGE_SIZE" and k: "k \<noteq> 0" "k < 2 ^ 20" "k \<noteq> kd"
      "\<forall>d < 1024. K d \<noteq> k"
  defines "m' \<equiv> first_chunk (k * PAGE_SIZE) num m1"
  shows "heap_init mmu ps m pa h virt num (kd * PAGE_SIZE) =
      Ret (EOK, \<lparr>virtual_address = virt, heap_size = num * PAGE_SIZE\<rparr>, pa', m')"
    and "same_off_page k m1 m'" and "\<And>x. x < 16 \<Longrightarrow> m' (mmu m' (kd * PAGE_SIZE) (virt + x)) = m' (k * PAGE_SIZE + x)"
proof -
  note V = vstore_frame [OF mmu wf virt g k]
  note V32 = vstore32_frame [OF mmu wf virt g k]
  have lt: "(12 :: u32) < PAGE_SIZE" "(8 :: u32) < 16" "(4 :: u32) < 16" "(0 :: u32) < 16" by (simp_all add: PAGE_SIZE_def)
  have refl: "same_off_page k m1 m1" by (simp add: same_off_page_def)
  note S1 = V(2,3) [OF refl lt(1), of 0]
  note S2 = V32 [OF S1(2) lt(3), of NULL]
  note S3 = V32 [OF S2(2) lt(4), of NULL]
  note S4 = V32 [OF S3(2) lt(2), of "num * PAGE_SIZE - sizeof_memory_chunk"]
  show off: "same_off_page k m1 m'"
    using S4(2) by (simp add: m'_def first_chunk_def set_size_def set_next_def set_prev_def set_allocated_def)
  show "heap_init mmu ps m pa h virt num (kd * PAGE_SIZE) =
      Ret (EOK, \<lparr>virtual_address = virt, heap_size = num * PAGE_SIZE\<rparr>, pa', m')"
    using num maps S1(1) S2(1) S3(1) S4(1)
    by (simp add: heap_init_def Let_def cr3 m'_def first_chunk_def set_size_def set_next_def set_prev_def set_allocated_def
        not_less word_less_nat_alt word_le_nat_alt)
  show "m' (mmu m' (kd * PAGE_SIZE) (virt + x)) = m' (k * PAGE_SIZE + x)" if "x < 16" for x
    using V(1) [OF off, of x] that by (simp add: PAGE_SIZE_def word_less_nat_alt)
qed

lemma first_chunk_heap:
  assumes view: "\<And>x. x < 16 \<Longrightarrow> view (virt + x) = first_chunk p num m (p + x)"
    and virt: "virt \<noteq> 0" "unat virt + unat num * 4096 \<le> 2 ^ 32" and num: "1 \<le> num"
  shows "heap_inv \<lparr>virtual_address = virt, heap_size = num * PAGE_SIZE\<rparr> view {}"
proof -
  have fields: "chunk_next view virt = NULL" "chunk_prev view virt = NULL" "\<not> chunk_allocated view virt"
    "chunk_size view virt = num * PAGE_SIZE - sizeof_memory_chunk"
    using header_view [of view virt "first_chunk p num m" p, OF view] by (simp_all add: first_chunk_def mem_simps)
  have "num < 2 ^ 20" using virt by (simp add: word_less_nat_alt word_unat_eq_iff)
  then have "unat (num * PAGE_SIZE) = unat num * 4096"
    by (simp add: PAGE_SIZE_def unat_word_ariths word_less_nat_alt)
  moreover have "1 \<le> unat num" using num by (simp add: word_le_nat_alt)
  ultimately have size: "(of_nat (unat num * 4096 - 16) :: u32) = num * PAGE_SIZE - sizeof_memory_chunk"
    by (simp add: of_nat_diff PAGE_SIZE_def sizeof_memory_chunk_def)
  have "heap_wf view (unat virt) [(unat num * 4096 - 16, False)]"
    using virt \<open>1 \<le> unat num\<close> by (simp add: heap_wf_def fields size unat_gt_0)
  then show ?thesis by (auto simp: heap_inv_def intro!: exI [of _ "[(unat num * 4096 - 16, False)]"])
qed

text \<open>
  C7. \<open>heap_init\<close> with enough free pages: every page of the heap gets a frame of its own that was
  free before and is not free after, all other translations stay, and the memory seen through
  the heap's virtual addresses is a well-formed heap with no live allocation.
\<close>

theorem heap_init_heap:
  assumes mmu: "mmu_walks mmu" and T: "tables_reserved m pa kd K" and cr3: "cr3 ps = kd * PAGE_SIZE"
    and virt: "paging_is_aligned virt" "virt \<noteq> 0" "unat virt + unat num * 4096 \<le> 2 ^ 32"
    and num: "1 \<le> num" "unat num \<le> card (free_above m pa)" and free: "0 \<notin> free_above m pa" "\<forall>k \<in> free_above m pa. off_bitmap pa k"
  shows "\<exists>h' pa' m'. heap_init mmu ps m pa h virt num (kd * PAGE_SIZE) = Ret (EOK, h', pa', m')
    \<and> virtual_address h' = virt
    \<and> heap_inv h' (\<lambda>a. m' (mmu m' (kd * PAGE_SIZE) a)) {}
    \<and> fresh_frames m pa m' pa' kd virt num"
proof -
  have "num \<le> 2 ^ 20" using virt by (simp add: word_less_nat_alt word_le_nat_alt word_unat_eq_iff)
  from map_heap_pages_fresh [OF T virt(1) _ this, of 0] num(2) obtain pa' m1 where M:
    "map_heap_pages m pa (kd * PAGE_SIZE) virt num 0 = Ret (pa', m1)"
    "tables_reserved m1 pa' kd K" "fresh_frames m pa m1 pa' kd virt num"
    "off_bitmap pa' = off_bitmap pa" by auto
  have wf: "directory_wf m1 kd K" using M(2) by (simp add: tables_reserved_def)
  have "(virt - virt) div PAGE_SIZE < num" using num(1) by (simp add: word_less_nat_alt word_le_nat_alt)
  with M(3) virt(1) obtain k where k: "k \<in> free_above m pa" "k \<notin> free_above m1 pa'"
    and g: "paging_get_phys_address m1 (kd * PAGE_SIZE) virt = k * PAGE_SIZE"
    unfolding fresh_frames_def by (metis DiffE)
  have kp: "k \<noteq> 0" "k < 2 ^ 20" and kt: "k \<noteq> kd" "\<forall>d < 1024. K d \<noteq> k"
    using k(1) free free_above_page [OF k(1)] T by (auto simp: tables_reserved_def)
  define m' where "m' = first_chunk (k * PAGE_SIZE) num m1"
  note S = heap_init_stores [OF mmu wf cr3 virt(1) num(1) M(1) g kp kt, folded m'_def]
  note heap = first_chunk_heap [OF S(3) [unfolded m'_def] virt(2,3) num(1), folded m'_def]
  have "m' a = m1 a" if "a div PAGE_SIZE = kd \<or> (\<exists>d < 1024. a div PAGE_SIZE = K d)" for a
    using that S(2) kt unfolding same_off_page_def by metis
  note g' = directory_wf_cong(2) [OF wf this]
  have "free_above m' pa' = free_above m1 pa'"
    using free(2) k(1) M(4) by (intro free_above_off_page [OF S(2)]) simp
  from fresh_frames_cong [OF M(3) this g'] heap S(1) show ?thesis by simp
qed

text \<open>The translation computed from the kernel's own walk.\<close>

definition walk :: "mem \<Rightarrow> addr \<Rightarrow> addr \<Rightarrow> addr" where
  "walk m dir a = paging_get_phys_address m dir (a - a mod PAGE_SIZE) + a mod PAGE_SIZE"

lemma mmu_walks_walk: "mmu_walks walk"
proof -
  have "walk m dir (v + x) = paging_get_phys_address m dir v + x" if v: "paging_is_aligned v" and x: "x < PAGE_SIZE" for m dir v x
  proof -
    have "v div PAGE_SIZE * PAGE_SIZE = v" using v by (intro page_address) (simp add: paging_is_aligned_def)
    moreover have "v div PAGE_SIZE < 2 ^ 20"
      by (simp add: PAGE_SIZE_def word_less_nat_alt unat_div less_mult_imp_div_less)
    ultimately have "unat (v + x) = unat (v div PAGE_SIZE) * 4096 + unat x"
      using unat_page_offset [of "v div PAGE_SIZE" x] x by (simp add: PAGE_SIZE_def)
    then have "(v + x) mod PAGE_SIZE = x"
      using x by (simp add: word_unat_eq_iff unat_mod PAGE_SIZE_def word_less_nat_alt)
    then show ?thesis by (simp add: walk_def)
  qed
  then show ?thesis by (simp add: mmu_walks_def)
qed

lemma heap_init_heap_witness:
  "\<exists>ps m pa kd h' pa' m'. heap_init walk ps m pa \<lparr>virtual_address = 0, heap_size = 0\<rparr> 0xFFFC0000 0x40 (kd * PAGE_SIZE) = Ret (EOK, h', pa', m')
    \<and> heap_inv h' (\<lambda>a. m' (walk m' (kd * PAGE_SIZE) a)) {}"
proof -
  obtain kd K pa m where T: "tables_reserved m pa kd K" "0 \<notin> free_above m pa" "0x40 \<le> card (free_above m pa)"
    "\<forall>k \<in> free_above m pa. off_bitmap pa k" by (rule small_directory)
  let ?ps = "\<lparr>cr0 = 0x80000000, cr3 = kd * PAGE_SIZE, current_directory = kd * PAGE_SIZE\<rparr>"
  have cond: "cr3 ?ps = kd * PAGE_SIZE" "paging_is_aligned 0xFFFC0000" "(0xFFFC0000 :: addr) \<noteq> 0"
    "unat (0xFFFC0000 :: addr) + unat (0x40 :: u32) * 4096 \<le> 2 ^ 32" "(1 :: u32) \<le> 0x40"
    "unat (0x40 :: u32) \<le> card (free_above m pa)"
    using T(3) by (simp_all add: paging_is_aligned_def PAGE_SIZE_def)
  from heap_init_heap [OF mmu_walks_walk T(1) cond T(2,4)] show ?thesis by blast
qed

end
