(* ===== verification/Char_Device.thy ===== *)
theory Char_Device
  imports CString
begin

text \<open>
  \<^verbatim>\<open>kernel/src/dev/char_device.c\<close> and \<^verbatim>\<open>kernel/src/dev/tty/ega/ega_driver.c\<close>: the character
  device interface and the EGA text mode driver behind it. A device is a record of its function
  pointers and its private data; each function takes the private data, as the C functions take
  it from the device. The locale \<open>text_device\<close> states what the terminal relies on; it is
  interpreted on the EGA driver for an 80 by 25 screen.
\<close>

section \<open>The interface\<close>

record char_device =
  get_width_fn :: "addr \<Rightarrow> mem \<Rightarrow> u32"
  get_height_fn :: "addr \<Rightarrow> mem \<Rightarrow> u32"
  write_char_fn :: "addr \<Rightarrow> u32 \<Rightarrow> u32 \<Rightarrow> u8 \<Rightarrow> u8 \<Rightarrow> mem \<Rightarrow> u32 \<times> mem"
  scroll_line_fn :: "addr \<Rightarrow> mem \<Rightarrow> (u32 \<times> mem) option"
  cdev_private_data :: addr

definition MAX_CHAR_DEVICES :: nat where "MAX_CHAR_DEVICES = 10"

text \<open>The registered devices; registering an eleventh one writes behind the array.\<close>

definition register_char_device :: "char_device list \<Rightarrow> char_device \<Rightarrow> char_device list outcome" where
  "register_char_device char_devices cdev =
     (if length char_devices < MAX_CHAR_DEVICES then Ret (char_devices @ [cdev]) else Fault)"

definition get_num_char_devices :: "char_device list \<Rightarrow> nat" where
  "get_num_char_devices char_devices = length char_devices"

definition char_device_get_width :: "char_device \<Rightarrow> mem \<Rightarrow> u32" where
  "char_device_get_width cdev = get_width_fn cdev (cdev_private_data cdev)"

definition char_device_get_height :: "char_device \<Rightarrow> mem \<Rightarrow> u32" where
  "char_device_get_height cdev = get_height_fn cdev (cdev_private_data cdev)"

definition char_device_write_char ::
  "char_device \<Rightarrow> u32 \<Rightarrow> u32 \<Rightarrow> u8 \<Rightarrow> u8 \<Rightarrow> mem \<Rightarrow> u32 \<times> mem" where
  "char_device_write_char cdev x y color c = write_char_fn cdev (cdev_private_data cdev) x y color c"

definition char_device_scroll_line :: "char_device \<Rightarrow> mem \<Rightarrow> (u32 \<times> mem) option" where
  "char_device_scroll_line cdev = scroll_line_fn cdev (cdev_private_data cdev)"

section \<open>The EGA driver\<close>

text \<open>
  The private data is the address of the bootloader's framebuffer tag, whose width and height
  are the words at offsets 20 and 24.
\<close>

definition ega_driver_get_width :: "addr \<Rightarrow> mem \<Rightarrow> u32" where
  "ega_driver_get_width framebuffer m = load32 m (framebuffer + 20)"

definition ega_driver_get_height :: "addr \<Rightarrow> mem \<Rightarrow> u32" where
  "ega_driver_get_height framebuffer m = load32 m (framebuffer + 24)"

definition ega_driver_write_tty ::
  "addr \<Rightarrow> u32 \<Rightarrow> u32 \<Rightarrow> u8 \<Rightarrow> u8 \<Rightarrow> mem \<Rightarrow> u32 \<times> mem" where
  "ega_driver_write_tty framebuffer x y color c m =
     (let offset = 2 * (y * ega_driver_get_width framebuffer m + x)
      in (EOK, m(0xB8000 + offset := c, 0xB8000 + (offset + 1) := color)))"

text \<open>The loop reads the height again in every round.\<close>

partial_function (option) scroll_lines :: "addr \<Rightarrow> mem \<Rightarrow> u32 \<Rightarrow> mem option" where
  "scroll_lines framebuffer m i =
     (if i < ega_driver_get_height framebuffer m - 1
      then scroll_lines framebuffer
             (memcpy m (0xB8000 + 2 * (i * 80)) (0xB8000 + 2 * ((i + 1) * 80)) 160) (i + 1)
      else Some m)"

primrec clear_cells :: "addr \<Rightarrow> mem \<Rightarrow> nat \<Rightarrow> mem" where
  "clear_cells framebuffer m 0 = m"
| "clear_cells framebuffer m (Suc i) =
     (let m = clear_cells framebuffer m i
      in store16 m (0xB8000 + 2 * ((ega_driver_get_height framebuffer m - 1) * 80 + of_nat i)) 0x0700)"

definition ega_driver_scroll_line :: "addr \<Rightarrow> mem \<Rightarrow> (u32 \<times> mem) option" where
  "ega_driver_scroll_line framebuffer m =
     map_option (\<lambda>m. (EOK, clear_cells framebuffer m 80)) (scroll_lines framebuffer m 0)"

definition ega_driver_init :: "addr \<Rightarrow> u32 \<times> char_device" where
  "ega_driver_init framebuffer =
     (EOK, \<lparr>get_width_fn = ega_driver_get_width, get_height_fn = ega_driver_get_height,
            write_char_fn = ega_driver_write_tty, scroll_line_fn = ega_driver_scroll_line,
            cdev_private_data = framebuffer\<rparr>)"

section \<open>The contract of a text device\<close>

text \<open>
  \<open>ok m\<close>: the device is usable in memory \<open>m\<close>; \<open>own\<close>: the addresses it writes; \<open>cell m x y\<close>: the
  character and colour shown at column \<open>x\<close> of row \<open>y\<close>.
\<close>

locale text_device =
  fixes dev :: char_device
    and w h :: u32
    and ok :: "mem \<Rightarrow> bool"
    and own :: "addr \<Rightarrow> bool"
    and cell :: "mem \<Rightarrow> u32 \<Rightarrow> u32 \<Rightarrow> u8 \<times> u8"
    and blank :: "u8 \<times> u8"
  assumes size: "0 < w" "0 < h"
    and width: "ok m \<Longrightarrow> char_device_get_width dev m = w"
    and height: "ok m \<Longrightarrow> char_device_get_height dev m = h"
    and write_cell: "ok m \<Longrightarrow> x < w \<Longrightarrow> y < h \<Longrightarrow>
      \<exists>m'. char_device_write_char dev x y color c m = (EOK, m') \<and> ok m' \<and> (\<forall>a. \<not> own a \<longrightarrow> m' a = m a)
        \<and> (\<forall>x' < w. \<forall>y' < h. cell m' x' y' = (if x' = x \<and> y' = y then (c, color) else cell m x' y'))"
    and scroll_up: "ok m \<Longrightarrow>
      \<exists>m'. char_device_scroll_line dev m = Some (EOK, m') \<and> ok m' \<and> (\<forall>a. \<not> own a \<longrightarrow> m' a = m a)
        \<and> (\<forall>x < w. \<forall>y < h. cell m' x y = (if y + 1 < h then cell m x (y + 1) else blank))"

section \<open>The EGA driver keeps the contract\<close>

definition ega_own :: "addr \<Rightarrow> bool" where
  "ega_own a \<longleftrightarrow> in_region 0xB8000 4000 a"

definition ega_ok :: "addr \<Rightarrow> mem \<Rightarrow> bool" where
  "ega_ok framebuffer m \<longleftrightarrow> ega_driver_get_width framebuffer m = 80 \<and> ega_driver_get_height framebuffer m = 25
     \<and> disjoint_regions (framebuffer + 20) 8 0xB8000 4000"

definition ega_cell :: "mem \<Rightarrow> u32 \<Rightarrow> u32 \<Rightarrow> u8 \<times> u8" where
  "ega_cell m x y = (m (0xB8000 + 2 * (y * 80 + x)), m (0xB8000 + (2 * (y * 80 + x) + 1)))"

lemma ega_size_outside:
  assumes "disjoint_regions (fb + 20) 8 p n" "\<And>a. \<not> in_region p n a \<Longrightarrow> m' a = m a"
  shows "ega_driver_get_width fb m' = ega_driver_get_width fb m"
    and "ega_driver_get_height fb m' = ega_driver_get_height fb m"
proof -
  have "in_region (fb + 20) 8 a" if "in_region (fb + 20) 4 a \<or> in_region (fb + 24) 4 a" for a
  proof -
    have "fb + 24 = (fb + 20) + of_nat 4" by simp
    with that in_region_add [of "fb + 20" 4 4 a] show ?thesis by (auto simp: in_region_def)
  qed
  then have "m' a = m a" if "in_region (fb + 20) 4 a \<or> in_region (fb + 24) 4 a" for a
    using that assms by (auto simp: disjoint_regions_def)
  then show "ega_driver_get_width fb m' = ega_driver_get_width fb m"
    "ega_driver_get_height fb m' = ega_driver_get_height fb m"
    unfolding ega_driver_get_width_def ega_driver_get_height_def by (auto intro: load32_cong)
qed

lemma ega_ok_outside: "ega_ok fb m \<Longrightarrow> (\<And>a. \<not> ega_own a \<Longrightarrow> m' a = m a) \<Longrightarrow> ega_ok fb m'"
  using ega_size_outside [of fb "0xB8000" 4000 m' m] by (simp add: ega_ok_def ega_own_def)

text \<open>Screen positions as byte offsets in the video memory.\<close>

lemma unat_cell:
  assumes "x < 80" "y < 25"
  shows "unat (2 * (y * 80 + x) :: u32) = 160 * unat y + 2 * unat x"
    and "unat (2 * (y * 80 + x) + 1 :: u32) = 160 * unat y + 2 * unat x + 1"
proof -
  have b: "unat x < 80" "unat y < 25" using assms by (simp_all add: word_less_nat_alt)
  then have "unat (y * 80 + x) = unat y * 80 + unat x" by (simp add: unat_word_ariths)
  then show "unat (2 * (y * 80 + x) :: u32) = 160 * unat y + 2 * unat x"
    using b by (simp add: unat_word_ariths)
  with b show "unat (2 * (y * 80 + x) + 1 :: u32) = 160 * unat y + 2 * unat x + 1"
    by (simp add: unat_word_ariths)
qed

lemma video_offset: "(0xB8000 + a = 0xB8000 + b) \<longleftrightarrow> unat a = unat b" for a b :: u32
  by (simp add: word_unat_eq_iff [symmetric])

lemma ega_own_offset: "ega_own (0xB8000 + a) \<longleftrightarrow> unat a < 4000"
  by (simp add: ega_own_def in_region_def)

lemma memcpy_row:
  "memcpy m (0xB8000 + 2 * (i * 80)) (0xB8000 + 2 * ((i + 1) * 80)) 160 a =
     (if a - (0xB8000 + 2 * (i * 80)) < 160 then m (a + 160) else m a)"
proof -
  have "(0xB8000 + 2 * (i * 80)) - (0xB8000 + 2 * ((i + 1) * 80)) = (0 :: u32) - 160"
    by (simp add: algebra_simps)
  moreover have "(160 :: u32) \<le> 0 - 160"
    using unat_sub_wrap [of 0 160] by (simp only: word_le_nat_alt) simp
  ultimately have "(160 :: u32) \<le> (0xB8000 + 2 * (i * 80)) - (0xB8000 + 2 * ((i + 1) * 80))" by simp
  then show ?thesis by (subst memcpy_eq) (auto simp: algebra_simps)
qed

lemma scroll_lines_result:
  assumes "ega_ok fb m" "i \<le> 24"
  shows "\<exists>m'. scroll_lines fb m i = Some m' \<and>
    (\<forall>a. m' a = (if 160 * unat i \<le> unat (a - 0xB8000) \<and> unat (a - 0xB8000) < 3840 then m (a + 160) else m a))"
  using assms
proof (induction "24 - unat i" arbitrary: m i rule: less_induct)
  case less
  show ?case
  proof (cases "i < 24")
    case False
    with less.prems have "i = 24" by auto
    with less.prems show ?thesis by (auto simp: scroll_lines.simps [of fb m] ega_ok_def)
  next
    case True
    let ?m1 = "memcpy m (0xB8000 + 2 * (i * 80)) (0xB8000 + 2 * ((i + 1) * 80)) 160"
    have i: "unat i < 24" "unat (i + 1) = unat i + 1" using True unat_plus_one [OF True] by (simp_all add: word_less_nat_alt)
    have ri: "unat (160 * i) = 160 * unat i" using i by (simp add: unat_word_ariths)
    have row: "a - (0xB8000 + 2 * (i * 80)) < 160 \<longleftrightarrow> 160 * unat i \<le> unat (a - 0xB8000) \<and> unat (a - 0xB8000) < 160 * unat i + 160" for a
    proof -
      have "in_region (0xB8000 + 2 * (i * 80)) 160 a \<longleftrightarrow> in_region (2 * (i * 80)) 160 (a - 0xB8000)"
        by (simp add: in_region_def algebra_simps)
      also have "\<dots> \<longleftrightarrow> 160 * unat i \<le> unat (a - 0xB8000) \<and> unat (a - 0xB8000) < 160 * unat i + 160"
        using i by (subst in_region_nat) (simp_all add: ri)
      finally show ?thesis by (simp add: in_region_def word_less_nat_alt)
    qed
    have m1: "?m1 a = (if 160 * unat i \<le> unat (a - 0xB8000) \<and> unat (a - 0xB8000) < 160 * unat i + 160 then m (a + 160) else m a)" for a
      by (simp only: memcpy_row row)
    have "ega_ok fb ?m1"
    proof (rule ega_ok_outside [OF less.prems(1)])
      show "?m1 a = m a" if "\<not> ega_own a" for a
        using that i unfolding m1 by (simp add: ega_own_def in_region_def)
    qed
    moreover have "24 - unat (i + 1) < 24 - unat i" "i + 1 \<le> 24" using i inc_le [OF True] by simp_all
    ultimately obtain m' where m': "scroll_lines fb ?m1 (i + 1) = Some m'"
      "\<And>a. m' a = (if 160 * unat (i + 1) \<le> unat (a - 0xB8000) \<and> unat (a - 0xB8000) < 3840 then ?m1 (a + 160) else ?m1 a)"
      using less.hyps [of "i + 1" ?m1] by blast
    have "scroll_lines fb m i = Some m'"
      using True less.prems(1) m'(1) by (simp add: scroll_lines.simps [of fb m] ega_ok_def)
    moreover have "m' a = (if 160 * unat i \<le> unat (a - 0xB8000) \<and> unat (a - 0xB8000) < 3840 then m (a + 160) else m a)" for a
    proof -
      have "unat (a + 160 - 0xB8000) = unat (a - 0xB8000) + 160" if "unat (a - 0xB8000) < 3840"
      proof -
        define x where "x = a - 0xB8000"
        have "unat (x + 160) = unat x + 160" using that by (simp add: x_def [symmetric] unat_word_ariths)
        moreover have "a + 160 - 0xB8000 = x + 160" by (simp add: x_def)
        ultimately show ?thesis by (simp only: x_def [symmetric])
      qed
      then show ?thesis unfolding m'(2) m1 i(2) using i(1) by auto
    qed
    ultimately show ?thesis by blast
  qed
qed


lemma clear_cells_result:
  assumes "ega_ok fb m" "n \<le> 80"
  shows "clear_cells fb m n a =
    (if 3840 \<le> unat (a - 0xB8000) \<and> unat (a - 0xB8000) < 3840 + 2 * n
     then (if even (unat (a - 0xB8000)) then 0 else 7) else m a)"
  using assms(2)
proof (induction n arbitrary: a)
  case (Suc n)
  have "ega_ok fb (clear_cells fb m n)"
  proof (rule ega_ok_outside [OF assms(1)])
    show "clear_cells fb m n a = m a" if "\<not> ega_own a" for a
      using that Suc by (simp add: ega_own_def in_region_def)
  qed
  then have h: "ega_driver_get_height fb (clear_cells fb m n) = 25" by (simp add: ega_ok_def)
  let ?p = "0xB8000 + 2 * ((25 - 1) * 80 + of_nat n) :: addr"
  have n: "n < 80" using Suc.prems by simp
  define x where "x = a - 0xB8000"
  have off: "unat (3840 + 2 * of_nat n :: u32) = 3840 + 2 * n" "unat (3841 + 2 * of_nat n :: u32) = 3841 + 2 * n"
    using n by (simp_all add: unat_word_ariths unat_of_nat32)
  have at: "a = ?p \<longleftrightarrow> unat x = 3840 + 2 * n" "a = ?p + 1 \<longleftrightarrow> unat x = 3841 + 2 * n"
  proof -
    have "a = ?p \<longleftrightarrow> x = 3840 + 2 * of_nat n" "a = ?p + 1 \<longleftrightarrow> x = 3841 + 2 * of_nat n"
      by (auto simp: x_def algebra_simps)
    then show "a = ?p \<longleftrightarrow> unat x = 3840 + 2 * n" "a = ?p + 1 \<longleftrightarrow> unat x = 3841 + 2 * n"
      by (simp_all add: word_unat_eq_iff off)
  qed
  have store: "clear_cells fb m (Suc n) a =
      (if unat x = 3841 + 2 * n then 7 else if unat x = 3840 + 2 * n then 0 else clear_cells fb m n a)"
    unfolding clear_cells.simps Let_def h store16_def fun_upd_apply at by simp
  show ?case
    unfolding store x_def [symmetric] using Suc.IH [of a] n
    by (auto simp: x_def [symmetric])
qed auto

lemma ega_scroll:
  assumes ok: "ega_ok fb m"
  obtains m' where "ega_driver_scroll_line fb m = Some (EOK, m')" "\<And>a. \<not> ega_own a \<Longrightarrow> m' a = m a"
    "\<And>x y. x < 80 \<Longrightarrow> y < 25 \<Longrightarrow> ega_cell m' x y = (if y + 1 < 25 then ega_cell m x (y + 1) else (0, 7))"
proof -
  from scroll_lines_result [OF ok, of 0] obtain m1 where m1: "scroll_lines fb m 0 = Some m1"
    "\<And>a. m1 a = (if unat (a - 0xB8000) < 3840 then m (a + 160) else m a)" by auto
  have ok1: "ega_ok fb m1"
  proof (rule ega_ok_outside [OF ok])
    show "m1 a = m a" if "\<not> ega_own a" for a using that by (simp add: m1(2) ega_own_def in_region_def)
  qed
  let ?m' = "clear_cells fb m1 80"
  have m': "?m' (0xB8000 + k) = (if unat k < 3840 then m (0xB8000 + k + 160)
      else if unat k < 4000 then (if even (unat k) then 0 else 7) else m (0xB8000 + k))" for k :: u32
    using clear_cells_result [OF ok1, of 80] by (simp add: m1(2))
  show ?thesis
  proof (rule that)
    show "ega_driver_scroll_line fb m = Some (EOK, ?m')" by (simp add: ega_driver_scroll_line_def m1(1))
    show "?m' a = m a" if "\<not> ega_own a" for a
      using that m' [of "a - 0xB8000"] by (simp add: ega_own_def in_region_def)
    fix x y :: u32 assume xy: "x < 80" "y < 25"
    then have b: "unat x < 80" "unat y < 25" by (simp_all add: word_less_nat_alt)
    note off = unat_cell [OF xy]
    show "ega_cell ?m' x y = (if y + 1 < 25 then ega_cell m x (y + 1) else (0, 7))"
    proof (cases "unat y = 24")
      case True
      then have "y = 24" by (simp add: word_unat_eq_iff)
      then have "\<not> y + 1 < 25" by simp
      then show ?thesis using b True unfolding ega_cell_def m' off by simp
    next
      case False
      then have "y + 1 < 25" using b by (simp add: word_less_nat_alt unat_word_ariths)
      moreover have "160 * unat y + 2 * unat x + 1 < 3840" using b False by linarith
      ultimately show ?thesis unfolding ega_cell_def m' off by (simp add: algebra_simps)
    qed
  qed
qed

lemma ega_write:
  assumes ok: "ega_ok fb m" and xy: "x < 80" "y < 25"
  obtains m' where "ega_driver_write_tty fb x y color c m = (EOK, m')" "\<And>a. \<not> ega_own a \<Longrightarrow> m' a = m a"
    "\<And>x' y'. x' < 80 \<Longrightarrow> y' < 25 \<Longrightarrow> ega_cell m' x' y' = (if x' = x \<and> y' = y then (c, color) else ega_cell m x' y')"
proof -
  let ?o = "2 * (y * 80 + x)"
  let ?m' = "m(0xB8000 + ?o := c, 0xB8000 + (?o + 1) := color)"
  note off = unat_cell [OF xy]
  have b: "unat x < 80" "unat y < 25" using xy by (simp_all add: word_less_nat_alt)
  show ?thesis
  proof (rule that)
    show "ega_driver_write_tty fb x y color c m = (EOK, ?m')"
      using ok by (simp add: ega_driver_write_tty_def ega_ok_def Let_def)
    show "?m' a = m a" if "\<not> ega_own a" for a
    proof -
      have "ega_own (0xB8000 + ?o)" "ega_own (0xB8000 + (?o + 1))"
        unfolding ega_own_offset off using b by linarith+
      with that show ?thesis by auto
    qed
    fix x' y' :: u32 assume xy': "x' < 80" "y' < 25"
    then have b': "unat x' < 80" "unat y' < 25" by (simp_all add: word_less_nat_alt)
    note off' = unat_cell [OF xy']
    have same: "160 * unat y' + 2 * unat x' = 160 * unat y + 2 * unat x \<longleftrightarrow> x' = x \<and> y' = y"
    proof
      assume "160 * unat y' + 2 * unat x' = 160 * unat y + 2 * unat x"
      then have eq: "80 * unat y' + unat x' = 80 * unat y + unat x" by simp
      from arg_cong [OF eq, of "\<lambda>n. n div 80"] b b' have "unat y' = unat y" by simp
      with eq show "x' = x \<and> y' = y" by (simp add: word_unat_eq_iff)
    qed simp
    have odd: "160 * unat y' + 2 * unat x' \<noteq> 160 * unat y + 2 * unat x + 1"
      "160 * unat y' + 2 * unat x' + 1 \<noteq> 160 * unat y + 2 * unat x"
    proof -
      have "even (160 * unat y' + 2 * unat x')" "even (160 * unat y + 2 * unat x)" by simp_all
      then show "160 * unat y' + 2 * unat x' \<noteq> 160 * unat y + 2 * unat x + 1"
        "160 * unat y' + 2 * unat x' + 1 \<noteq> 160 * unat y + 2 * unat x" by (metis even_plus_one_iff)+
    qed
    show "ega_cell ?m' x' y' = (if x' = x \<and> y' = y then (c, color) else ega_cell m x' y')"
    proof -
      define n n' where "n = 160 * unat y + 2 * unat x" and "n' = 160 * unat y' + 2 * unat x'"
      note idx = off [folded n_def] off' [folded n'_def]
      have "n' = n \<longleftrightarrow> x' = x \<and> y' = y" "n' \<noteq> n + 1" "n' + 1 \<noteq> n"
        using same odd by (simp_all only: n_def n'_def simp_thms)
      then show ?thesis unfolding ega_cell_def fun_upd_apply video_offset idx by auto
    qed
  qed
qed

interpretation ega: text_device "snd (ega_driver_init fb)" 80 25 "ega_ok fb" ega_own ega_cell "(0, 7)" for fb
proof
  fix m assume ok: "ega_ok fb m"
  then show "char_device_get_width (snd (ega_driver_init fb)) m = 80"
    "char_device_get_height (snd (ega_driver_init fb)) m = 25"
    by (simp_all add: char_device_get_width_def char_device_get_height_def ega_driver_init_def ega_ok_def)
  show "\<exists>m'. char_device_scroll_line (snd (ega_driver_init fb)) m = Some (EOK, m') \<and> ega_ok fb m' \<and> (\<forall>a. \<not> ega_own a \<longrightarrow> m' a = m a)
        \<and> (\<forall>x < 80. \<forall>y < 25. ega_cell m' x y = (if y + 1 < 25 then ega_cell m x (y + 1) else (0, 7)))"
    using ega_scroll [OF ok] ega_ok_outside [OF ok]
    by (simp add: char_device_scroll_line_def ega_driver_init_def) metis
  show "\<exists>m'. char_device_write_char (snd (ega_driver_init fb)) x y color c m = (EOK, m') \<and> ega_ok fb m' \<and> (\<forall>a. \<not> ega_own a \<longrightarrow> m' a = m a)
        \<and> (\<forall>x' < 80. \<forall>y' < 25. ega_cell m' x' y' = (if x' = x \<and> y' = y then (c, color) else ega_cell m x' y'))"
    if "x < 80" "y < 25" for x y color c
    using ega_write [OF ok that] ega_ok_outside [OF ok]
    by (simp add: char_device_write_char_def ega_driver_init_def) metis
qed simp_all

end
