(* ===== verification/Keycode.thy ===== *)
theory Keycode
  imports Memory
begin

text \<open>
  The key codes of \<^verbatim>\<open>kernel/include/kernel/dev/input_device.h\<close>: the scan codes of the keys the kernel has
  names for, when the key is pressed and when it is released.
\<close>

datatype (plugins only: code) KEYCODE =
    NULL_KEY
  | Q_PRESSED | Q_RELEASED | W_PRESSED | W_RELEASED | E_PRESSED | E_RELEASED | R_PRESSED | R_RELEASED
  | T_PRESSED | T_RELEASED | Z_PRESSED | Z_RELEASED | U_PRESSED | U_RELEASED | I_PRESSED | I_RELEASED
  | O_PRESSED | O_RELEASED | P_PRESSED | P_RELEASED | A_PRESSED | A_RELEASED | S_PRESSED | S_RELEASED
  | D_PRESSED | D_RELEASED | F_PRESSED | F_RELEASED | G_PRESSED | G_RELEASED | H_PRESSED | H_RELEASED
  | J_PRESSED | J_RELEASED | K_PRESSED | K_RELEASED | L_PRESSED | L_RELEASED | Y_PRESSED | Y_RELEASED
  | X_PRESSED | X_RELEASED | C_PRESSED | C_RELEASED | V_PRESSED | V_RELEASED | B_PRESSED | B_RELEASED
  | N_PRESSED | N_RELEASED | M_PRESSED | M_RELEASED
  | ZERO_PRESSED | ONE_PRESSED | NINE_PRESSED | POINT_PRESSED | POINT_RELEASED | SLASH_RELEASED
  | BACKSPACE_PRESSED | BACKSPACE_RELEASED | SPACE_PRESSED | SPACE_RELEASED | ENTER_PRESSED | ENTER_RELEASED

primrec key_value :: "KEYCODE \<Rightarrow> u32" where
  "key_value NULL_KEY = 0"
| "key_value Q_PRESSED = 0x10"
| "key_value Q_RELEASED = 0x90"
| "key_value W_PRESSED = 0x11"
| "key_value W_RELEASED = 0x91"
| "key_value E_PRESSED = 0x12"
| "key_value E_RELEASED = 0x92"
| "key_value R_PRESSED = 0x13"
| "key_value R_RELEASED = 0x93"
| "key_value T_PRESSED = 0x14"
| "key_value T_RELEASED = 0x94"
| "key_value Z_PRESSED = 0x15"
| "key_value Z_RELEASED = 0x95"
| "key_value U_PRESSED = 0x16"
| "key_value U_RELEASED = 0x96"
| "key_value I_PRESSED = 0x17"
| "key_value I_RELEASED = 0x97"
| "key_value O_PRESSED = 0x18"
| "key_value O_RELEASED = 0x98"
| "key_value P_PRESSED = 0x19"
| "key_value P_RELEASED = 0x99"
| "key_value A_PRESSED = 0x1E"
| "key_value A_RELEASED = 0x9E"
| "key_value S_PRESSED = 0x1F"
| "key_value S_RELEASED = 0x9F"
| "key_value D_PRESSED = 0x20"
| "key_value D_RELEASED = 0xA0"
| "key_value F_PRESSED = 0x21"
| "key_value F_RELEASED = 0xA1"
| "key_value G_PRESSED = 0x22"
| "key_value G_RELEASED = 0xA2"
| "key_value H_PRESSED = 0x23"
| "key_value H_RELEASED = 0xA3"
| "key_value J_PRESSED = 0x24"
| "key_value J_RELEASED = 0xA4"
| "key_value K_PRESSED = 0x25"
| "key_value K_RELEASED = 0xA5"
| "key_value L_PRESSED = 0x26"
| "key_value L_RELEASED = 0xA6"
| "key_value Y_PRESSED = 0x2C"
| "key_value Y_RELEASED = 0xAC"
| "key_value X_PRESSED = 0x2D"
| "key_value X_RELEASED = 0xAD"
| "key_value C_PRESSED = 0x2E"
| "key_value C_RELEASED = 0xAE"
| "key_value V_PRESSED = 0x2F"
| "key_value V_RELEASED = 0xAF"
| "key_value B_PRESSED = 0x30"
| "key_value B_RELEASED = 0xB0"
| "key_value N_PRESSED = 0x31"
| "key_value N_RELEASED = 0xB1"
| "key_value M_PRESSED = 0x32"
| "key_value M_RELEASED = 0xB2"
| "key_value ZERO_PRESSED = 0x29"
| "key_value ONE_PRESSED = 0x2"
| "key_value NINE_PRESSED = 0xA"
| "key_value POINT_PRESSED = 0x34"
| "key_value POINT_RELEASED = 0xB4"
| "key_value SLASH_RELEASED = 0xB5"
| "key_value BACKSPACE_PRESSED = 0xE"
| "key_value BACKSPACE_RELEASED = 0x8E"
| "key_value SPACE_PRESSED = 0x39"
| "key_value SPACE_RELEASED = 0xB9"
| "key_value ENTER_PRESSED = 0x1C"
| "key_value ENTER_RELEASED = 0x9C"

end
