(* ===== verification/Cast.thy ===== *)
theory Cast
  imports CString Keycode "HOL-Library.Signed_Division"
begin

text \<open>
  \<^verbatim>\<open>kernel/src/lib/cast.c\<close> and \<^verbatim>\<open>kernel/src/lib/ascii.c\<close>: conversion of machine integers to
  decimal and hexadecimal strings in memory, and of key codes to characters. The C file has one
  copy of each conversion per width; the loops are defined here once, for any word length, and
  each C function is their instance at its own type. The lemmas show that the written strings
  denote the converted value again.
\<close>

section \<open>Characters\<close>

definition ascii :: "string \<Rightarrow> u8 list" where
  "ascii s = map of_char s"

section \<open>Hexadecimal\<close>

definition hex_chars :: "u8 list" where "hex_chars = ascii ''0123456789ABCDEF''"

text \<open>The counter of the C loop runs from \<open>n - 1\<close> down to 0.\<close>

primrec hex_loop :: "mem \<Rightarrow> addr \<Rightarrow> 'a::len word \<Rightarrow> nat \<Rightarrow> mem \<times> addr" where
  "hex_loop m p val 0 = (m, p)"
| "hex_loop m p val (Suc i) =
     (let nibble = drop_bit (i * 4) val AND 0xF
      in hex_loop (m(p := hex_chars ! unat nibble)) (p + 1) val i)"

definition uint32_to_hex_string :: "mem \<Rightarrow> u32 \<Rightarrow> addr \<Rightarrow> mem" where
  "uint32_to_hex_string m val p = (let (m, p) = hex_loop m p val 8 in m(p := 0))"

definition uint16_to_hex_string :: "mem \<Rightarrow> u16 \<Rightarrow> addr \<Rightarrow> mem" where
  "uint16_to_hex_string m val p = (let (m, p) = hex_loop m p val 4 in m(p := 0))"

definition uint8_to_hex_string :: "mem \<Rightarrow> u8 \<Rightarrow> addr \<Rightarrow> mem" where
  "uint8_to_hex_string m val p = (let (m, p) = hex_loop m p val 2 in m(p := 0))"

section \<open>Decimal\<close>

definition digits :: "u8 list" where "digits = ascii ''0123456789''"

text \<open>The loop that counts the digits; it starts from a value of the C type.\<close>

function num_digits :: "int \<Rightarrow> nat" where
  "num_digits temp = (if temp > 0 then Suc (num_digits (temp div 10)) else 0)"
  by pat_completeness auto
termination
  by (relation "measure nat") auto

declare num_digits.simps [simp del]

text \<open>\<open>divisor\<close> multiplies at the width of the C type.\<close>

primrec divisor :: "nat \<Rightarrow> 'a::len word" where
  "divisor 0 = 1"
| "divisor (Suc j) = divisor j * 10"

primrec udigits_loop :: "mem \<Rightarrow> addr \<Rightarrow> 'a::len word \<Rightarrow> nat \<Rightarrow> mem \<times> addr" where
  "udigits_loop m p val 0 = (m, p)"
| "udigits_loop m p val (Suc i) =
     (let digit = nat ((uint val div uint (divisor i :: 'a word)) mod 10)
      in udigits_loop (m(p := digits ! digit)) (p + 1) val i)"

definition unsigned_to_string :: "mem \<Rightarrow> 'a::len word \<Rightarrow> addr \<Rightarrow> mem" where
  "unsigned_to_string m val p =
     (if val = 0 then m(p := digits ! 0, p + 1 := 0)
      else let (m, p) = udigits_loop m p val (num_digits (uint val)) in m(p := 0))"

primrec sdigits_loop :: "mem \<Rightarrow> addr \<Rightarrow> 'a::len word \<Rightarrow> nat \<Rightarrow> mem \<times> addr" where
  "sdigits_loop m p val 0 = (m, p)"
| "sdigits_loop m p val (Suc i) =
     (let digit = nat ((sint val sdiv sint (divisor i :: 'a word)) smod 10)
      in sdigits_loop (m(p := digits ! digit)) (p + 1) val i)"

definition signed_to_string :: "mem \<Rightarrow> 'a::len word \<Rightarrow> addr \<Rightarrow> mem" where
  "signed_to_string m val p =
     (if val = 0 then m(p := digits ! 0, p + 1 := 0)
      else
        let (m, p, val) = (if sint val < 0 then (m(p := of_char (CHR ''-'')), p + 1, - val) else (m, p, val));
            (m, p) = sdigits_loop m p val (num_digits (sint val))
        in m(p := 0))"

definition uint32_to_string :: "mem \<Rightarrow> u32 \<Rightarrow> addr \<Rightarrow> mem" where "uint32_to_string = unsigned_to_string"
definition uint16_to_string :: "mem \<Rightarrow> u16 \<Rightarrow> addr \<Rightarrow> mem" where "uint16_to_string = unsigned_to_string"
definition uint8_to_string :: "mem \<Rightarrow> u8 \<Rightarrow> addr \<Rightarrow> mem" where "uint8_to_string = unsigned_to_string"
definition int32_to_string :: "mem \<Rightarrow> u32 \<Rightarrow> addr \<Rightarrow> mem" where "int32_to_string = signed_to_string"
definition int16_to_string :: "mem \<Rightarrow> u16 \<Rightarrow> addr \<Rightarrow> mem" where "int16_to_string = signed_to_string"
definition int8_to_string :: "mem \<Rightarrow> u8 \<Rightarrow> addr \<Rightarrow> mem" where "int8_to_string = signed_to_string"

section \<open>\<^verbatim>\<open>ascii.c\<close>\<close>

text \<open>The \<^verbatim>\<open>do\<close> loop of \<open>int_to_ascii\<close>: least significant digit first.\<close>

function int_digits :: "mem \<Rightarrow> addr \<Rightarrow> int \<Rightarrow> mem \<times> addr" where
  "int_digits m p n =
     (let m = m(p := of_int (n smod 10) + of_char (CHR ''0'')); n = n sdiv 10
      in if n > 0 then int_digits m (p + 1) n else (m, p + 1))"
  by pat_completeness auto
termination
proof (relation "measure (\<lambda>(m, p, n). nat n)")
  fix m :: mem and p :: addr and n m' n' assume "m' = m(p := of_int (n smod 10) + of_char (CHR ''0''))" "n' = n sdiv (10 :: int)" "0 < n'"
  then show "((m', p + 1, n'), (m, p, n)) \<in> measure (\<lambda>(m, p, n). nat n)"
    by (auto simp: signed_divide_int_def sgn_if split: if_splits)
qed simp

declare int_digits.simps [simp del]

definition int_to_ascii :: "mem \<Rightarrow> u32 \<Rightarrow> addr \<Rightarrow> mem" where
  "int_to_ascii m n str =
     (let sign = sint n;
          n = (if sign < 0 then - n else n);
          (m, p) = int_digits m str (sint n);
          (m, p) = (if sign < 0 then (m(p := of_char (CHR ''-'')), p + 1) else (m, p))
      in m(p := 0))"

definition ErrorString :: "string list" where
  "ErrorString = [''EOK'', ''EIO'', ''EINVARG'', ''ENOMEM'', ''EBADPATH'', ''EFSNOTUS'', ''ERDONLY'',
     ''EUNIMP'', ''EISTKN'', ''EINFORMAT'', ''EHRDWRE'']"

text \<open>An index past the last entry reads outside the table.\<close>

definition string_error :: "u32 \<Rightarrow> string outcome" where
  "string_error error = (if unat error < length ErrorString then Ret (ErrorString ! unat error) else Fault)"

text \<open>A character of a string constant: its bytes and the NUL; any other index is outside.\<close>

definition char_at :: "string \<Rightarrow> u32 \<Rightarrow> u8 outcome" where
  "char_at s i = (if unat i \<le> length s then Ret ((ascii s @ [0]) ! unat i) else Fault)"

definition key_code_to_ascii :: "u32 \<Rightarrow> u8 outcome" where
  "key_code_to_ascii key =
     (if key = key_value BACKSPACE_PRESSED then Ret 8
      else if key = 0x1C then Ret 10
      else if key = 0x39 then Ret (of_char (CHR '' ''))
      else if key = 0xE then Ret 13
      else if key = key_value POINT_PRESSED then Ret (of_char (CHR ''.''))
      else if key = key_value SLASH_RELEASED then Ret (of_char (CHR ''/''))
      else if key = key_value ZERO_PRESSED then Ret (of_char (CHR ''/''))
      else if key \<ge> key_value ONE_PRESSED \<and> key \<le> key_value NINE_PRESSED then char_at ''123456789'' (key - key_value ONE_PRESSED)
      else if key \<ge> 0x10 \<and> key \<le> 0x1C then char_at ''qwertzuiop'' (key - 0x10)
      else if key \<ge> 0x1E \<and> key \<le> 0x26 then char_at ''asdfghjkl'' (key - 0x1E)
      else if key \<ge> 0x2C \<and> key \<le> 0x32 then char_at ''yxcvbnm'' (key - 0x2C)
      else Ret 0)"

definition utf16_to_ascii :: "u16 \<Rightarrow> u8" where
  "utf16_to_ascii c = (if c \<le> 0x7F then ucast (c AND 0x7F) else of_char (CHR ''?''))"

section \<open>The written digits\<close>

text \<open>The value of a string of digits in base \<open>b\<close>.\<close>

definition digit_value :: "u8 \<Rightarrow> nat" where
  "digit_value c = (if c < 0x3A then unat (c - 0x30) else unat (c - 0x37))"

definition string_value :: "nat \<Rightarrow> u8 list \<Rightarrow> nat" where
  "string_value b = foldl (\<lambda>a c. b * a + digit_value c) 0"

lemma string_value_foldl: "foldl (\<lambda>a c. b * a + digit_value c) k cs = k * b ^ length cs + string_value b cs"
proof (induction cs arbitrary: k)
  case (Cons c cs)
  from Cons [of "b * k + digit_value c"] Cons [of "digit_value c"] show ?case
    by (simp add: string_value_def algebra_simps)
qed (simp add: string_value_def)

lemma string_value_Cons: "string_value b (c # cs) = digit_value c * b ^ length cs + string_value b cs"
  using string_value_foldl [of b "digit_value c" cs] by (simp add: string_value_def)

lemma hex_char_value: "k < 16 \<Longrightarrow> digit_value (hex_chars ! k) = k \<and> hex_chars ! k \<noteq> 0"
  by (simp add: numeral_eq_Suc less_Suc_eq) (elim disjE; simp add: hex_chars_def ascii_def digit_value_def)

lemma digit_char_value: "k < 10 \<Longrightarrow> digit_value (digits ! k) = k \<and> digits ! k \<noteq> 0"
  by (simp add: numeral_eq_Suc less_Suc_eq) (elim disjE; simp add: digits_def ascii_def digit_value_def)

text \<open>The digits of \<open>v\<close> in base \<open>b\<close> at the positions \<open>n - 1\<close> to 0.\<close>

definition digit_list :: "nat \<Rightarrow> u8 list \<Rightarrow> nat \<Rightarrow> nat \<Rightarrow> u8 list" where
  "digit_list b cs v n = map (\<lambda>i. cs ! (v div b ^ i mod b)) (rev [0..<n])"

lemma digit_list_Suc: "digit_list b cs v (Suc n) = cs ! (v div b ^ n mod b) # digit_list b cs v n"
  by (simp add: digit_list_def)

lemma string_value_digit_list:
  assumes "\<And>k. k < b \<Longrightarrow> digit_value (cs ! k) = k" "0 < b"
  shows "string_value b (digit_list b cs v n) = v mod b ^ n"
proof (induction n)
  case (Suc n)
  have "v mod b ^ Suc n = v div b ^ n mod b * b ^ n + v mod b ^ n"
    using mod_mult2_eq [of v "b ^ n" b] by (simp add: mult.commute)
  moreover have "length (digit_list b cs v n) = n" by (simp add: digit_list_def)
  ultimately show ?case using assms Suc by (simp add: digit_list_Suc string_value_Cons)
qed (simp add: digit_list_def string_value_def)


lemma put_bytes_Cons_snoc: "put_bytes (m(p := c)) (p + 1) cs = put_bytes m p (c # cs)"
  by simp

text \<open>The loops write the digit lists.\<close>

lemma hex_loop_bytes:
  fixes v :: "'a::len word"
  shows "hex_loop m p v n = (put_bytes m p (digit_list 16 hex_chars (unat v) n), p + of_nat n)"
proof (induction n arbitrary: m p)
  case (Suc n)
  have nib: "unat (drop_bit (n * 4) v AND 0xF) = unat v div 16 ^ n mod 16"
  proof -
    have "0xF = (mask 4 :: 'a word)" by (simp add: mask_eq_exp_minus_1)
    then have "drop_bit (n * 4) v AND 0xF = take_bit 4 (drop_bit (n * 4) v)" by (simp add: take_bit_eq_mask)
    moreover have "(2 :: nat) ^ (n * 4) = 16 ^ n" by (simp add: power_mult mult.commute [of n])
    moreover have "unat (take_bit 4 (drop_bit (n * 4) v)) = take_bit 4 (drop_bit (n * 4) (unat v))"
      by (rule bit_eqI) (auto simp: bit_simps dest: bit_imp_le_length)
    ultimately show ?thesis by (simp add: take_bit_eq_mod drop_bit_eq_div)
  qed
  have "hex_loop m p v (Suc n) = hex_loop (m(p := hex_chars ! (unat v div 16 ^ n mod 16))) (p + 1) v n"
    by (simp only: hex_loop.simps Let_def nib)
  also note Suc
  finally show ?case by (simp add: digit_list_Suc fun_upd_def)
qed (simp add: digit_list_def)

lemma divisor_power: "10 ^ n < (2 :: nat) ^ LENGTH('a) \<Longrightarrow> unat (divisor n :: 'a::len word) = 10 ^ n"
proof (induction n)
  case (Suc n)
  have "(10 :: nat) ^ n \<le> 10 ^ Suc n" by simp
  then have "10 ^ n < (2 :: nat) ^ LENGTH('a)" using Suc.prems by (rule le_less_trans)
  note IH = Suc.IH [OF this]
  have "unat (divisor (Suc n) :: 'a word) = (10 ^ n * unat (10 :: 'a word)) mod 2 ^ LENGTH('a)"
    by (simp add: IH unat_word_ariths)
  also have "\<dots> = (10 ^ n * 10) mod 2 ^ LENGTH('a)"
  proof -
    have "unat (10 :: 'a word) = 10 mod 2 ^ LENGTH('a)" by (simp add: take_bit_eq_mod)
    then show ?thesis by (simp only: mod_mult_right_eq)
  qed
  also have "\<dots> = 10 ^ Suc n" using Suc.prems by (simp add: mult.commute)
  finally show ?case .
qed simp

lemma num_digits_bound: "0 \<le> v \<Longrightarrow> nat v < 10 ^ num_digits v \<and> (0 < v \<longrightarrow> 0 < num_digits v \<and> 10 ^ (num_digits v - 1) \<le> nat v)"
proof (induction v rule: num_digits.induct)
  case (1 v)
  show ?case
  proof (cases "0 < v")
    case True
    then have IH: "nat (v div 10) < 10 ^ num_digits (v div 10)"
      "0 < v div 10 \<Longrightarrow> 0 < num_digits (v div 10) \<and> 10 ^ (num_digits (v div 10) - 1) \<le> nat (v div 10)"
      using "1.IH" by auto
    have n: "num_digits v = Suc (num_digits (v div 10))" using True by (simp add: num_digits.simps [of v])
    have up: "nat v < 10 ^ num_digits v"
    proof -
      have "nat v div 10 < 10 ^ num_digits (v div 10)" using IH(1) True by (simp add: nat_div_distrib)
      then show ?thesis unfolding n power_Suc by (simp add: div_less_iff_less_mult mult.commute)
    qed
    have "10 ^ num_digits (v div 10) \<le> nat v"
    proof (cases "0 < v div 10")
      case pos: True
      then obtain k where k: "num_digits (v div 10) = Suc k" using IH(2) gr0_conv_Suc by blast
      then have "10 ^ k \<le> nat v div 10" using IH(2) [OF pos] True by (simp add: nat_div_distrib)
      then have "10 ^ k * 10 \<le> nat v" by (simp add: less_eq_div_iff_mult_less_eq)
      then show ?thesis by (simp add: k mult.commute)
    next
      case False
      then have "num_digits (v div 10) = 0" by (simp add: num_digits.simps [of "v div 10"])
      with True show ?thesis by simp
    qed
    with up n show ?thesis by simp
  next
    case False
    then show ?thesis using "1.prems" by (simp add: num_digits.simps [of v])
  qed
qed

lemma udigits_loop_bytes:
  fixes v :: "'a::len word"
  assumes "n = 0 \<or> 10 ^ (n - 1) \<le> unat v"
  shows "udigits_loop m p v n = (put_bytes m p (digit_list 10 digits (unat v) n), p + of_nat n)"
  using assms
proof (induction n arbitrary: m p)
  case (Suc n)
  then have le: "10 ^ n \<le> unat v" by simp
  also have "unat v < 2 ^ LENGTH('a)" by (rule unsigned_less)
  finally have d: "unat (divisor n :: 'a word) = 10 ^ n" by (rule divisor_power)
  have dig: "(uint v div uint (divisor n :: 'a word)) mod 10 = int (unat v div 10 ^ n mod 10)"
    unfolding uint_nat d by (simp only: of_nat_div of_nat_mod of_nat_power of_nat_numeral)
  have prev: "n = 0 \<or> 10 ^ (n - 1) \<le> unat v"
    using le by (cases n) auto
  have "udigits_loop m p v (Suc n) = udigits_loop (m(p := digits ! (unat v div 10 ^ n mod 10))) (p + 1) v n"
    by (simp only: udigits_loop.simps Let_def dig nat_int)
  also note Suc.IH [OF prev]
  finally show ?case by (simp add: digit_list_Suc fun_upd_def)
qed (simp add: digit_list_def)

lemma sint_nonneg: "0 \<le> sint v \<Longrightarrow> sint v = uint v" for v :: "'a::len word"
proof -
  assume "0 \<le> sint v"
  moreover have "sint v < 2 ^ (LENGTH('a) - 1)" by (rule sint_lt)
  then have "sint v < 2 ^ LENGTH('a)" by (rule less_le_trans) (simp add: power_increasing)
  ultimately have "take_bit LENGTH('a) (sint v) = sint v" by (simp add: take_bit_int_eq_self)
  then show ?thesis by (simp add: uint_sint)
qed

lemma sdigits_loop_bytes:
  fixes v :: "'a::len word"
  assumes "n = 0 \<or> 10 ^ (n - 1) \<le> unat v" and pos: "0 \<le> sint v"
  shows "sdigits_loop m p v n = (put_bytes m p (digit_list 10 digits (unat v) n), p + of_nat n)"
  using assms(1)
proof (induction n arbitrary: m p)
  case (Suc n)
  then have le: "10 ^ n \<le> unat v" by simp
  have v: "sint v = uint v" using pos by (rule sint_nonneg)
  then have "int (unat v) < 2 ^ (LENGTH('a) - 1)" using sint_lt [of v] by (simp only: uint_nat)
  then have lt: "unat v < 2 ^ (LENGTH('a) - 1)" by (metis of_nat_less_iff of_nat_numeral of_nat_power)
  with le have d: "10 ^ n < (2 :: nat) ^ (LENGTH('a) - 1)" by linarith
  then have "10 ^ n < (2 :: nat) ^ LENGTH('a)" by (rule less_le_trans) (simp add: power_increasing)
  then have ud: "uint (divisor n :: 'a word) = 10 ^ n"
    by (simp only: uint_nat divisor_power of_nat_power of_nat_numeral)
  have "(10 :: int) ^ n < 2 ^ (LENGTH('a) - 1)" using d by (metis of_nat_less_iff of_nat_numeral of_nat_power)
  then have "signed_take_bit (LENGTH('a) - 1) ((10 :: int) ^ n) = 10 ^ n"
    by (intro signed_take_bit_int_eq_self) (auto intro: order_trans [of _ 0])
  then have sd: "sint (divisor n :: 'a word) = 10 ^ n" by (simp add: sint_uint ud)
  have dig: "(sint v sdiv sint (divisor n :: 'a word)) smod 10 = int (unat v div 10 ^ n mod 10)"
  proof -
    have "x sdiv y = x div y" "x smod y = x mod y" if "0 \<le> x" "0 < y" for x y :: int
      using that by (cases "x = 0"; simp add: signed_divide_int_def signed_modulo_int_def sgn_if minus_mult_div_eq_mod)+
    then have "(sint v sdiv 10 ^ n) smod 10 = int (unat v) div 10 ^ n mod 10"
      unfolding v uint_nat by (simp add: div_int_pos_iff)
    then show ?thesis unfolding sd by (simp only: of_nat_div of_nat_mod of_nat_power of_nat_numeral)
  qed
  have prev: "n = 0 \<or> 10 ^ (n - 1) \<le> unat v"
    using le by (cases n) auto
  have "sdigits_loop m p v (Suc n) = sdigits_loop (m(p := digits ! (unat v div 10 ^ n mod 10))) (p + 1) v n"
    by (simp only: sdigits_loop.simps Let_def dig nat_int)
  also note Suc.IH [OF prev]
  finally show ?case by (simp add: digit_list_Suc fun_upd_def)
qed (simp add: digit_list_def)

section \<open>Correctness of the conversions\<close>

text \<open>\<open>decimal_string bs v\<close>: the bytes are the decimal digits of \<open>v\<close>, without leading zeros.\<close>

definition decimal_string :: "u8 list \<Rightarrow> nat \<Rightarrow> bool" where
  "decimal_string bs v \<longleftrightarrow> bs \<noteq> [] \<and> set bs \<subseteq> set digits \<and> string_value 10 bs = v
     \<and> (hd bs = digits ! 0 \<longrightarrow> bs = [digits ! 0])"

lemma length_digits [simp]: "length digits = 10"
  by (simp add: digits_def ascii_def)

lemma decimal_digit_list:
  assumes "0 < v"
  shows "decimal_string (digit_list 10 digits v (num_digits (int v))) v"
proof -
  from num_digits_bound [of "int v"] assms obtain n where n: "num_digits (int v) = Suc n" "10 ^ n \<le> v" "v < 10 ^ Suc n"
    by (cases "num_digits (int v)") auto
  have "string_value 10 (digit_list 10 digits v (Suc n)) = v"
    using n(3) by (subst string_value_digit_list) (simp_all add: digit_char_value)
  moreover have "hd (digit_list 10 digits v (Suc n)) \<noteq> digits ! 0"
  proof
    assume "hd (digit_list 10 digits v (Suc n)) = digits ! 0"
    then have "digit_value (digits ! (v div 10 ^ n mod 10)) = digit_value (digits ! 0)"
      by (simp add: digit_list_Suc)
    then have "v div 10 ^ n mod 10 = 0" by (simp add: digit_char_value)
    moreover have "v div 10 ^ n < 10" using n(3) by (simp add: div_less_iff_less_mult)
    moreover have "0 < v div 10 ^ n" using n(2) by (simp add: div_greater_zero_iff)
    ultimately show False by simp
  qed
  moreover have "set (digit_list 10 digits v (Suc n)) \<subseteq> set digits"
    by (auto simp: digit_list_def)
  ultimately show ?thesis unfolding n(1) by (simp add: decimal_string_def digit_list_Suc)
qed

lemma unsigned_to_string_decimal:
  fixes v :: "'a::len word"
  obtains bs where "unsigned_to_string m v p = put_bytes m p (bs @ [0])" "decimal_string bs (unat v)"
proof (cases "v = 0")
  case True
  have "decimal_string [digits ! 0] 0"
    by (simp add: decimal_string_def string_value_def digit_char_value)
  with True that [of "[digits ! 0]"] show ?thesis
    by (simp add: unsigned_to_string_def)
next
  case False
  then have pos: "0 < unat v" by (simp add: unat_gt_0)
  let ?n = "num_digits (uint v)"
  have n: "?n = 0 \<or> 10 ^ (?n - 1) \<le> unat v"
    using num_digits_bound [of "uint v"] by (cases "num_digits (uint v) = 0") (simp_all add: num_digits.simps [of "uint v"] split: if_splits)
  show ?thesis
  proof (rule that)
    show "unsigned_to_string m v p = put_bytes m p (digit_list 10 digits (unat v) ?n @ [0])"
      using False udigits_loop_bytes [OF n, of m p]
      by (simp add: unsigned_to_string_def put_bytes_append digit_list_def)
    show "decimal_string (digit_list 10 digits (unat v) ?n) (unat v)"
      using decimal_digit_list [OF pos] by (simp only: uint_nat)
  qed
qed

lemma decimal_no_nul: "decimal_string bs v \<Longrightarrow> 0 \<notin> set bs"
  by (auto simp: decimal_string_def digits_def ascii_def)

lemma unsigned_to_string_cstr:
  fixes v :: "'a::len word"
  shows "\<exists>bs. decimal_string bs (unat v) \<and> (length bs < 2 ^ 32 \<longrightarrow> cstr (unsigned_to_string m v p) p bs)"
  by (rule unsigned_to_string_decimal [of m v p]) (metis decimal_no_nul put_bytes_cstr)

lemma sint_minus:
  fixes v :: "'a::len word"
  assumes "sint v \<noteq> - (2 ^ (LENGTH('a) - 1))"
  shows "sint (- v) = - sint v"
proof -
  have "- (2 ^ (LENGTH('a) - 1)) \<le> sint v" "sint v < 2 ^ (LENGTH('a) - 1)"
    using sint_ge [of v] sint_lt [of v] by simp_all
  with assms have "signed_take_bit (LENGTH('a) - 1) (- sint v) = - sint v"
    by (intro signed_take_bit_int_eq_self) auto
  then show ?thesis by (simp add: sint_word_ariths)
qed

lemma put_minus: "put_bytes (m(p := c)) (p + 1) bs = put_bytes m p (c # bs)"
  by simp

lemma sdigits_string:
  fixes v :: "'a::len word"
  assumes "0 < sint v"
  obtains bs where "(let (m, p) = sdigits_loop m p v (num_digits (sint v)) in m(p := 0)) = put_bytes m p (bs @ [0])"
    "decimal_string bs (nat (sint v))"
proof -
  have v: "sint v = uint v" using assms by (intro sint_nonneg) simp
  then have pos: "0 < unat v" "nat (sint v) = unat v"
    using assms unfolding uint_nat by (simp_all only: nat_int of_nat_0_less_iff)
  let ?n = "num_digits (uint v)"
  have n: "?n = 0 \<or> 10 ^ (?n - 1) \<le> unat v"
    using num_digits_bound [of "uint v"] by (cases "num_digits (uint v) = 0") (simp_all add: num_digits.simps [of "uint v"] split: if_splits)
  show ?thesis
  proof (rule that)
    show "(let (m, p) = sdigits_loop m p v (num_digits (sint v)) in m(p := 0)) =
        put_bytes m p (digit_list 10 digits (unat v) ?n @ [0])"
      using sdigits_loop_bytes [OF n, of m p] assms by (simp add: v put_bytes_append digit_list_def)
    show "decimal_string (digit_list 10 digits (unat v) ?n) (nat (sint v))"
      using decimal_digit_list [OF pos(1)] by (simp only: uint_nat pos(2))
  qed
qed

lemma signed_to_string_decimal:
  fixes v :: "'a::len word"
  assumes "sint v \<noteq> - (2 ^ (LENGTH('a) - 1))"
  shows "\<exists>bs. signed_to_string m v p = put_bytes m p ((if sint v < 0 then [of_char (CHR ''-'')] else []) @ bs @ [0])
    \<and> decimal_string bs (nat \<bar>sint v\<bar>)"
proof -
  consider "v = 0" | "sint v < 0" | "0 < sint v" by (metis linorder_neqE_linordered_idom signed_eq_0_iff)
  then show ?thesis
  proof cases
    case 1
    have "decimal_string [digits ! 0] 0"
      by (simp add: decimal_string_def string_value_def digit_char_value)
    with 1 show ?thesis by (intro exI [of _ "[digits ! 0]"]) (simp add: signed_to_string_def)
  next
    case 2
    then have v: "v \<noteq> 0" by auto
    have "0 < sint (- v)" using 2 sint_minus [OF assms] by simp
    from sdigits_string [OF this, of "m(p := of_char (CHR ''-''))" "p + 1"] obtain bs where
      "(let (m, p) = sdigits_loop (m(p := of_char (CHR ''-''))) (p + 1) (- v) (num_digits (sint (- v))) in m(p := 0))
         = put_bytes (m(p := of_char (CHR ''-''))) (p + 1) (bs @ [0])" "decimal_string bs (nat (sint (- v)))" by blast
    with 2 v sint_minus [OF assms] show ?thesis
      by (intro exI [of _ bs]) (simp add: signed_to_string_def Let_def)
  next
    case 3
    then have v: "v \<noteq> 0" by auto
    from sdigits_string [OF 3, of m p] 3 v show ?thesis
      by (auto simp: signed_to_string_def Let_def)
  qed
qed

text \<open>
  Every 32-bit value prints as its decimal digits, without leading zeros, and a NUL.\<close>

theorem uint32_to_string_decimal:
  "\<exists>bs. uint32_to_string m v p = put_bytes m p (bs @ [0]) \<and> decimal_string bs (unat v)"
  unfolding uint32_to_string_def by (rule unsigned_to_string_decimal [of m v p]) blast

lemma int32_to_string_writes:
  "if sint v = - (2 ^ 31) then int32_to_string m v p = put_bytes m p [of_char (CHR ''-''), 0]
   else \<exists>bs. int32_to_string m v p = put_bytes m p ((if sint v < 0 then [of_char (CHR ''-'')] else []) @ bs @ [0])
     \<and> decimal_string bs (nat \<bar>sint v\<bar>)"
proof (cases "sint v = - (2 ^ 31)")
  case True
  have "v = of_int (sint v)" by simp
  also have "\<dots> = 0x80000000" unfolding True by simp
  finally have v': "v = 0x80000000" .
  have "num_digits (sint v) = 0" using True by (simp add: num_digits.simps)
  with True show ?thesis
    by (simp add: int32_to_string_def signed_to_string_def v')
next
  case False
  with signed_to_string_decimal [of v m p] show ?thesis by (simp add: int32_to_string_def)
qed

text \<open>
  C8. A signed 32-bit value prints as a minus sign when it is negative and the decimal digits of its
  magnitude, except for the smallest one, which prints as the minus sign alone.
\<close>

theorem int32_to_string_decimal:
  "if sint v = - (2 ^ 31) then int32_to_string m v p = put_bytes m p [of_char (CHR ''-''), 0]
   else \<exists>bs. int32_to_string m v p = put_bytes m p ((if sint v < 0 then [of_char (CHR ''-'')] else []) @ bs @ [0])
     \<and> decimal_string bs (nat \<bar>sint v\<bar>)"
  by (rule int32_to_string_writes)

text \<open>
  The hexadecimal conversion writes eight digits that denote the value.\<close>

theorem uint32_to_hex_string_digits:
  "\<exists>bs. uint32_to_hex_string m v p = put_bytes m p (bs @ [0]) \<and> length bs = 8
     \<and> set bs \<subseteq> set hex_chars \<and> string_value 16 bs = unat v"
proof -
  let ?bs = "digit_list 16 hex_chars (unat v) 8"
  have len: "length hex_chars = 16" by (simp add: hex_chars_def ascii_def)
  have "string_value 16 ?bs = unat v mod 16 ^ 8"
    by (rule string_value_digit_list) (simp_all add: hex_char_value)
  also have "\<dots> = unat v" by simp
  finally have "string_value 16 ?bs = unat v" .
  moreover have "length ?bs = 8" "set ?bs \<subseteq> set hex_chars"
    by (auto simp: digit_list_def len)
  moreover have "uint32_to_hex_string m v p = put_bytes m p (?bs @ [0])"
    by (simp add: uint32_to_hex_string_def hex_loop_bytes put_bytes_append digit_list_def)
  ultimately show ?thesis by blast
qed

text \<open>\<^verbatim>\<open>int_to_ascii\<close> writes the digits in reverse, the sign last.\<close>

lemma rev_digit_list: "rev (digit_list b cs v n) = map (\<lambda>i. cs ! (v div b ^ i mod b)) [0..<n]"
  by (simp add: digit_list_def rev_map)

lemma rev_digit_list_Suc: "rev (digit_list b cs v (Suc n)) = cs ! (v mod b) # rev (digit_list b cs (v div b) n)"
  unfolding rev_digit_list
  by (simp add: upt_conv_Cons map_Suc_upt [symmetric] div_mult2_eq del: upt_Suc)

lemma sdiv_smod_10: "0 < n \<Longrightarrow> n sdiv 10 = n div 10 \<and> n smod 10 = n mod (10 :: int)"
  by (simp add: signed_divide_int_def signed_modulo_int_def sgn_if minus_mult_div_eq_mod)

lemma digit_char: "k < 10 \<Longrightarrow> digits ! k = of_nat k + 0x30"
  by (simp add: numeral_eq_Suc less_Suc_eq) (elim disjE; simp add: digits_def ascii_def)

lemma int_digits_rev:
  "0 < n \<Longrightarrow> int_digits m p n =
     (put_bytes m p (rev (digit_list 10 digits (nat n) (num_digits n))), p + of_nat (num_digits n))"
proof (induction m p n rule: int_digits.induct)
  case (1 m p n)
  let ?c = "digits ! (nat n mod 10)"
  have d: "n sdiv 10 = n div 10" "n smod 10 = int (nat n mod 10)"
    using sdiv_smod_10 [OF "1.prems"] "1.prems" by (simp_all add: of_nat_mod)
  have c: "of_int (n smod 10) + of_char (CHR ''0'') = ?c"
    unfolding d(2) by (simp only: of_int_of_nat_eq digit_char [of "nat n mod 10"] mod_less_divisor) simp
  have k: "num_digits n = Suc (num_digits (n div 10))" using "1.prems" by (simp add: num_digits.simps [of n])
  have nat: "nat (n div 10) = nat n div 10" using "1.prems" by (simp add: nat_div_distrib)
  show ?case
  proof (cases "0 < n div 10")
    case False
    then have "num_digits (n div 10) = 0" by (simp add: num_digits.simps [of "n div 10"])
    moreover from False have "int_digits m p n = (m(p := ?c), p + 1)"
      by (subst int_digits.simps) (simp only: Let_def d(1) c if_False)
    ultimately show ?thesis by (simp add: k rev_digit_list_Suc) (simp add: digit_list_def)
  next
    case True
    then have "int_digits m p n = int_digits (m(p := ?c)) (p + 1) (n div 10)"
      by (subst int_digits.simps) (simp only: Let_def d(1) c if_True)
    also have "\<dots> = (put_bytes (m(p := ?c)) (p + 1) (rev (digit_list 10 digits (nat (n div 10)) (num_digits (n div 10)))),
        p + 1 + of_nat (num_digits (n div 10)))"
      using "1.IH" [OF refl refl] True by (simp only: d(1) c)
    finally show ?thesis by (simp add: k rev_digit_list_Suc nat)
  qed
qed

lemma int_to_ascii_reversed:
  assumes "0 < sint n"
  shows "int_to_ascii m n p = put_bytes m p (rev (digit_list 10 digits (nat (sint n)) (num_digits (sint n))) @ [0])"
  using assms by (simp add: int_to_ascii_def int_digits_rev put_bytes_append digit_list_def Let_def)

text \<open>For example 120 is written as \<open>021\<close>.\<close>

lemma int_to_ascii_120: "int_to_ascii m 120 p = put_bytes m p (ascii ''021'' @ [0])"
  by (simp add: int_to_ascii_reversed num_digits.simps digit_list_def upt_rec digits_def ascii_def)

text \<open>The key \<open>0x1B\<close> reads behind the end of the string constant of the upper letter row.\<close>

lemma key_code_to_ascii_1B: "key_code_to_ascii 0x1B = Fault"
  by (simp add: key_code_to_ascii_def char_at_def)

text \<open>The characters of the scan codes 0 to \<open>0x39\<close>, as one table.\<close>

definition key_table :: "u8 list" where
  "key_table = [0, 0] @ ascii ''123456789'' @ [0, 0, 0, 8, 0] @ ascii ''qwertzuiop'' @ [0, 0, 10, 0] @ ascii ''asdfghjkl''
     @ [0, 0, 0x2F, 0, 0] @ ascii ''yxcvbnm'' @ [0, 0x2E, 0, 0, 0, 0, 0x20]"

definition key_result :: "u32 \<Rightarrow> u8 outcome" where
  "key_result key = (if key = 0x1B then Fault else if key < 0x3A then Ret (key_table ! unat key)
     else if key = 0xB5 then Ret 0x2F else Ret 0)"

lemma key_results: "\<forall>i \<in> set [0..<0x3A]. key_code_to_ascii (of_nat i) = key_result (of_nat i)"
  by code_simp

text \<open>
  C9. The translation of key codes, which the code computes by comparisons and four strings, is for every 32-bit
  code that of one table for the pressed keys; of the codes above it only the release of the slash key gives a character,
  and the code \<open>0x1B\<close> reads outside a string.
\<close>

theorem key_code_to_ascii_table: "key_code_to_ascii key = key_result key"
proof (cases "key < 0x3A")
  case True
  then have "unat key \<in> set [0..<0x3A]" by (simp add: word_less_nat_alt)
  from bspec [OF key_results this] show ?thesis by simp
next
  case False
  then have above: "0x3A \<le> key" by simp
  have "key \<noteq> k" "\<not> key \<le> k" if "k < 0x3A" for k using order.strict_trans2 [OF that above] by auto
  with False show ?thesis by (simp add: key_code_to_ascii_def key_result_def)
qed

lemma string_error_bound: "string_error e = Fault \<longleftrightarrow> 11 \<le> unat e"
  by (auto simp: string_error_def ErrorString_def)

end
