(* ===== verification/Tty_Screen.thy ===== *)
theory Tty_Screen
  imports Tty
begin

text \<open>
  The contract of the terminal: an abstract screen (lines of coloured characters, a cursor and
  the current colours) with one operation per character and per colour sequence. The lemmas in
  the context of \<open>text_device\<close> show that the routines of \<^verbatim>\<open>tty.c\<close> implement it on every device
  that keeps the contract; the theorems at the end are their instances on the EGA screen.
\<close>

section \<open>An abstract screen\<close>

text \<open>
  What the terminal promises: a screen of lines of coloured characters with a cursor. A
  character is put at the cursor, which then moves right, to the next line at the end of a
  line, and at the end of the screen the text moves up by one line.
\<close>

record screen =
  text_lines :: "(u8 \<times> u8) list list"
  at_x :: nat
  at_y :: nat
  ink_fg :: u8
  ink_bg :: u8
  ink :: u8

definition feed :: "nat \<Rightarrow> nat \<Rightarrow> u8 \<times> u8 \<Rightarrow> screen \<Rightarrow> screen" where
  "feed w h blank s =
     (if at_y s + 1 < h then s\<lparr>at_x := 0, at_y := at_y s + 1\<rparr>
      else s\<lparr>text_lines := tl (text_lines s) @ [replicate w blank], at_x := 0\<rparr>)"

definition put_glyph :: "u8 \<Rightarrow> screen \<Rightarrow> screen" where
  "put_glyph c s = s\<lparr>text_lines := (text_lines s)[at_y s := (text_lines s ! at_y s)[at_x s := (c, ink s)]]\<rparr>"

definition type_glyph :: "nat \<Rightarrow> nat \<Rightarrow> u8 \<times> u8 \<Rightarrow> u8 \<Rightarrow> screen \<Rightarrow> screen" where
  "type_glyph w h blank c s =
     (let s = put_glyph c s
      in if at_x s + 1 < w then s\<lparr>at_x := at_x s + 1\<rparr> else feed w h blank s)"

datatype token = Glyph u8 | SetColor "u8 list" bool

definition color_code :: "u8 list \<Rightarrow> u8" where
  "color_code ds = foldl (\<lambda>code c. code * 10 + (c - 0x30)) 0 ds"

fun token_bytes :: "token \<Rightarrow> u8 list" where
  "token_bytes (Glyph c) = [c]"
| "token_bytes (SetColor ds bright) = 0x1B # 0x5B # ds @ (if bright then [0x3B, 0x31] else []) @ [0x6D]"

fun token_ok :: "token \<Rightarrow> bool" where
  "token_ok (Glyph c) \<longleftrightarrow> c \<noteq> 0 \<and> c \<noteq> 8 \<and> c \<noteq> 0x1B"
| "token_ok (SetColor ds bright) \<longleftrightarrow> length ds < 50 \<and> (\<forall>c \<in> set ds. 0x30 \<le> c \<and> c \<le> 0x39)"

definition set_ink :: "u8 \<Rightarrow> bool \<Rightarrow> screen \<Rightarrow> screen" where
  "set_ink code bright s =
     (if code = 0 then s\<lparr>ink_fg := TTY_WHITE, ink_bg := TTY_BG_BLACK, ink := TTY_WHITE OR TTY_BG_BLACK\<rparr>
      else if code < 40 then
        s\<lparr>ink_fg := ansi_color_to_tty_color code bright, ink := ansi_color_to_tty_color code bright OR ink_bg s\<rparr>
      else s\<lparr>ink_bg := ansi_color_to_tty_color code bright, ink := ink_fg s OR ansi_color_to_tty_color code bright\<rparr>)"

fun type_token :: "nat \<Rightarrow> nat \<Rightarrow> u8 \<times> u8 \<Rightarrow> token \<Rightarrow> screen \<Rightarrow> screen" where
  "type_token w h blank (Glyph c) s =
     (if c = 9 then (type_glyph w h blank 0x20 ^^ 4) s
      else if c = 10 then feed w h blank s
      else type_glyph w h blank c s)"
| "type_token w h blank (SetColor ds bright) s = set_ink (color_code ds) bright s"

definition screen_lines :: "u32 \<Rightarrow> u32 \<Rightarrow> (u32 \<Rightarrow> u32 \<Rightarrow> u8 \<times> u8) \<Rightarrow> (u8 \<times> u8) list list" where
  "screen_lines w h cells = map (\<lambda>y. map (\<lambda>x. cells (of_nat x) (of_nat y)) [0..<unat w]) [0..<unat h]"

definition screen_of :: "u32 \<Rightarrow> u32 \<Rightarrow> (mem \<Rightarrow> u32 \<Rightarrow> u32 \<Rightarrow> u8 \<times> u8) \<Rightarrow> tty \<Rightarrow> mem \<Rightarrow> screen" where
  "screen_of w h cell t m =
     \<lparr>text_lines = screen_lines w h (cell m), at_x = unat (col t), at_y = unat (row t),
      ink_fg = current_fg_color t, ink_bg = current_bg_color t, ink = current_color t\<rparr>"

lemma screen_lines_write:
  assumes "x < w" "y < h" and "\<forall>x' < w. \<forall>y' < h. cells' x' y' = (if x' = x \<and> y' = y then v else cells x' y')"
  shows "screen_lines w h cells' = (screen_lines w h cells)[unat y := (screen_lines w h cells ! unat y)[unat x := v]]"
proof (rule nth_equalityI)
  show "length (screen_lines w h cells') = length ((screen_lines w h cells)[unat y := (screen_lines w h cells ! unat y)[unat x := v]])"
    by (simp add: screen_lines_def)
next
  fix j assume "j < length (screen_lines w h cells')"
  then have j: "j < unat h" by (simp add: screen_lines_def)
  have ltj: "of_nat j < h" "unat (of_nat j :: u32) = j"
    using j less_trans [OF j unat_u32_lt] by (simp_all add: word_less_nat_alt unat_of_nat32)
  have y: "unat y < unat h" using assms(2) by (simp add: word_less_nat_alt)
  have "screen_lines w h cells' ! j ! i = (screen_lines w h cells)[unat y := (screen_lines w h cells ! unat y)[unat x := v]] ! j ! i"
    if i: "i < unat w" for i
  proof -
    have lti: "of_nat i < w" "unat (of_nat i :: u32) = i"
      using i less_trans [OF i unat_u32_lt] by (simp_all add: word_less_nat_alt unat_of_nat32)
    then have "cells' (of_nat i) (of_nat j) = (if i = unat x \<and> j = unat y then v else cells (of_nat i) (of_nat j))"
      using assms(3) ltj by (auto simp: word_unat_eq_iff)
    then show ?thesis using i j y
      by (auto simp: screen_lines_def nth_list_update)
  qed
  then show "screen_lines w h cells' ! j = (screen_lines w h cells)[unat y := (screen_lines w h cells ! unat y)[unat x := v]] ! j"
    using j y by (intro nth_equalityI [of "screen_lines w h cells' ! j"]) (simp_all add: screen_lines_def nth_list_update)
qed

lemma screen_lines_scroll:
  assumes h: "0 < h" and cells: "\<forall>x < w. \<forall>y < h. cells' x y = (if y + 1 < h then cells x (y + 1) else blank)"
  shows "screen_lines w h cells' = tl (screen_lines w h cells) @ [replicate (unat w) blank]"
proof (rule nth_equalityI)
  have h': "0 < unat h" using h by (simp add: word_less_nat_alt)
  then show "length (screen_lines w h cells') = length (tl (screen_lines w h cells) @ [replicate (unat w) blank])"
    by (simp add: screen_lines_def)
  fix j assume "j < length (screen_lines w h cells')"
  then have j: "j < unat h" by (simp add: screen_lines_def)
  have ltj: "of_nat j < h" "unat (of_nat j :: u32) = j"
    using j less_trans [OF j unat_u32_lt] by (simp_all add: word_less_nat_alt unat_of_nat32)
  have next_line: "of_nat j + 1 < h \<longleftrightarrow> Suc j < unat h"
    using ltj word_less_step [OF ltj(1)] unat_plus_one [OF ltj(1)]
    by (auto simp: word_less_nat_alt word_le_nat_alt)
  show "screen_lines w h cells' ! j = (tl (screen_lines w h cells) @ [replicate (unat w) blank]) ! j"
  proof (rule nth_equalityI)
    show "length (screen_lines w h cells' ! j) = length ((tl (screen_lines w h cells) @ [replicate (unat w) blank]) ! j)"
      using j h' by (auto simp: screen_lines_def nth_append nth_tl)
    fix i assume "i < length (screen_lines w h cells' ! j)"
    with j have i: "i < unat w" by (simp add: screen_lines_def)
    then have lti: "of_nat i < w" using less_trans [OF i unat_u32_lt] by (simp add: word_less_nat_alt unat_of_nat32)
    show "screen_lines w h cells' ! j ! i = (tl (screen_lines w h cells) @ [replicate (unat w) blank]) ! j ! i"
      using i j h' cells lti ltj next_line
      by (auto simp: screen_lines_def nth_append nth_tl add.commute)
  qed
qed

section \<open>The printing routines on any text device\<close>

context text_device
begin

definition on_screen :: "tty \<Rightarrow> mem \<Rightarrow> bool" where
  "on_screen t m \<longleftrightarrow> ok m \<and> tty_char_device t = dev \<and> col t < w \<and> row t < h"

definition prints :: "(tty \<times> mem) option \<Rightarrow> mem \<Rightarrow> screen \<Rightarrow> bool" where
  "prints r m s \<longleftrightarrow> (\<exists>t' m'. r = Some (t', m') \<and> on_screen t' m' \<and> screen_of w h cell t' m' = s
     \<and> (\<forall>a. \<not> own a \<longrightarrow> m' a = m a))"

abbreviation typed :: "u8 \<Rightarrow> screen \<Rightarrow> screen" where
  "typed \<equiv> type_glyph (unat w) (unat h) blank"

lemma prints_return: "on_screen t m \<Longrightarrow> prints (Some (t, m)) m (screen_of w h cell t m)"
  by (auto simp: prints_def)

lemma prints_bind:
  assumes "prints r m s"
    and "\<And>t' m'. on_screen t' m' \<Longrightarrow> screen_of w h cell t' m' = s \<Longrightarrow> (\<And>a. \<not> own a \<Longrightarrow> m' a = m a) \<Longrightarrow> prints (f (t', m')) m' s'"
  shows "prints (Option.bind r f) m s'"
proof -
  from assms(1) obtain t' m' where 1: "r = Some (t', m')" "on_screen t' m'" "screen_of w h cell t' m' = s"
    "\<And>a. \<not> own a \<Longrightarrow> m' a = m a" by (auto simp: prints_def)
  from assms(2) [OF 1(2,3,4)] 1 show ?thesis by (auto simp: prints_def)
qed

lemma unat_size: "0 < unat w" "0 < unat h"
  using size by (simp_all add: word_less_nat_alt)

lemma scroll_feed:
  assumes "on_screen t m" 
  shows "prints (put_newline t m) m (feed (unat w) (unat h) blank (screen_of w h cell t m))"
proof -
  have t: "ok m" "tty_char_device t = dev" "row t < h" using assms by (simp_all add: on_screen_def)
  have r: "unat (row t + 1) = unat (row t) + 1" "unat (row t) < unat h"
    using unat_plus_one [OF t(3)] t(3) by (simp_all add: word_less_nat_alt)
  show ?thesis
  proof (cases "row t + 1 < h")
    case True
    then have "unat (row t) + 1 < unat h" using r by (simp add: word_less_nat_alt)
    with True t r show ?thesis
      by (simp add: put_newline_def scroll_screen_def height prints_def on_screen_def size screen_of_def feed_def)
  next
    case False
    then have "\<not> unat (row t) + 1 < unat h" using r by (simp add: word_less_nat_alt)
    moreover from scroll_up [OF t(1)] obtain m' where m': "char_device_scroll_line dev m = Some (EOK, m')" "ok m'"
      "\<And>a. \<not> own a \<Longrightarrow> m' a = m a"
      "\<forall>x < w. \<forall>y < h. cell m' x y = (if y + 1 < h then cell m x (y + 1) else blank)" by blast
    moreover note screen_lines_scroll [OF size(2) m'(4)]
    ultimately show ?thesis using False t r
      by (simp add: put_newline_def scroll_screen_def height prints_def on_screen_def size screen_of_def feed_def)
  qed
qed

lemma kput_char_types:
  assumes "on_screen t m"
  shows "prints (kput_char t m c) m (typed c (screen_of w h cell t m))"
proof -
  have t: "ok m" "tty_char_device t = dev" "col t < w" "row t < h" using assms by (simp_all add: on_screen_def)
  from write_cell [OF t(1,3,4), of "current_color t" c] obtain m' where m':
    "char_device_write_char dev (col t) (row t) (current_color t) c m = (EOK, m')" "ok m'"
    "\<And>a. \<not> own a \<Longrightarrow> m' a = m a"
    "\<forall>x' < w. \<forall>y' < h. cell m' x' y' = (if x' = col t \<and> y' = row t then (c, current_color t) else cell m x' y')" by blast
  have lines: "screen_of w h cell t m' = put_glyph c (screen_of w h cell t m)"
    using screen_lines_write [OF t(3,4) m'(4)] by (simp add: screen_of_def put_glyph_def)
  have x: "unat (col t + 1) = unat (col t) + 1" using unat_plus_one [OF t(3)] by simp
  show ?thesis
  proof (cases "col t + 1 < w")
    case True
    then have "unat (col t) + 1 < unat w" using x by (simp add: word_less_nat_alt)
    with lines have "typed c (screen_of w h cell t m) = (screen_of w h cell t m')\<lparr>at_x := unat (col t) + 1\<rparr>"
      unfolding type_glyph_def lines [symmetric] Let_def by (simp add: screen_of_def)
    also have "\<dots> = screen_of w h cell (t\<lparr>col := col t + 1\<rparr>) m'" using x by (simp add: screen_of_def)
    finally show ?thesis using True t m'
      by (auto simp: kput_char_def width prints_def on_screen_def not_le Let_def)
  next
    case False
    then have "\<not> unat (col t) + 1 < unat w" using x by (simp add: word_less_nat_alt)
    with lines have ty: "typed c (screen_of w h cell t m) = feed (unat w) (unat h) blank (screen_of w h cell t m')"
      unfolding type_glyph_def lines [symmetric] Let_def by (simp add: screen_of_def)
    have "kput_char t m c = put_newline t m'"
      using False t m' by (simp add: kput_char_def width put_newline_def not_less Let_def)
    moreover have "on_screen t m'" using t m'(2) by (simp add: on_screen_def)
    ultimately show ?thesis using scroll_feed [of t m'] m'(3) unfolding ty by (auto simp: prints_def)
  qed
qed

lemma put_spaces_types:
  "on_screen t m \<Longrightarrow> prints (put_spaces j t m) m ((typed 0x20 ^^ j) (screen_of w h cell t m))"
proof (induction j arbitrary: t m)
  case 0
  then show ?case by (simp add: prints_return)
next
  case (Suc j)
  have "prints (put_spaces (Suc j) t m) m ((typed 0x20 ^^ j) (typed 0x20 (screen_of w h cell t m)))"
    unfolding put_spaces.simps
  proof (rule prints_bind [OF kput_char_types [OF Suc.prems]], simp only: prod.case)
    fix t' m' assume "on_screen t' m'" "screen_of w h cell t' m' = typed 0x20 (screen_of w h cell t m)"
    with Suc.IH [of t' m'] show "prints (put_spaces j t' m') m' ((typed 0x20 ^^ j) (typed 0x20 (screen_of w h cell t m)))"
      by simp
  qed
  then show ?case by (simp add: funpow_swap1)
qed

end

lemma ansi_scan_token:
  "cstr m (message + i) (ds @ (if bright then [0x3B, 0x31] else []) @ 0x6D # rest) \<Longrightarrow>
   \<forall>c \<in> set ds. 0x30 \<le> c \<and> c \<le> 0x39 \<Longrightarrow> length ds < n \<Longrightarrow>
   ansi_scan m message i code n =
     (i + of_nat (length ds + (if bright then 2 else 0)), Some (foldl (\<lambda>code c. code * 10 + (c - 0x30)) code ds, bright))"
proof (induction ds arbitrary: i code n)
  case Nil
  then show ?case by (cases n) (auto simp: add.assoc split: if_splits)
next
  case (Cons d ds)
  from Cons.prems(3) obtain n' where n: "n = Suc n'" "length ds < n'" by (cases n) auto
  have d: "d \<noteq> 0x6D" "d \<noteq> 0x3B" "0x30 \<le> d \<and> d \<le> 0x39" using Cons.prems(2) by auto
  have m: "m (message + i) = d" "cstr m (message + (i + 1)) (ds @ (if bright then [0x3B, 0x31] else []) @ 0x6D # rest)"
    using Cons.prems(1) by (simp_all add: add.assoc)
  have "ansi_scan m message i code n = ansi_scan m message (i + 1) (code * 10 + (d - 0x30)) n'"
    using d by (simp add: n m(1) Let_def)
  also note Cons.IH [OF m(2) _ n(2)]
  finally show ?case using Cons.prems(2) by simp
qed

context text_device
begin

definition message_at :: "mem \<Rightarrow> addr \<Rightarrow> u8 list \<Rightarrow> bool" where
  "message_at m p bs \<longleftrightarrow> cstr m p bs \<and> (\<forall>k \<le> length bs. \<not> own (p + of_nat k))"

lemma message_at_append: "message_at m p (as @ bs) \<Longrightarrow> message_at m (p + of_nat (length as)) bs"
  unfolding message_at_def
proof (intro conjI allI impI)
  assume *: "cstr m p (as @ bs) \<and> (\<forall>k \<le> length (as @ bs). \<not> own (p + of_nat k))"
  then show "cstr m (p + of_nat (length as)) bs" by (simp add: cstr_append)
  fix k assume "k \<le> length bs"
  with *[THEN conjunct2, rule_format, of "length as + k"] show "\<not> own (p + of_nat (length as) + of_nat k)" by (simp add: add.assoc)
qed

lemma message_at_frame:
  "message_at m p bs \<Longrightarrow> (\<And>a. \<not> own a \<Longrightarrow> m' a = m a) \<Longrightarrow> message_at m' p bs"
  unfolding message_at_def by (auto intro: cstr_cong [of m])

abbreviation typed_token :: "token \<Rightarrow> screen \<Rightarrow> screen" where
  "typed_token \<equiv> type_token (unat w) (unat h) blank"

lemma on_screen_ansi: "on_screen t m \<Longrightarrow> on_screen (set_ansi_color t code bright) m"
  by (simp add: on_screen_def set_ansi_color_def Let_def)

lemma screen_of_ansi:
  "screen_of w h cell (set_ansi_color t code bright) m = set_ink code bright (screen_of w h cell t m)"
  by (simp add: screen_of_def set_ansi_color_def set_ink_def TTY_COLOR_def Let_def)

lemma kprint_glyph:
  assumes t: "on_screen t m" and c: "m (message + i) = c" "token_ok (Glyph c)"
    and rest: "\<And>t' m'. on_screen t' m' \<Longrightarrow> screen_of w h cell t' m' = typed_token (Glyph c) (screen_of w h cell t m) \<Longrightarrow>
      (\<And>a. \<not> own a \<Longrightarrow> m' a = m a) \<Longrightarrow> prints (kprint_loop t' m' message (i + 1)) m' s"
  shows "prints (kprint_loop t m message i) m s"
proof -
  have cc: "c \<noteq> 0" "c \<noteq> 8" "c \<noteq> 0x1B" using c(2) by simp_all
  have step: "kprint_loop t m message i = Option.bind
      (if c = 9 then put_spaces 4 t m else if c = 10 then put_newline t m else kput_char t m c)
      (\<lambda>(t, m). kprint_loop t m message (i + 1))"
    using cc by (simp add: kprint_loop.simps [of t m] c(1))
  have "prints (if c = 9 then put_spaces 4 t m else if c = 10 then put_newline t m else kput_char t m c) m
      (typed_token (Glyph c) (screen_of w h cell t m))"
    using put_spaces_types [OF t, of 4] scroll_feed [OF t] kput_char_types [OF t, of c] by simp
  then show ?thesis unfolding step
  proof (rule prints_bind)
    fix t' m' assume "on_screen t' m'" "screen_of w h cell t' m' = typed_token (Glyph c) (screen_of w h cell t m)"
      "\<And>a. \<not> own a \<Longrightarrow> m' a = m a"
    from rest [OF this] show "prints (case (t', m') of (t, m) \<Rightarrow> kprint_loop t m message (i + 1)) m' s" by simp
  qed
qed

lemma kprint_loop_tokens:
  "on_screen t m \<Longrightarrow> message_at m (message + i) (concat (map token_bytes toks)) \<Longrightarrow> \<forall>tok \<in> set toks. token_ok tok \<Longrightarrow>
   prints (kprint_loop t m message i) m (fold typed_token toks (screen_of w h cell t m))"
proof (induction toks arbitrary: t m i)
  case Nil
  then show ?case by (simp add: kprint_loop.simps message_at_def prints_return)
next
  case (Cons tok toks)
  from Cons.prems(2) have rest: "message_at m (message + i + of_nat (length (token_bytes tok))) (concat (map token_bytes toks))"
    by (intro message_at_append) simp
  show ?case
  proof (cases tok)
    case (Glyph c)
    have c: "m (message + i) = c" using Cons.prems(2) Glyph by (simp add: message_at_def)
    show ?thesis
    proof (rule kprint_glyph [OF Cons.prems(1) c])
      show "token_ok (Glyph c)" using Cons.prems(3) Glyph by simp
      fix t' m' assume t': "on_screen t' m'" "screen_of w h cell t' m' = typed_token (Glyph c) (screen_of w h cell t m)"
        and frame: "\<And>a. \<not> own a \<Longrightarrow> m' a = m a"
      have "message_at m' (message + (i + 1)) (concat (map token_bytes toks))"
        using message_at_frame [OF rest frame] Glyph by (simp add: add.assoc)
      from Cons.IH [OF t'(1) this] Cons.prems(3)
      show "prints (kprint_loop t' m' message (i + 1)) m' (fold typed_token (tok # toks) (screen_of w h cell t m))"
        unfolding t'(2) by (simp add: Glyph)
    qed
  next
    case (SetColor ds bright)
    let ?n = "length ds + (if bright then 2 else 0)"
    from Cons.prems(2) have "cstr m (message + i) (token_bytes tok @ concat (map token_bytes toks))"
      by (simp add: message_at_def)
    then have m: "m (message + i) = 0x1B" "m (message + (i + 1)) = 0x5B"
      "cstr m (message + (i + 2)) (ds @ (if bright then [0x3B, 0x31] else []) @ 0x6D # concat (map token_bytes toks))"
      using SetColor by (simp_all add: add.assoc)
    have "ansi_scan m message (i + 2) 0 50 = (i + 2 + of_nat ?n, Some (color_code ds, bright))"
      using ansi_scan_token [OF m(3), of 50 0] Cons.prems(3) SetColor by (simp add: color_code_def)
    then have step: "kprint_loop t m message i =
        kprint_loop (set_ansi_color t (color_code ds) bright) m message (i + 2 + of_nat ?n + 1)"
      by (simp add: kprint_loop.simps [of t m] m(1,2) apply_ansi_def)
    have "message + i + of_nat (length (token_bytes tok)) = message + (i + 2 + of_nat ?n + 1)"
      by (simp add: SetColor algebra_simps)
    with rest have "message_at m (message + (i + 2 + of_nat ?n + 1)) (concat (map token_bytes toks))" by simp
    from Cons.IH [OF on_screen_ansi [OF Cons.prems(1)] this] Cons.prems(3)
    show ?thesis unfolding step screen_of_ansi by (simp add: SetColor)
  qed
qed

lemma kprint_tokens:
  assumes "on_screen t m" "message_at m message (concat (map token_bytes toks))" "\<forall>tok \<in> set toks. token_ok tok"
  shows "prints (kprint t m message) m (fold typed_token toks (screen_of w h cell t m))"
  using kprint_loop_tokens [of t m message 0 toks] assms by (simp add: kprint_def kprint_at_def)

section \<open>Clearing the screen\<close>

lemma clear_row_blanks:
  "ok m \<Longrightarrow> y < h \<Longrightarrow> x \<le> w \<Longrightarrow> \<exists>m'. clear_row dev m y x = Some m' \<and> ok m' \<and> (\<forall>a. \<not> own a \<longrightarrow> m' a = m a)
   \<and> (\<forall>x' < w. \<forall>y' < h. cell m' x' y' = (if y' = y \<and> x \<le> x' then (0x20, TTY_COLOR TTY_WHITE TTY_BG_BLACK) else cell m x' y'))"
proof (induction "unat w - unat x" arbitrary: m x rule: less_induct)
  case less
  show ?case
  proof (cases "x < w")
    case False
    with less.prems show ?thesis by (auto simp: clear_row.simps [of dev m] width not_less)
  next
    case True
    from write_cell [OF less.prems(1) True less.prems(2), of "TTY_COLOR TTY_WHITE TTY_BG_BLACK" "0x20"] obtain m1 where m1:
      "char_device_write_char dev x y (TTY_COLOR TTY_WHITE TTY_BG_BLACK) 0x20 m = (EOK, m1)" "ok m1" "\<forall>a. \<not> own a \<longrightarrow> m1 a = m a"
      "\<forall>x' < w. \<forall>y' < h. cell m1 x' y' = (if x' = x \<and> y' = y then (0x20, TTY_COLOR TTY_WHITE TTY_BG_BLACK) else cell m x' y')" by blast
    from less.hyps [OF unat_diff_step [OF True] m1(2) less.prems(2) word_less_step [OF True]] obtain m' where m':
      "clear_row dev m1 y (x + 1) = Some m'" "ok m'" "\<forall>a. \<not> own a \<longrightarrow> m' a = m1 a"
      "\<forall>x' < w. \<forall>y' < h. cell m' x' y' = (if y' = y \<and> x + 1 \<le> x' then (0x20, TTY_COLOR TTY_WHITE TTY_BG_BLACK) else cell m1 x' y')" by blast
    have "cell m' x' y' = (if y' = y \<and> x \<le> x' then (0x20, TTY_COLOR TTY_WHITE TTY_BG_BLACK) else cell m x' y')"
      if "x' < w" "y' < h" for x' y'
    proof -
      have "x \<le> x' \<longleftrightarrow> x' = x \<or> x + 1 \<le> x'" using word_step_le [OF True, of x'] by auto
      with that m1(4) m'(4) show ?thesis by auto
    qed
    moreover have "clear_row dev m y x = Some m'"
      using True m1(1) m'(1) by (simp add: clear_row.simps [of dev m] width less.prems(1))
    ultimately show ?thesis using m' m1(3) by auto
  qed
qed

lemma clear_rows_blanks:
  "ok m \<Longrightarrow> y \<le> h \<Longrightarrow> \<exists>m'. clear_rows dev m y = Some m' \<and> ok m' \<and> (\<forall>a. \<not> own a \<longrightarrow> m' a = m a)
   \<and> (\<forall>x' < w. \<forall>y' < h. cell m' x' y' = (if y \<le> y' then (0x20, TTY_COLOR TTY_WHITE TTY_BG_BLACK) else cell m x' y'))"
proof (induction "unat h - unat y" arbitrary: m y rule: less_induct)
  case less
  show ?case
  proof (cases "y < h")
    case False
    with less.prems show ?thesis by (auto simp: clear_rows.simps [of dev m] height not_less)
  next
    case True
    from clear_row_blanks [OF less.prems(1) True, of 0] obtain m1 where m1:
      "clear_row dev m y 0 = Some m1" "ok m1" "\<forall>a. \<not> own a \<longrightarrow> m1 a = m a"
      "\<forall>x' < w. \<forall>y' < h. cell m1 x' y' = (if y' = y then (0x20, TTY_COLOR TTY_WHITE TTY_BG_BLACK) else cell m x' y')" by auto
    from less.hyps [OF unat_diff_step [OF True] m1(2) word_less_step [OF True]] obtain m' where m':
      "clear_rows dev m1 (y + 1) = Some m'" "ok m'" "\<forall>a. \<not> own a \<longrightarrow> m' a = m1 a"
      "\<forall>x' < w. \<forall>y' < h. cell m' x' y' = (if y + 1 \<le> y' then (0x20, TTY_COLOR TTY_WHITE TTY_BG_BLACK) else cell m1 x' y')" by blast
    have "cell m' x' y' = (if y \<le> y' then (0x20, TTY_COLOR TTY_WHITE TTY_BG_BLACK) else cell m x' y')"
      if "x' < w" "y' < h" for x' y'
    proof -
      have "y \<le> y' \<longleftrightarrow> y' = y \<or> y + 1 \<le> y'" using word_step_le [OF True, of y'] by auto
      with that m1(4) m'(4) show ?thesis by auto
    qed
    moreover have "clear_rows dev m y = Some m'"
      using True m1(1) m'(1) by (simp add: clear_rows.simps [of dev m] height less.prems(1))
    ultimately show ?thesis using m' m1(3) by auto
  qed
qed

lemma clear_tty_blank:
  assumes "ok m" "tty_char_device t = dev"
  shows "prints (clear_tty t m) m
    \<lparr>text_lines = replicate (unat h) (replicate (unat w) (0x20, 0x0F)), at_x = 0, at_y = 0, ink_fg = 0x0F, ink_bg = 0, ink = 0x0F\<rparr>"
proof -
  from clear_rows_blanks [OF assms(1), of 0] obtain m' where m': "clear_rows dev m 0 = Some m'" "ok m'"
    "\<forall>a. \<not> own a \<longrightarrow> m' a = m a" "\<forall>x < w. \<forall>y < h. cell m' x y = (0x20, 0x0F)"
    by (auto simp: TTY_COLOR_def tty_colors)
  have "screen_lines w h (cell m') = replicate (unat h) (replicate (unat w) (0x20, 0x0F))"
  proof (rule nth_equalityI)
    fix j assume "j < length (screen_lines w h (cell m'))"
    then have j: "j < unat h" by (simp add: screen_lines_def)
    have "of_nat j < h" using j less_trans [OF j unat_u32_lt] by (simp add: word_less_nat_alt unat_of_nat32)
    moreover have "of_nat i < w" if "i < unat w" for i
      using that less_trans [OF that unat_u32_lt] by (simp add: word_less_nat_alt unat_of_nat32)
    ultimately show "screen_lines w h (cell m') ! j = replicate (unat h) (replicate (unat w) (0x20, 0x0F)) ! j"
      using j m'(4) by (intro nth_equalityI [of "screen_lines w h (cell m') ! j"]) (simp_all add: screen_lines_def)
  qed (simp add: screen_lines_def)
  with m' assms size show ?thesis
    by (simp add: clear_tty_def prints_def on_screen_def screen_of_def tty_colors TTY_COLOR_def)
qed

end

section \<open>The terminal on the EGA screen\<close>

abbreviation ega_screen :: "tty \<Rightarrow> mem \<Rightarrow> screen" where
  "ega_screen \<equiv> screen_of 80 25 ega_cell"

definition ega_tty :: "addr \<Rightarrow> tty \<Rightarrow> mem \<Rightarrow> bool" where
  "ega_tty fb t m \<longleftrightarrow> ega_ok fb m \<and> tty_char_device t = snd (ega_driver_init fb) \<and> col t < 80 \<and> row t < 25"

lemma ega_on_screen: "ega.on_screen fb t m = ega_tty fb t m"
  by (simp add: ega.on_screen_def ega_tty_def)

lemma ega_message:
  assumes "cstr m p bs" "disjoint_regions p (Suc (length bs)) 0xB8000 4000" "length bs < 2 ^ 32"
  shows "ega.message_at m p bs"
  unfolding ega.message_at_def
proof (intro conjI allI impI)
  show "cstr m p bs" by fact
  fix k assume "k \<le> length bs"
  with assms(3) have "in_region p (Suc (length bs)) (p + of_nat k)" by (subst in_region_offset) auto
  with assms(2) show "\<not> ega_own (p + of_nat k)" by (auto simp: disjoint_regions_def ega_own_def)
qed

text \<open>
  C13. \<open>kprint\<close> of a message of characters and colour sequences returns, and the screen is then the
  one the abstract screen reaches by typing the same characters and colours; the cursor is
  still on the screen and no memory but the video memory has changed.
\<close>

theorem kprint_refines_screen:
  assumes "ega_tty fb t m" and "cstr m message (concat (map token_bytes toks))" and "\<forall>tok \<in> set toks. token_ok tok"
    and "disjoint_regions message (Suc (length (concat (map token_bytes toks)))) 0xB8000 4000"
    and "length (concat (map token_bytes toks)) < 2 ^ 32"
  shows "\<exists>t' m'. kprint t m message = Some (t', m') \<and> ega_tty fb t' m'
    \<and> ega_screen t' m' = fold (type_token 80 25 (0, 7)) toks (ega_screen t m)
    \<and> (\<forall>a. \<not> in_region 0xB8000 4000 a \<longrightarrow> m' a = m a)"
  using ega.kprint_tokens [OF _ ega_message [OF assms(2,4,5)] assms(3), of fb t] assms(1)
  by (simp add: ega.prints_def ega_on_screen ega_own_def)

text \<open>
  \<open>clear_tty\<close> blanks the whole screen and puts the cursor into its corner.\<close>

theorem clear_tty_blanks:
  assumes "ega_ok fb m" and "tty_char_device t = snd (ega_driver_init fb)"
  shows "\<exists>t' m'. clear_tty t m = Some (t', m') \<and> ega_tty fb t' m'
    \<and> ega_screen t' m' = \<lparr>text_lines = replicate 25 (replicate 80 (0x20, 0x0F)), at_x = 0, at_y = 0,
          ink_fg = 0x0F, ink_bg = 0, ink = 0x0F\<rparr>
    \<and> (\<forall>a. \<not> in_region 0xB8000 4000 a \<longrightarrow> m' a = m a)"
  using ega.clear_tty_blank [OF assms] by (simp add: ega.prints_def ega_on_screen ega_own_def)

definition demo_mem :: mem where
  "demo_mem = put_bytes (store32 (store32 (\<lambda>_. 0) 0x514 80) 0x518 25) 0x1000 [0x41, 0x1B, 0x5B, 0x33, 0x31, 0x6D, 0x42]"

definition demo_tty :: tty where
  "demo_tty = \<lparr>row = 0, col = 0, current_color = 0x0F, current_fg_color = 0x0F, current_bg_color = 0,
     tty_char_device = snd (ega_driver_init 0x500)\<rparr>"

lemma demo_ok: "ega_ok 0x500 demo_mem"
proof -
  have "load32 demo_mem 0x514 = 80" "load32 demo_mem 0x518 = 25"
    by (simp_all add: demo_mem_def load32_def store32_def)
  moreover have "disjoint_regions 0x514 8 0xB8000 4000" by (rule disjoint_regions_nat) simp_all
  ultimately show ?thesis by (simp add: ega_ok_def ega_driver_get_width_def ega_driver_get_height_def)
qed

lemma kprint_refines_screen_witness:
  "\<exists>t' m'. kprint demo_tty demo_mem 0x1000 = Some (t', m') \<and> ega_tty 0x500 t' m'
    \<and> at_x (ega_screen t' m') = 2 \<and> at_y (ega_screen t' m') = 0 \<and> ink (ega_screen t' m') = TTY_RED"
proof -
  let ?toks = "[Glyph 0x41, SetColor [0x33, 0x31] False, Glyph 0x42]"
  have t: "ega_tty 0x500 demo_tty demo_mem" using demo_ok by (simp add: ega_tty_def demo_tty_def)
  have c: "cstr demo_mem 0x1000 (concat (map token_bytes ?toks))" by (simp add: demo_mem_def store32_def)
  have d: "disjoint_regions 0x1000 (Suc (length (concat (map token_bytes ?toks)))) 0xB8000 4000"
    by (rule disjoint_regions_nat) simp_all
  from kprint_refines_screen [OF t c _ d]
  obtain t' m' where "kprint demo_tty demo_mem 0x1000 = Some (t', m')" "ega_tty 0x500 t' m'"
    "ega_screen t' m' = fold (type_token 80 25 (0, 7)) ?toks (ega_screen demo_tty demo_mem)" by auto
  then show ?thesis
    by (simp add: type_glyph_def put_glyph_def screen_of_def demo_tty_def set_ink_def color_code_def
        ansi_color_to_tty_color_def tty_colors Let_def)
qed

lemma clear_tty_blanks_witness:
  "\<exists>t' m'. clear_tty demo_tty demo_mem = Some (t', m') \<and> col t' = 0 \<and> row t' = 0 \<and> m' 0xB8000 = 0x20"
proof -
  have "tty_char_device demo_tty = snd (ega_driver_init 0x500)" by (simp add: demo_tty_def)
  from clear_tty_blanks [OF demo_ok this] obtain t' m' where *: "clear_tty demo_tty demo_mem = Some (t', m')"
    "ega_screen t' m' = \<lparr>text_lines = replicate 25 (replicate 80 (0x20, 0x0F)), at_x = 0, at_y = 0,
          ink_fg = 0x0F, ink_bg = 0, ink = 0x0F\<rparr>" by blast
  then have "text_lines (ega_screen t' m') ! 0 ! 0 = (0x20, 0x0F)" "at_x (ega_screen t' m') = 0" "at_y (ega_screen t' m') = 0"
    by simp_all
  with *(1) show ?thesis
    by (auto simp: screen_of_def screen_lines_def ega_cell_def word_unat_eq_iff)
qed

text \<open>
  A backspace after the first column blanks the character to the left and moves there. In the
  corner of the screen it moves to row \<open>2 ^ 32 - 1\<close> and writes below the video memory.
\<close>

lemma put_backspace_erases:
  assumes "ega_tty fb t m" and "0 < col t"
  shows "\<exists>m'. put_backspace t m = Some (t\<lparr>col := col t - 1\<rparr>, m') \<and> ega_tty fb (t\<lparr>col := col t - 1\<rparr>) m'
    \<and> ega_screen (t\<lparr>col := col t - 1\<rparr>) m' = put_glyph 0x20 ((ega_screen t m)\<lparr>at_x := at_x (ega_screen t m) - 1\<rparr>)"
proof -
  have t: "ega_ok fb m" "tty_char_device t = snd (ega_driver_init fb)" "col t < 80" "row t < 25"
    using assms(1) by (simp_all add: ega_tty_def)
  have c: "unat (col t - 1) = unat (col t) - 1" using assms(2) by (intro unat_minus_one) auto
  then have lt: "col t - 1 < 80" using t(3) by (simp add: word_less_nat_alt)
  from ega.write_cell [OF t(1) lt t(4), of "current_color t" "0x20"] obtain m' where m':
    "char_device_write_char (snd (ega_driver_init fb)) (col t - 1) (row t) (current_color t) 0x20 m = (EOK, m')" "ega_ok fb m'"
    "\<forall>x' < 80. \<forall>y' < 25. ega_cell m' x' y' = (if x' = col t - 1 \<and> y' = row t then (0x20, current_color t) else ega_cell m x' y')"
    by blast
  from screen_lines_write [OF lt t(4) m'(3)] c
  have "ega_screen (t\<lparr>col := col t - 1\<rparr>) m' = put_glyph 0x20 ((ega_screen t m)\<lparr>at_x := at_x (ega_screen t m) - 1\<rparr>)"
    by (simp add: screen_of_def put_glyph_def)
  with t lt m'(1,2) assms(2) show ?thesis by (simp add: put_backspace_def ega_tty_def)
qed

text \<open>
  A backspace with the cursor in the upper left corner leaves the screen: the cursor's row wraps
  around, and the blank is written into the two bytes in front of the video memory.
\<close>

theorem put_backspace_corner:
  assumes "ega_ok fb m" and "tty_char_device t = snd (ega_driver_init fb)" and "col t = 0" and "row t = 0"
  shows "\<exists>t' m'. put_backspace t m = Some (t', m') \<and> row t' = 0xFFFFFFFF \<and> m' = m(0xB7FFE := 0x20, 0xB7FFF := current_color t)"
  using assms
  by (simp add: put_backspace_def ega_ok_def char_device_get_width_def char_device_write_char_def ega_driver_init_def
      ega_driver_write_tty_def Let_def)

lemma put_backspace_corner_witness: "\<exists>t' m'. put_backspace demo_tty demo_mem = Some (t', m') \<and> m' 0xB7FFE = 0x20"
proof -
  have "tty_char_device demo_tty = snd (ega_driver_init 0x500)" "col demo_tty = 0" "row demo_tty = 0"
    by (simp_all add: demo_tty_def)
  from put_backspace_corner [OF demo_ok this] show ?thesis by auto
qed

end
