(* ===== verification/Tty_Format.thy ===== *)
theory Tty_Format
  imports Tty_Screen
begin

text \<open>
  \<^verbatim>\<open>kprintf\<close>: a format string is a sequence of directives; printing it does to the screen what typing the
  text they stand for does. The conversion of numbers goes through the buffer of 20 bytes on the
  stack, so the contract of the device is extended by what that buffer must not touch.
\<close>

section \<open>Formats\<close>

datatype directive = Plain token | Signed | Hex | Character | Message "token list" | Percent

fun format_bytes :: "directive \<Rightarrow> u8 list" where
  "format_bytes (Plain tok) = token_bytes tok"
| "format_bytes Signed = [0x25, 0x64]"
| "format_bytes Hex = [0x25, 0x78]"
| "format_bytes Character = [0x25, 0x63]"
| "format_bytes (Message toks) = [0x25, 0x73]"
| "format_bytes Percent = [0x25, 0x25]"

text \<open>The numerals: decimal digits without leading zeros after the sign, or eight hexadecimal digits.\<close>

definition signed_numeral :: "u32 \<Rightarrow> u8 list \<Rightarrow> bool" where
  "signed_numeral v bs \<longleftrightarrow>
     (if sint v = - (2 ^ 31) then bs = [0x2D]
      else \<exists>ds. bs = (if sint v < 0 then [0x2D] else []) @ ds \<and> decimal_string ds (nat \<bar>sint v\<bar>))"

definition hex_numeral :: "u32 \<Rightarrow> u8 list \<Rightarrow> bool" where
  "hex_numeral v bs \<longleftrightarrow> length bs = 8 \<and> set bs \<subseteq> set hex_chars \<and> string_value 16 bs = unat v"

text \<open>\<open>formatted ds args toks\<close>: the directives \<open>ds\<close> with the arguments \<open>args\<close> stand for the text \<open>toks\<close>.\<close>

inductive formatted :: "directive list \<Rightarrow> u32 list \<Rightarrow> token list \<Rightarrow> bool" where
  f_end: "formatted [] args []"
| f_plain: "formatted ds args toks \<Longrightarrow> formatted (Plain tok # ds) args (tok # toks)"
| f_signed: "signed_numeral v bs \<Longrightarrow> formatted ds args toks \<Longrightarrow> formatted (Signed # ds) (v # args) (map Glyph bs @ toks)"
| f_hex: "hex_numeral v bs \<Longrightarrow> formatted ds args toks \<Longrightarrow> formatted (Hex # ds) (v # args) (map Glyph bs @ toks)"
| f_character: "formatted ds args toks \<Longrightarrow> formatted (Character # ds) (v # args) (Glyph (ucast v) # toks)"
| f_message: "formatted ds args toks \<Longrightarrow> formatted (Message ts # ds) (v # args) (ts @ toks)"
| f_percent: "formatted ds args toks \<Longrightarrow> formatted (Percent # ds) args (Glyph 0x25 # toks)"

inductive_cases formatted_NilE: "formatted [] args toks"
inductive_cases formatted_PlainE: "formatted (Plain tok # ds) args toks"
inductive_cases formatted_CharacterE: "formatted (Character # ds) args toks"
inductive_cases formatted_PercentE: "formatted (Percent # ds) args toks"
inductive_cases formatted_MessageE: "formatted (Message ts # ds) args toks"

text \<open>
  A string all of whose bytes, the NUL included, satisfy \<open>keep\<close>; and the arguments a format asks for:
  one for each of \<^verbatim>\<open>%d\<close>, \<^verbatim>\<open>%x\<close>, \<^verbatim>\<open>%c\<close> and \<^verbatim>\<open>%s\<close>, no backspace for a character and a string in kept memory for
  a message. A percent sign in the format is a directive, not a character.
\<close>

definition string_in :: "(addr \<Rightarrow> bool) \<Rightarrow> mem \<Rightarrow> addr \<Rightarrow> u8 list \<Rightarrow> bool" where
  "string_in keep m p bs \<longleftrightarrow> cstr m p bs \<and> (\<forall>k \<le> length bs. keep (p + of_nat k))"

fun args_fit :: "(addr \<Rightarrow> bool) \<Rightarrow> mem \<Rightarrow> directive list \<Rightarrow> u32 list \<Rightarrow> bool" where
  "args_fit keep m [] args \<longleftrightarrow> True"
| "args_fit keep m (Plain tok # ds) args \<longleftrightarrow> token_ok tok \<and> tok \<noteq> Glyph 0x25 \<and> args_fit keep m ds args"
| "args_fit keep m (Percent # ds) args \<longleftrightarrow> args_fit keep m ds args"
| "args_fit keep m (Signed # ds) (v # args) \<longleftrightarrow> args_fit keep m ds args"
| "args_fit keep m (Hex # ds) (v # args) \<longleftrightarrow> args_fit keep m ds args"
| "args_fit keep m (Character # ds) (v # args) \<longleftrightarrow> (ucast v :: u8) \<noteq> 8 \<and> args_fit keep m ds args"
| "args_fit keep m (Message toks # ds) (v # args) \<longleftrightarrow>
     (\<forall>tok \<in> set toks. token_ok tok) \<and> string_in keep m v (concat (map token_bytes toks)) \<and> args_fit keep m ds args"
| "args_fit keep m (d # ds) [] \<longleftrightarrow> False"

lemma decimal_string_length:
  assumes "decimal_string bs v" "v < 10 ^ k" "0 < k"
  shows "length bs \<le> k"
proof (cases bs)
  case Nil
  then show ?thesis by simp
next
  case (Cons c cs)
  with assms(1) have c: "c \<in> set digits" "c = digits ! 0 \<longrightarrow> cs = []" "string_value 10 (c # cs) = v"
    by (auto simp: decimal_string_def)
  show ?thesis
  proof (cases "c = digits ! 0")
    case True
    with c(2) Cons assms(3) show ?thesis by simp
  next
    case False
    then have "1 \<le> digit_value c" using c(1) by (auto simp: digits_def ascii_def digit_value_def)
    then have "10 ^ length cs \<le> digit_value c * 10 ^ length cs" by simp
    also have "\<dots> \<le> v" using c(3) by (simp add: string_value_Cons)
    finally have "10 ^ length cs < (10 :: nat) ^ k" using assms(2) by (rule le_less_trans)
    then have "length cs < k" by simp
    with Cons show ?thesis by simp
  qed
qed

lemma digits_glyphs: "c \<in> set digits \<Longrightarrow> token_ok (Glyph c)" "c \<in> set hex_chars \<Longrightarrow> token_ok (Glyph c)"
  by (auto simp: digits_def hex_chars_def ascii_def)

lemma signed_numeral_string:
  "\<exists>bs. int32_to_string m v p = put_bytes m p (bs @ [0]) \<and> signed_numeral v bs \<and> length bs < 20
     \<and> (\<forall>c \<in> set bs. token_ok (Glyph c))"
proof (cases "sint v = - (2 ^ 31)")
  case True
  then show ?thesis using int32_to_string_writes [of v m p] by (intro exI [of _ "[0x2D]"]) (simp add: signed_numeral_def)
next
  case False
  with int32_to_string_writes [of v m p] obtain ds where ds:
    "int32_to_string m v p = put_bytes m p ((if sint v < 0 then [of_char (CHR ''-'')] else []) @ ds @ [0])"
    "decimal_string ds (nat \<bar>sint v\<bar>)" by auto
  have "- (2 ^ 31) \<le> sint v" "sint v < 2 ^ 31" using sint_ge [of v] sint_lt [of v] by simp_all
  then have "nat \<bar>sint v\<bar> < 10 ^ 10" by (simp add: nat_less_iff)
  from decimal_string_length [OF ds(2) this] have "length ds \<le> 10" by simp
  moreover have "\<forall>c \<in> set ds. token_ok (Glyph c)" using ds(2) digits_glyphs(1) by (auto simp: decimal_string_def)
  ultimately show ?thesis
    using ds False by (intro exI [of _ "(if sint v < 0 then [0x2D] else []) @ ds"]) (auto simp: signed_numeral_def)
qed

lemma hex_numeral_string:
  "\<exists>bs. uint32_to_hex_string m v p = put_bytes m p (bs @ [0]) \<and> hex_numeral v bs \<and> length bs < 20
     \<and> (\<forall>c \<in> set bs. token_ok (Glyph c))"
proof -
  from uint32_to_hex_string_digits [of m v p] obtain bs where bs: "uint32_to_hex_string m v p = put_bytes m p (bs @ [0])"
    "length bs = 8" "set bs \<subseteq> set hex_chars" "string_value 16 bs = unat v" by blast
  with digits_glyphs(2) show ?thesis by (intro exI [of _ bs]) (auto simp: hex_numeral_def)
qed

lemma ansi_scan_fmt_token:
  "cstr m fmt (ds @ (if bright then [0x3B, 0x31] else []) @ 0x6D # rest) \<Longrightarrow>
   \<forall>c \<in> set ds. 0x30 \<le> c \<and> c \<le> 0x39 \<Longrightarrow> length ds < n \<Longrightarrow>
   ansi_scan_fmt m fmt code n =
     (fmt + of_nat (length ds + (if bright then 3 else 1)), Some (foldl (\<lambda>code c. code * 10 + (c - 0x30)) code ds, bright))"
proof (induction ds arbitrary: fmt code n)
  case Nil
  then show ?case by (cases n) (auto simp: add.assoc split: if_splits)
next
  case (Cons d ds)
  from Cons.prems(3) obtain n' where n: "n = Suc n'" "length ds < n'" by (cases n) auto
  have d: "d \<noteq> 0x6D" "d \<noteq> 0x3B" "0x30 \<le> d \<and> d \<le> 0x39" using Cons.prems(2) by auto
  have m: "m fmt = d" "cstr m (fmt + 1) (ds @ (if bright then [0x3B, 0x31] else []) @ 0x6D # rest)"
    using Cons.prems(1) by simp_all
  have "ansi_scan_fmt m fmt code n = ansi_scan_fmt m (fmt + 1) (code * 10 + (d - 0x30)) n'"
    using d by (simp add: n m(1) Let_def)
  also note Cons.IH [OF m(2) _ n(2)]
  finally show ?case using Cons.prems(2) by simp
qed

section \<open>A device and the buffer of the conversions\<close>

locale format_device = text_device +
  fixes buf :: addr
  assumes buf_own: "ok m \<Longrightarrow> in_region buf 20 a \<Longrightarrow> \<not> own a"
    and ok_frame: "ok m \<Longrightarrow> (\<And>a. \<not> in_region buf 20 a \<Longrightarrow> m' a = m a) \<Longrightarrow> ok m'"
    and cell_frame: "ok m \<Longrightarrow> (\<And>a. \<not> in_region buf 20 a \<Longrightarrow> m' a = m a) \<Longrightarrow> x < w \<Longrightarrow> y < h \<Longrightarrow> cell m' x y = cell m x y"
begin

definition kept :: "addr \<Rightarrow> bool" where "kept a \<longleftrightarrow> \<not> own a \<and> \<not> in_region buf 20 a"

definition formats :: "(tty \<times> mem) run \<Rightarrow> mem \<Rightarrow> screen \<Rightarrow> bool" where
  "formats r m s \<longleftrightarrow> (\<exists>t' m'. r = Some (Ret (t', m')) \<and> on_screen t' m' \<and> screen_of w h cell t' m' = s
     \<and> (\<forall>a. kept a \<longrightarrow> m' a = m a))"

abbreviation text_kept :: "mem \<Rightarrow> addr \<Rightarrow> u8 list \<Rightarrow> bool" where "text_kept \<equiv> string_in kept"

abbreviation args_ok :: "mem \<Rightarrow> directive list \<Rightarrow> u32 list \<Rightarrow> bool" where "args_ok \<equiv> args_fit kept"

lemma text_kept_message: "text_kept m p bs \<Longrightarrow> message_at m p bs"
  by (simp add: string_in_def message_at_def kept_def)

lemma text_kept_append: "text_kept m p (as @ bs) \<Longrightarrow> text_kept m (p + of_nat (length as)) bs"
  unfolding string_in_def
proof (intro conjI allI impI)
  assume *: "cstr m p (as @ bs) \<and> (\<forall>k \<le> length (as @ bs). kept (p + of_nat k))"
  then show "cstr m (p + of_nat (length as)) bs" by (simp add: cstr_append)
  fix k assume "k \<le> length bs"
  with *[THEN conjunct2, rule_format, of "length as + k"] show "kept (p + of_nat (length as) + of_nat k)" by (simp add: add.assoc)
qed

lemma text_kept_frame: "text_kept m p bs \<Longrightarrow> (\<And>a. kept a \<Longrightarrow> m' a = m a) \<Longrightarrow> text_kept m' p bs"
  unfolding string_in_def by (auto intro: cstr_cong [of m])

lemma args_ok_frame: "args_ok m ds args \<Longrightarrow> (\<And>a. kept a \<Longrightarrow> m' a = m a) \<Longrightarrow> args_ok m' ds args"
  by (induction kept m ds args rule: args_fit.induct) (auto intro: text_kept_frame)

lemma formats_prints: "prints r m s \<Longrightarrow> formats (returning r) m s"
  by (auto simp: prints_def formats_def returning_def kept_def)

lemma formats_bind:
  assumes "formats r m s"
    and "\<And>t' m'. on_screen t' m' \<Longrightarrow> screen_of w h cell t' m' = s \<Longrightarrow> (\<And>a. kept a \<Longrightarrow> m' a = m a) \<Longrightarrow> formats (f (t', m')) m' s'"
  shows "formats (rbind r f) m s'"
proof -
  from assms(1) obtain t' m' where 1: "r = Some (Ret (t', m'))" "on_screen t' m'" "screen_of w h cell t' m' = s"
    "\<And>a. kept a \<Longrightarrow> m' a = m a" by (auto simp: formats_def)
  from assms(2) [OF 1(2,3,4)] 1 show ?thesis by (auto simp: formats_def)
qed

text \<open>A numeral in the buffer is printed like any message.\<close>

lemma kprint_buffer:
  assumes t: "on_screen t m" and bs: "length bs < 20" "\<forall>c \<in> set bs. token_ok (Glyph c)"
  shows "formats (returning (kprint t (put_bytes m buf (bs @ [0])) buf)) m
    (fold typed_token (map Glyph bs) (screen_of w h cell t m))"
proof -
  let ?m = "put_bytes m buf (bs @ [0])"
  have ok: "ok m" using t by (simp add: on_screen_def)
  have out: "?m a = m a" if "\<not> in_region buf 20 a" for a
  proof -
    have "same_outside buf (Suc (length bs)) m ?m" using bs(1) by (intro put_bytes_same_outside) simp_all
    moreover have "\<not> in_region buf (Suc (length bs)) a" using that bs(1) by (auto simp: in_region_def)
    ultimately show ?thesis by (simp add: same_outside_def)
  qed
  have screen: "screen_of w h cell t ?m = screen_of w h cell t m"
  proof -
    have "cell ?m (of_nat x) (of_nat y) = cell m (of_nat x) (of_nat y)" if "x < unat w" "y < unat h" for x y
      using that less_trans [OF that(1) unat_u32_lt] less_trans [OF that(2) unat_u32_lt]
      by (intro cell_frame [OF ok out]) (simp_all add: word_less_nat_alt unat_of_nat32)
    then show ?thesis by (simp add: screen_of_def screen_lines_def)
  qed
  have no_nul: "0 \<notin> set bs" using bs(2) by auto
  have "\<not> own (buf + of_nat k)" if "k \<le> length bs" for k
  proof -
    have "in_region buf 20 (buf + of_nat k)" using that bs(1) by (subst in_region_offset) simp_all
    then show ?thesis by (rule buf_own [OF ok])
  qed
  then have "message_at ?m buf bs" using no_nul bs(1) by (auto simp: message_at_def intro: put_bytes_cstr)
  moreover have "concat (map token_bytes (map Glyph bs)) = bs" by (induction bs) simp_all
  moreover have "on_screen t ?m" using t ok_frame [OF ok out] by (simp add: on_screen_def)
  ultimately have "prints (kprint t ?m buf) ?m (fold typed_token (map Glyph bs) (screen_of w h cell t ?m))"
    using bs(2) by (intro kprint_tokens) auto
  then obtain t' m' where "kprint t ?m buf = Some (t', m')" "on_screen t' m'"
    "screen_of w h cell t' m' = fold typed_token (map Glyph bs) (screen_of w h cell t m)" "\<And>a. \<not> own a \<Longrightarrow> m' a = ?m a"
    by (auto simp: prints_def screen)
  with out show ?thesis by (auto simp: formats_def returning_def kept_def)
qed


section \<open>The loop over the format\<close>

text \<open>One directive, then the rest of the format.\<close>

lemma formats_continue:
  assumes ih: "\<And>t m fmt args. on_screen t m \<Longrightarrow> text_kept m fmt (concat (map format_bytes ds)) \<Longrightarrow> args_ok m ds args \<Longrightarrow>
      \<exists>toks. formatted ds args toks \<and> formats (kprintf_loop t m fmt args buf) m (fold typed_token toks (screen_of w h cell t m))"
    and r: "formats r m s" and rest: "text_kept m fmt' (concat (map format_bytes ds))" "args_ok m ds args'"
    and loop: "loop = rbind r (\<lambda>(t, m). kprintf_loop t m fmt' args' buf)"
  shows "\<exists>toks. formatted ds args' toks \<and> formats loop m (fold typed_token toks s)"
proof -
  from r obtain t1 m1 where 1: "r = Some (Ret (t1, m1))" "on_screen t1 m1" "screen_of w h cell t1 m1 = s"
    "\<And>a. kept a \<Longrightarrow> m1 a = m a" by (auto simp: formats_def)
  from ih [OF 1(2) text_kept_frame [OF rest(1) 1(4)] args_ok_frame [OF rest(2) 1(4)]] obtain toks where
    "formatted ds args' toks" "formats (kprintf_loop t1 m1 fmt' args' buf) m1 (fold typed_token toks s)"
    unfolding 1(3) by blast
  then show ?thesis using 1(4) by (auto simp: loop 1(1) formats_def)
qed

lemma loop_glyph:
  assumes "m fmt = c" "token_ok (Glyph c)" "c \<noteq> 0x25"
  shows "kprintf_loop t m fmt args buf = rbind (returning
      (if c = 9 then put_spaces 4 t m else if c = 10 then put_newline t m else kput_char t m c))
      (\<lambda>(t, m). kprintf_loop t m (fmt + 1) args buf)"
  using assms by (simp add: kprintf_loop.simps [of t m])

lemma loop_argument:
  assumes "m fmt = 0x25" "m (fmt + 1) = c" "c \<in> {0x64, 0x73, 0x63, 0x78}"
  shows "kprintf_loop t m fmt (v # args) buf = rbind (returning
      (if c = 0x64 then kprint t (int32_to_string m v buf) buf
       else if c = 0x73 then kprint t m v
       else if c = 0x63 then
         (let c = ucast v :: u8 in
          if c = 9 then put_spaces 4 t m else if c = 10 then put_newline t m
          else if c = 8 then put_backspace t m else kput_char t m c)
       else kprint t (uint32_to_hex_string m v buf) buf))
      (\<lambda>(t, m). kprintf_loop t m (fmt + 2) args buf)"
  using assms by (auto simp: kprintf_loop.simps [of t m] format_arg_def rbind_assoc case_prod_unfold)

lemma loop_color:
  assumes "cstr m fmt (token_bytes (SetColor ds bright) @ bs)" "token_ok (SetColor ds bright)"
  shows "kprintf_loop t m fmt args buf =
    kprintf_loop (set_ansi_color t (color_code ds) bright) m (fmt + of_nat (length (token_bytes (SetColor ds bright)))) args buf"
proof -
  have m: "m fmt = 0x1B" "m (fmt + 1) = 0x5B"
    "cstr m (fmt + 2) (ds @ (if bright then [0x3B, 0x31] else []) @ 0x6D # bs)"
    using assms(1) by (simp_all add: add.assoc)
  have "ansi_scan_fmt m (fmt + 2) 0 50 = (fmt + 2 + of_nat (length ds + (if bright then 3 else 1)), Some (color_code ds, bright))"
    using ansi_scan_fmt_token [OF m(3), of 50 0] assms(2) by (simp add: color_code_def)
  then have "kprintf_loop t m fmt args buf = kprintf_loop (set_ansi_color t (color_code ds) bright) m
      (fmt + 2 + of_nat (length ds + (if bright then 3 else 1))) args buf"
    by (simp add: kprintf_loop.simps [of t m] m(1,2) apply_ansi_def)
  moreover have "fmt + 2 + of_nat (length ds + (if bright then 3 else 1)) =
      fmt + of_nat (length (token_bytes (SetColor ds bright)))" by (simp add: algebra_simps)
  ultimately show ?thesis by metis
qed

lemma glyph_formats:
  assumes "on_screen t m"
  shows "formats (returning (if c = 9 then put_spaces 4 t m else if c = 10 then put_newline t m else kput_char t m c)) m
    (typed_token (Glyph c) (screen_of w h cell t m))"
  using put_spaces_types [OF assms, of 4] scroll_feed [OF assms] kput_char_types [OF assms, of c]
  by (intro formats_prints) simp

text \<open>One step of the loop: a token of the format itself, and a number.\<close>

lemma plain_formats:
  assumes t: "on_screen t m" and c: "cstr m fmt (token_bytes tok @ bs)" and tok: "token_ok tok" "tok \<noteq> Glyph 0x25"
  shows "\<exists>r. formats r m (typed_token tok (screen_of w h cell t m))
    \<and> kprintf_loop t m fmt args buf = rbind r (\<lambda>(t, m). kprintf_loop t m (fmt + of_nat (length (token_bytes tok))) args buf)"
proof (cases tok)
  case (Glyph c)
  with loop_glyph [of m fmt c] glyph_formats [OF t, of c] assms(2-4) show ?thesis by fastforce
next
  case (SetColor cs bright)
  let ?t = "set_ansi_color t (color_code cs) bright"
  have "formats (Some (Ret (?t, m))) m (typed_token tok (screen_of w h cell t m))"
    using on_screen_ansi [OF t] screen_of_ansi by (simp add: formats_def SetColor)
  with loop_color [of m fmt cs bright bs] c tok(1) show ?thesis
    unfolding SetColor by (intro exI [of _ "Some (Ret (?t, m))"]) simp
qed

lemma number_formats:
  assumes t: "on_screen t m" and c: "m fmt = 0x25" "m (fmt + 1) = c" "c = 0x64 \<or> c = 0x78"
  shows "\<exists>r bs. (if c = 0x64 then signed_numeral v bs else hex_numeral v bs)
    \<and> formats r m (fold typed_token (map Glyph bs) (screen_of w h cell t m))
    \<and> kprintf_loop t m fmt (v # args) buf = rbind r (\<lambda>(t, m). kprintf_loop t m (fmt + 2) args buf)"
proof (cases "c = 0x64")
  case True
  from signed_numeral_string [of m v buf] obtain bs where "int32_to_string m v buf = put_bytes m buf (bs @ [0])"
    "signed_numeral v bs" "length bs < 20" "\<forall>c \<in> set bs. token_ok (Glyph c)" by blast
  with True loop_argument [OF c(1,2)] kprint_buffer [OF t] show ?thesis by fastforce
next
  case False
  from hex_numeral_string [of m v buf] obtain bs where "uint32_to_hex_string m v buf = put_bytes m buf (bs @ [0])"
    "hex_numeral v bs" "length bs < 20" "\<forall>c \<in> set bs. token_ok (Glyph c)" by blast
  with False c(3) loop_argument [OF c(1,2)] kprint_buffer [OF t] show ?thesis by fastforce
qed

lemma kprintf_loop_formats:
  "on_screen t m \<Longrightarrow> text_kept m fmt (concat (map format_bytes ds)) \<Longrightarrow> args_ok m ds args \<Longrightarrow>
   \<exists>toks. formatted ds args toks \<and> formats (kprintf_loop t m fmt args buf) m (fold typed_token toks (screen_of w h cell t m))"
proof (induction ds arbitrary: t m fmt args)
  case Nil
  then have "formats (kprintf_loop t m fmt args buf) m (screen_of w h cell t m)"
    by (simp add: kprintf_loop.simps string_in_def formats_def)
  then show ?case by (intro exI [of _ "[]"]) (simp add: f_end)
next
  case (Cons d ds)
  note shown = Cons.prems(1) and str = Cons.prems(2) and args = Cons.prems(3)
  let ?s = "screen_of w h cell t m" and ?loop = "kprintf_loop t m fmt args buf"
  have rest: "text_kept m (fmt + of_nat (length (format_bytes d))) (concat (map format_bytes ds))"
    using text_kept_append [of m fmt "format_bytes d"] str by simp
  have c: "cstr m fmt (format_bytes d @ concat (map format_bytes ds))" using str by (simp add: string_in_def)
  have continued: "formats r m s \<Longrightarrow> text_kept m fmt' (concat (map format_bytes ds)) \<Longrightarrow> args_ok m ds args' \<Longrightarrow>
      loop = rbind r (\<lambda>(t, m). kprintf_loop t m fmt' args' buf) \<Longrightarrow>
      \<exists>toks. formatted ds args' toks \<and> formats loop m (fold typed_token toks s)" for r m s fmt' args' loop
    using Cons.IH by (rule formats_continue)
  show ?case
  proof (cases d)
    case (Plain tok)
    then have c': "cstr m fmt (token_bytes tok @ concat (map format_bytes ds))" and tok: "token_ok tok" "tok \<noteq> Glyph 0x25"
      and args': "args_ok m ds args" using c args by simp_all
    from plain_formats [OF shown c' tok] obtain r where r: "formats r m (typed_token tok ?s)"
      "?loop = rbind r (\<lambda>(t, m). kprintf_loop t m (fmt + of_nat (length (token_bytes tok))) args buf)" by blast
    from continued [OF r(1) _ args' r(2)] rest Plain show ?thesis by (fastforce intro: f_plain)
  next
    case Signed
    with args obtain v args' where a: "args = v # args'" "args_ok m ds args'" by (cases args) auto
    from number_formats [OF shown, of fmt "0x64" v args'] c Signed obtain r bs where n: "signed_numeral v bs"
      "formats r m (fold typed_token (map Glyph bs) ?s)" "?loop = rbind r (\<lambda>(t, m). kprintf_loop t m (fmt + 2) args' buf)"
      by (auto simp: a)
    from continued [OF n(2) _ a(2) n(3)] rest Signed n(1) show ?thesis by (fastforce simp: a intro: f_signed)
  next
    case Hex
    with args obtain v args' where a: "args = v # args'" "args_ok m ds args'" by (cases args) auto
    from number_formats [OF shown, of fmt "0x78" v args'] c Hex obtain r bs where n: "hex_numeral v bs"
      "formats r m (fold typed_token (map Glyph bs) ?s)" "?loop = rbind r (\<lambda>(t, m). kprintf_loop t m (fmt + 2) args' buf)"
      by (auto simp: a)
    from continued [OF n(2) _ a(2) n(3)] rest Hex n(1) show ?thesis by (fastforce simp: a intro: f_hex)
  next
    case Character
    with args obtain v args' where a: "args = v # args'" "args_ok m ds args'" "(ucast v :: u8) \<noteq> 8" by (cases args) auto
    have "?loop = rbind (returning (let c = ucast v :: u8 in
        if c = 9 then put_spaces 4 t m else if c = 10 then put_newline t m else kput_char t m c))
        (\<lambda>(t, m). kprintf_loop t m (fmt + 2) args' buf)"
      using c Character loop_argument [of m fmt "0x63"] a(3) by (simp add: a(1) Let_def)
    from continued [OF glyph_formats [OF shown] _ a(2) this [unfolded Let_def]] rest Character
    show ?thesis by (fastforce simp: a(1) intro: f_character)
  next
    case (Message ts)
    with args obtain v args' where a: "args = v # args'" "args_ok m ds args'" "\<forall>tok \<in> set ts. token_ok tok"
      "text_kept m v (concat (map token_bytes ts))" by (cases args) auto
    have "?loop = rbind (returning (kprint t m v)) (\<lambda>(t, m). kprintf_loop t m (fmt + 2) args' buf)"
      using c Message loop_argument [of m fmt "0x73"] by (simp add: a(1))
    from continued [OF formats_prints [OF kprint_tokens [OF shown text_kept_message [OF a(4)] a(3)]] _ a(2) this] rest Message
    show ?thesis by (fastforce simp: a(1) intro: f_message)
  next
    case Percent
    have "?loop = rbind (returning (kput_char t m 0x25)) (\<lambda>(t, m). kprintf_loop t m (fmt + 2) args buf)"
      using c Percent by (simp add: kprintf_loop.simps [of t m] format_arg_def rbind_assoc case_prod_unfold)
    moreover have "formats (returning (kput_char t m 0x25)) m (typed_token (Glyph 0x25) ?s)"
      using glyph_formats [OF shown, of "0x25"] by simp
    ultimately show ?thesis using continued [of "returning (kput_char t m 0x25)"] rest args Percent
      by (fastforce intro: f_percent)
  qed
qed

end

section \<open>The EGA driver\<close>

definition buffer_apart :: "addr \<Rightarrow> addr \<Rightarrow> bool" where
  "buffer_apart fb buf \<longleftrightarrow> disjoint_regions (fb + 20) 8 buf 20 \<and> disjoint_regions buf 20 0xB8000 4000"

interpretation ega_fmt: format_device "snd (ega_driver_init fb)" 80 25
  "\<lambda>m. ega_ok fb m \<and> buffer_apart fb buf" ega_own ega_cell "(0, 7)" buf for fb buf
proof
  fix m m' :: mem and a x y :: u32
  assume ok: "ega_ok fb m \<and> buffer_apart fb buf"
  then have ega: "ega_ok fb m" and apart: "disjoint_regions (fb + 20) 8 buf 20" "disjoint_regions buf 20 0xB8000 4000"
    by (simp_all add: buffer_apart_def)
  show "char_device_get_width (snd (ega_driver_init fb)) m = 80" "char_device_get_height (snd (ega_driver_init fb)) m = 25"
    using ega.width [OF ega] ega.height [OF ega] by simp_all
  show "\<exists>m'. char_device_scroll_line (snd (ega_driver_init fb)) m = Some (EOK, m') \<and> (ega_ok fb m' \<and> buffer_apart fb buf)
        \<and> (\<forall>a. \<not> ega_own a \<longrightarrow> m' a = m a)
        \<and> (\<forall>x < 80. \<forall>y < 25. ega_cell m' x y = (if y + 1 < 25 then ega_cell m x (y + 1) else (0, 7)))"
    using ega.scroll_up [OF ega] ok by simp
  show "\<exists>m'. char_device_write_char (snd (ega_driver_init fb)) x y color c m = (EOK, m') \<and> (ega_ok fb m' \<and> buffer_apart fb buf)
        \<and> (\<forall>a. \<not> ega_own a \<longrightarrow> m' a = m a)
        \<and> (\<forall>x' < 80. \<forall>y' < 25. ega_cell m' x' y' = (if x' = x \<and> y' = y then (c, color) else ega_cell m x' y'))"
    if "x < 80" "y < 25" for color c
    using ega.write_cell [OF ega that] ok by simp
  show "\<not> ega_own a" if "in_region buf 20 a"
    using that apart(2) by (auto simp: ega_own_def disjoint_regions_def)
  assume out: "\<And>a. \<not> in_region buf 20 a \<Longrightarrow> m' a = m a"
  show "ega_ok fb m' \<and> buffer_apart fb buf"
    using ok ega_size_outside [OF apart(1) out] by (simp add: ega_ok_def)
  show "ega_cell m' x y = ega_cell m x y" if "x < 80" "y < 25"
  proof -
    have "ega_own (0xB8000 + 2 * (y * 80 + x))" "ega_own (0xB8000 + (2 * (y * 80 + x) + 1))"
      unfolding ega_own_offset unat_cell [OF that] using that by (simp_all add: word_less_nat_alt)
    then have "\<not> in_region buf 20 (0xB8000 + 2 * (y * 80 + x))" "\<not> in_region buf 20 (0xB8000 + (2 * (y * 80 + x) + 1))"
      using apart(2) by (auto simp: ega_own_def disjoint_regions_def)
    then show ?thesis using out by (simp add: ega_cell_def)
  qed
qed simp_all

definition ega_kept :: "addr \<Rightarrow> addr \<Rightarrow> bool" where
  "ega_kept buf a \<longleftrightarrow> \<not> in_region 0xB8000 4000 a \<and> \<not> in_region buf 20 a"

lemma ega_fmt_kept: "ega_fmt.kept = ega_kept"
  by (intro ext) (simp add: ega_fmt.kept_def ega_kept_def ega_own_def)

lemma ega_fmt_on_screen: "ega_fmt.on_screen fb buf t m \<longleftrightarrow> ega_tty fb t m \<and> buffer_apart fb buf"
  by (auto simp: ega_fmt.on_screen_def ega_tty_def)

text \<open>
  C14. \<open>kprintf\<close> of a format with directives for numbers, characters, strings and colours returns, and the
  screen is the one the abstract screen reaches by typing the text the directives stand for with their
  arguments: the numerals of the numbers, the characters, the strings. Only the video memory and the
  buffer of the conversions have changed.
\<close>

theorem kprintf_refines_screen:
  assumes "ega_tty fb t m" and "buffer_apart fb buf"
    and "string_in (ega_kept buf) m fmt (concat (map format_bytes ds))" and "args_fit (ega_kept buf) m ds args"
  shows "\<exists>toks t' m'. formatted ds args toks \<and> kprintf t m fmt args buf = Some (Ret (t', m')) \<and> ega_tty fb t' m'
    \<and> ega_screen t' m' = fold (type_token 80 25 (0, 7)) toks (ega_screen t m)
    \<and> (\<forall>a. ega_kept buf a \<longrightarrow> m' a = m a)"
proof -
  have "ega_fmt.on_screen fb buf t m" using assms(1,2) unfolding ega_fmt_on_screen by simp
  from ega_fmt.kprintf_loop_formats [OF this, unfolded ega_fmt_kept, OF assms(3,4)] assms(2) show ?thesis
    unfolding ega_fmt.formats_def ega_fmt_on_screen ega_fmt_kept kprintf_def by auto
qed

text \<open>The format \<^verbatim>\<open>A%c%%%s\<close> with a character and a string.\<close>

definition demo_format :: mem where
  "demo_format = put_bytes (put_bytes demo_mem 0x2000 [0x41, 0x25, 0x63, 0x25, 0x25, 0x25, 0x73]) 0x3000 [0x43]"

lemma ega_string_in:
  assumes "cstr m p bs" "disjoint_regions p (Suc (length bs)) 0xB8000 4000" "disjoint_regions p (Suc (length bs)) buf 20"
    and "length bs < 2 ^ 32"
  shows "string_in (ega_kept buf) m p bs"
  unfolding string_in_def
proof (intro conjI allI impI)
  show "cstr m p bs" by fact
  fix k assume "k \<le> length bs"
  with assms(4) have "in_region p (Suc (length bs)) (p + of_nat k)" by (subst in_region_offset) auto
  with assms(2,3) show "ega_kept buf (p + of_nat k)" by (auto simp: disjoint_regions_def ega_kept_def)
qed

lemma kprintf_refines_screen_witness:
  "\<exists>t' m'. kprintf demo_tty demo_format 0x2000 [0x42, 0x3000] 0x4000 = Some (Ret (t', m'))
    \<and> at_x (ega_screen t' m') = 4 \<and> map ((!) (text_lines (ega_screen t' m') ! 0)) [0, 1, 2, 3] = [(0x41, 0x0F), (0x42, 0x0F), (0x25, 0x0F), (0x43, 0x0F)]"
proof -
  let ?ds = "[Plain (Glyph 0x41), Character, Percent, Message [Glyph 0x43]]"
  have "ega_ok 0x500 demo_format"
    using demo_ok by (simp add: demo_format_def ega_ok_def ega_driver_get_width_def ega_driver_get_height_def load32_def)
  then have "ega_tty 0x500 demo_tty demo_format" by (simp add: ega_tty_def demo_tty_def)
  moreover have "buffer_apart 0x500 0x4000"
    unfolding buffer_apart_def by (intro conjI disjoint_regions_nat) simp_all
  moreover have "string_in (ega_kept 0x4000) demo_format 0x2000 (concat (map format_bytes ?ds))"
    by (intro ega_string_in disjoint_regions_nat) (simp_all add: demo_format_def demo_mem_def store32_def)
  moreover have "string_in (ega_kept 0x4000) demo_format 0x3000 [0x43]"
    by (intro ega_string_in disjoint_regions_nat) (simp_all add: demo_format_def demo_mem_def store32_def)
  then have "args_fit (ega_kept 0x4000) demo_format ?ds [0x42, 0x3000]" by simp
  ultimately obtain toks t' m' where *: "formatted ?ds [0x42, 0x3000] toks"
    "kprintf demo_tty demo_format 0x2000 [0x42, 0x3000] 0x4000 = Some (Ret (t', m'))"
    "ega_screen t' m' = fold (type_token 80 25 (0, 7)) toks (ega_screen demo_tty demo_format)"
    using kprintf_refines_screen by blast
  have "toks = [Glyph 0x41, Glyph 0x42, Glyph 0x25, Glyph 0x43]"
    using *(1) by (auto elim!: formatted_PlainE formatted_CharacterE formatted_PercentE formatted_MessageE formatted_NilE)
  moreover have "length (screen_lines 80 25 c) = 25" "length (screen_lines 80 25 c ! 0) = 80" for c
    by (simp_all add: screen_lines_def)
  ultimately show ?thesis using *(2,3)
    by (simp add: type_glyph_def put_glyph_def screen_of_def demo_tty_def Let_def)
      (simp only: numeral_2_eq_2 numeral_3_eq_3, simp)
qed

end
