(* ===== verification/Ports.thy ===== *)
theory Ports
  imports Kernel_Prelude
begin

text \<open>
  \<^verbatim>\<open>kernel/src/arch/i686/ports.c\<close>: the port instructions. What a port does belongs to the
  hardware: \<open>io_ports\<close> has one function per instruction, on a state \<open>'d\<close> of the devices, and
  is a parameter of everything that talks to a device.
\<close>

record 'd io_ports =
  in8 :: "u16 \<Rightarrow> 'd \<Rightarrow> u8 \<times> 'd"
  out8 :: "u16 \<Rightarrow> u8 \<Rightarrow> 'd \<Rightarrow> 'd"
  in16 :: "u16 \<Rightarrow> 'd \<Rightarrow> u16 \<times> 'd"
  out16 :: "u16 \<Rightarrow> u16 \<Rightarrow> 'd \<Rightarrow> 'd"
  in32 :: "u16 \<Rightarrow> 'd \<Rightarrow> u32 \<times> 'd"
  out32 :: "u16 \<Rightarrow> u32 \<Rightarrow> 'd \<Rightarrow> 'd"

definition port_byte_in :: "'d io_ports \<Rightarrow> u16 \<Rightarrow> 'd \<Rightarrow> u8 \<times> 'd" where "port_byte_in io port = in8 io port"
definition port_byte_out :: "'d io_ports \<Rightarrow> u16 \<Rightarrow> u8 \<Rightarrow> 'd \<Rightarrow> 'd" where "port_byte_out io port data = out8 io port data"
definition port_word_in :: "'d io_ports \<Rightarrow> u16 \<Rightarrow> 'd \<Rightarrow> u16 \<times> 'd" where "port_word_in io port = in16 io port"
definition port_word_out :: "'d io_ports \<Rightarrow> u16 \<Rightarrow> u16 \<Rightarrow> 'd \<Rightarrow> 'd" where "port_word_out io port data = out16 io port data"
definition port_dword_in :: "'d io_ports \<Rightarrow> u16 \<Rightarrow> 'd \<Rightarrow> u32 \<times> 'd" where "port_dword_in io port = in32 io port"
definition port_dword_out :: "'d io_ports \<Rightarrow> u16 \<Rightarrow> u32 \<Rightarrow> 'd \<Rightarrow> 'd" where "port_dword_out io port data = out32 io port data"

lemmas port_defs = port_byte_in_def port_byte_out_def port_word_in_def port_word_out_def
  port_dword_in_def port_dword_out_def

end
