(* ===== verification/Pci.thy ===== *)
theory Pci
  imports Ports
begin

text \<open>
  \<^verbatim>\<open>kernel/src/dev/pci.c\<close>: access to the PCI configuration space through the ports \<open>0xCF8\<close> and
  \<open>0xCFC\<close>, and the enumeration of buses, devices and functions. The descriptors are local
  variables of the C function; the model returns the ones it completes, in their order.
\<close>

section \<open>Configuration accesses\<close>

definition PCI_DATA_PORT :: u16 where "PCI_DATA_PORT = 0xCFC"
definition PCI_COMMAND_PORT :: u16 where "PCI_COMMAND_PORT = 0xCF8"

definition pci_id :: "u16 \<Rightarrow> u16 \<Rightarrow> u16 \<Rightarrow> u32 \<Rightarrow> u32" where
  "pci_id bus device function register_offset =
     push_bit 31 1 OR push_bit 16 (ucast (bus AND 0xFF)) OR push_bit 11 (ucast (device AND 0x1F))
     OR push_bit 8 (ucast (function AND 0x07)) OR (register_offset AND 0xFC)"

definition pci_read :: "'d io_ports \<Rightarrow> u16 \<Rightarrow> u16 \<Rightarrow> u16 \<Rightarrow> u32 \<Rightarrow> 'd \<Rightarrow> u32 \<times> 'd" where
  "pci_read io bus device function register_offset d =
     (let d = port_dword_out io PCI_COMMAND_PORT (pci_id bus device function register_offset) d;
          (result, d) = port_dword_in io PCI_DATA_PORT d
      in (drop_bit (8 * unat (register_offset mod 4)) result, d))"

definition pci_write :: "'d io_ports \<Rightarrow> u16 \<Rightarrow> u16 \<Rightarrow> u16 \<Rightarrow> u32 \<Rightarrow> u32 \<Rightarrow> 'd \<Rightarrow> 'd" where
  "pci_write io bus device function register_offset v d =
     port_dword_out io PCI_DATA_PORT v
       (port_dword_out io PCI_COMMAND_PORT (pci_id bus device function register_offset) d)"

section \<open>Descriptors\<close>

datatype bar_type = BAR_TYPE_MEMORY_MAPPING | BAR_TYPE_INPUT_OUTPUT

record base_address_register =
  prefetchable :: bool
  bar_address :: u32
  bar_size :: u32
  bar_kind :: bar_type

record pci_device_descriptor =
  port_base :: u32
  interrupt :: u32
  pci_bus :: u16
  pci_device :: u16
  pci_function :: u16
  vendor_id :: u16
  pci_device_id :: u16
  class_id :: u8
  subclass_id :: u8
  interface_id :: u8
  revision :: u8

definition device_has_functions :: "'d io_ports \<Rightarrow> u16 \<Rightarrow> u16 \<Rightarrow> 'd \<Rightarrow> bool \<times> 'd" where
  "device_has_functions io bus device d =
     (let (r, d) = pci_read io bus device 0 0x0E d in (r AND 0x80 \<noteq> 0, d))"

definition populate_pci_device_descriptor ::
  "'d io_ports \<Rightarrow> pci_device_descriptor \<Rightarrow> u16 \<Rightarrow> u16 \<Rightarrow> u16 \<Rightarrow> 'd \<Rightarrow> pci_device_descriptor \<times> 'd" where
  "populate_pci_device_descriptor io desc bus device function d =
     (let (vendor, d) = pci_read io bus device function 0x00 d;
          (dev, d) = pci_read io bus device function 0x02 d;
          (cls, d) = pci_read io bus device function 0x0b d;
          (sub, d) = pci_read io bus device function 0x0a d;
          (intf, d) = pci_read io bus device function 0x09 d;
          (rev, d) = pci_read io bus device function 0x08 d;
          (irq, d) = pci_read io bus device function 0x3c d
      in (desc\<lparr>pci_bus := bus, pci_device := device, pci_function := function,
            vendor_id := ucast vendor, pci_device_id := ucast dev, class_id := ucast cls,
            subclass_id := ucast sub, interface_id := ucast intf, revision := ucast rev,
            interrupt := irq\<rparr>, d))"

definition populate_base_address_register ::
  "'d io_ports \<Rightarrow> u16 \<Rightarrow> u16 \<Rightarrow> u16 \<Rightarrow> u16 \<Rightarrow> 'd \<Rightarrow> base_address_register \<times> 'd" where
  "populate_base_address_register io bus device function bar_num d =
     (let bar = \<lparr>prefetchable = False, bar_address = 0, bar_size = 0, bar_kind = BAR_TYPE_MEMORY_MAPPING\<rparr>;
          (r, d) = pci_read io bus device function 0x0e d;
          headertype = r AND 0x7f;
          max_bars = ucast (6 - 4 * headertype) :: u16
      in if bar_num \<ge> max_bars then (bar, d)
         else let (bar_value, d) = pci_read io bus device function (0x10 + 4 * ucast bar_num) d
              in if bar_value AND 0x01 = 0
                 then (bar\<lparr>bar_kind := BAR_TYPE_MEMORY_MAPPING,
                           prefetchable := (drop_bit 3 bar_value AND 0x01 = 0x01)\<rparr>, d)
                 else (bar\<lparr>bar_kind := BAR_TYPE_INPUT_OUTPUT,
                           bar_address := bar_value AND NOT 0x03, prefetchable := False\<rparr>, d))"

section \<open>Enumeration\<close>

primrec pci_scan_bars ::
  "'d io_ports \<Rightarrow> u16 \<Rightarrow> u16 \<Rightarrow> u16 \<Rightarrow> nat \<Rightarrow> pci_device_descriptor \<Rightarrow> 'd \<Rightarrow> pci_device_descriptor \<times> 'd" where
  "pci_scan_bars io bus device function 0 desc d = (desc, d)"
| "pci_scan_bars io bus device function (Suc n) desc d =
     (let (desc, d) = pci_scan_bars io bus device function n desc d;
          (bar, d) = populate_base_address_register io bus device function (of_nat n) d
      in (if bar_address bar \<noteq> 0 \<and> bar_kind bar = BAR_TYPE_INPUT_OUTPUT
          then desc\<lparr>port_base := bar_address bar\<rparr> else desc, d))"

primrec pci_scan_functions ::
  "'d io_ports \<Rightarrow> pci_device_descriptor \<Rightarrow> u16 \<Rightarrow> u16 \<Rightarrow> nat \<Rightarrow> 'd \<Rightarrow> pci_device_descriptor list \<times> 'd" where
  "pci_scan_functions io desc bus device 0 d = ([], d)"
| "pci_scan_functions io desc bus device (Suc n) d =
     (let (found, d) = pci_scan_functions io desc bus device n d;
          (desc, d) = populate_pci_device_descriptor io desc bus device (of_nat n) d
      in if vendor_id desc = 0x0000 \<or> vendor_id desc = 0xFFFF then (found, d)
         else let (desc, d) = pci_scan_bars io bus device (of_nat n) 6 desc d
              in (found @ [desc], d))"

primrec pci_scan_devices ::
  "'d io_ports \<Rightarrow> pci_device_descriptor \<Rightarrow> u16 \<Rightarrow> nat \<Rightarrow> 'd \<Rightarrow> pci_device_descriptor list \<times> 'd" where
  "pci_scan_devices io desc bus 0 d = ([], d)"
| "pci_scan_devices io desc bus (Suc n) d =
     (let (found, d) = pci_scan_devices io desc bus n d;
          (multi, d) = device_has_functions io bus (of_nat n) d;
          (more, d) = pci_scan_functions io desc bus (of_nat n) (if multi then 8 else 1) d
      in (found @ more, d))"

primrec pci_scan_buses ::
  "'d io_ports \<Rightarrow> pci_device_descriptor \<Rightarrow> nat \<Rightarrow> 'd \<Rightarrow> pci_device_descriptor list \<times> 'd" where
  "pci_scan_buses io desc 0 d = ([], d)"
| "pci_scan_buses io desc (Suc n) d =
     (let (found, d) = pci_scan_buses io desc n d;
          (more, d) = pci_scan_devices io desc (of_nat n) 32 d
      in (found @ more, d))"

text \<open>\<open>desc\<close> is the uninitialised local variable.\<close>

definition pci_instantiate_drivers :: "'d io_ports \<Rightarrow> pci_device_descriptor \<Rightarrow> 'd \<Rightarrow> pci_device_descriptor list \<times> 'd" where
  "pci_instantiate_drivers io desc d = pci_scan_buses io desc 8 d"

section \<open>The enumeration finds the functions that are there\<close>

text \<open>
  The documented behaviour of the two ports (configuration mechanism 1): after an address has
  been written to \<open>0xCF8\<close>, \<open>0xCFC\<close> reads the 32-bit register of the configuration space there.
\<close>

definition pci_host :: "'d io_ports \<Rightarrow> (u32 \<Rightarrow> u32) \<Rightarrow> bool" where
  "pci_host io cfg \<longleftrightarrow> (\<forall>a d. fst (in32 io 0xCFC (out32 io 0xCF8 a d)) = cfg a)"

definition config :: "(u32 \<Rightarrow> u32) \<Rightarrow> u16 \<Rightarrow> u16 \<Rightarrow> u16 \<Rightarrow> u32 \<Rightarrow> u32" where
  "config cfg bus device function reg = drop_bit (8 * unat (reg mod 4)) (cfg (pci_id bus device function reg))"

definition bar_port :: "(u32 \<Rightarrow> u32) \<Rightarrow> u16 \<Rightarrow> u16 \<Rightarrow> u16 \<Rightarrow> nat \<Rightarrow> u32 option" where
  "bar_port cfg bus device function n =
     (let v = config cfg bus device function (0x10 + 4 * ucast (of_nat n :: u16))
      in if of_nat n < (ucast (6 - 4 * (config cfg bus device function 0x0e AND 0x7f)) :: u16) \<and> v AND 1 \<noteq> 0
           \<and> v AND NOT 3 \<noteq> 0
         then Some (v AND NOT 3) else None)"

definition descriptor :: "(u32 \<Rightarrow> u32) \<Rightarrow> pci_device_descriptor \<Rightarrow> u16 \<Rightarrow> u16 \<Rightarrow> u16 \<Rightarrow> pci_device_descriptor" where
  "descriptor cfg desc bus device function =
     desc\<lparr>pci_bus := bus, pci_device := device, pci_function := function,
       vendor_id := ucast (config cfg bus device function 0), pci_device_id := ucast (config cfg bus device function 2),
       class_id := ucast (config cfg bus device function 0xb), subclass_id := ucast (config cfg bus device function 0xa),
       interface_id := ucast (config cfg bus device function 9), revision := ucast (config cfg bus device function 8),
       interrupt := config cfg bus device function 0x3c,
       port_base := fold (\<lambda>n p. case bar_port cfg bus device function n of None \<Rightarrow> p | Some p' \<Rightarrow> p') [0..<6] (port_base desc)\<rparr>"

definition present :: "(u32 \<Rightarrow> u32) \<Rightarrow> u16 \<times> u16 \<times> u16 \<Rightarrow> bool" where
  "present cfg = (\<lambda>(bus, device, function). (ucast (config cfg bus device function 0) :: u16) \<notin> {0, 0xFFFF})"

definition candidates :: "(u32 \<Rightarrow> u32) \<Rightarrow> (u16 \<times> u16 \<times> u16) list" where
  "candidates cfg = concat (map (\<lambda>bus. concat (map (\<lambda>device.
     map (\<lambda>function. (of_nat bus, of_nat device, of_nat function))
       [0..<(if config cfg (of_nat bus) (of_nat device) 0 0x0e AND 0x80 \<noteq> 0 then 8 else 1)]) [0..<32])) [0..<8])"

lemma pci_read_config:
  "pci_host io cfg \<Longrightarrow> fst (pci_read io bus device function reg d) = config cfg bus device function reg"
  by (auto simp: pci_host_def pci_read_def config_def port_defs PCI_COMMAND_PORT_def PCI_DATA_PORT_def Let_def split_beta)

lemma populate_descriptor_config:
  "pci_host io cfg \<Longrightarrow> fst (populate_pci_device_descriptor io desc bus device function d)
     = (descriptor cfg desc bus device function)\<lparr>port_base := port_base desc\<rparr>"
  by (simp add: populate_pci_device_descriptor_def descriptor_def split_beta pci_read_config Let_def)

lemma populate_bar_config:
  assumes "pci_host io cfg"
  shows "(let bar = fst (populate_base_address_register io bus device function (of_nat n) d)
          in if bar_address bar \<noteq> 0 \<and> bar_kind bar = BAR_TYPE_INPUT_OUTPUT then Some (bar_address bar) else None)
     = bar_port cfg bus device function n"
  by (auto simp: populate_base_address_register_def bar_port_def split_beta pci_read_config [OF assms] Let_def dest: leD)

lemma scan_bars_config:
  assumes "pci_host io cfg"
  shows "fst (pci_scan_bars io bus device function n desc d) = desc\<lparr>port_base :=
      fold (\<lambda>n p. case bar_port cfg bus device function n of None \<Rightarrow> p | Some p' \<Rightarrow> p') [0..<n] (port_base desc)\<rparr>"
proof (induction n)
  case (Suc n)
  let ?s = "pci_scan_bars io bus device function n desc d"
  have "fst (pci_scan_bars io bus device function (Suc n) desc d) =
      (case bar_port cfg bus device function n of None \<Rightarrow> fst ?s | Some p \<Rightarrow> (fst ?s)\<lparr>port_base := p\<rparr>)"
    using populate_bar_config [OF assms, of bus device "function" n "snd ?s"]
    by (auto simp: split_beta Let_def split: if_splits option.splits)
  then show ?case by (simp add: Suc.IH split: option.splits)
qed simp

lemma scan_functions_config:
  assumes "pci_host io cfg"
  shows "fst (pci_scan_functions io desc bus device n d) =
     map (\<lambda>(bus, device, function). descriptor cfg desc bus device function)
       (filter (present cfg) (map (\<lambda>f. (bus, device, of_nat f)) [0..<n]))"
proof (induction n)
  case (Suc n)
  have v: "vendor_id (descriptor cfg desc bus device f\<lparr>port_base := p\<rparr>) = ucast (config cfg bus device f 0)" for f p
    by (simp add: descriptor_def)
  have full: "(descriptor cfg desc bus device f)\<lparr>port_base :=
      fold (\<lambda>n p. case bar_port cfg bus device f n of None \<Rightarrow> p | Some p' \<Rightarrow> p') [0..<6] (port_base desc)\<rparr>
      = descriptor cfg desc bus device f" for f
    by (simp add: descriptor_def)
  show ?case
    using Suc.IH
    by (simp add: split_beta Let_def populate_descriptor_config [OF assms] scan_bars_config [OF assms] v full present_def
        del: upt_Suc add: upt_Suc_append)
qed simp

lemma device_has_functions_config:
  "pci_host io cfg \<Longrightarrow> fst (device_has_functions io bus device d) \<longleftrightarrow> config cfg bus device 0 0x0e AND 0x80 \<noteq> 0"
  by (simp add: device_has_functions_def split_beta pci_read_config Let_def)

lemma scan_devices_config:
  assumes "pci_host io cfg"
  shows "fst (pci_scan_devices io desc bus n d) =
     map (\<lambda>(bus, device, function). descriptor cfg desc bus device function)
       (filter (present cfg) (concat (map (\<lambda>device. map (\<lambda>f. (bus, of_nat device, of_nat f))
          [0..<(if config cfg bus (of_nat device) 0 0x0e AND 0x80 \<noteq> 0 then 8 else 1)]) [0..<n])))"
proof (induction n)
  case (Suc n)
  then show ?case
    by (simp add: split_beta Let_def scan_functions_config [OF assms] device_has_functions_config [OF assms]
        del: upt_Suc pci_scan_functions.simps add: upt_Suc_append)
qed simp

lemma scan_buses_config:
  assumes "pci_host io cfg"
  shows "fst (pci_scan_buses io desc n d) =
     map (\<lambda>(bus, device, function). descriptor cfg desc bus device function)
       (filter (present cfg) (concat (map (\<lambda>bus. concat (map (\<lambda>device.
         map (\<lambda>function. (of_nat bus, of_nat device, of_nat function))
         [0..<(if config cfg (of_nat bus) (of_nat device) 0 0x0e AND 0x80 \<noteq> 0 then 8 else 1)]) [0..<32])) [0..<n])))"
proof (induction n)
  case (Suc n)
  then show ?case
    by (simp add: split_beta Let_def scan_devices_config [OF assms]
        del: upt_Suc pci_scan_devices.simps add: upt_Suc_append)
qed simp


text \<open>
  The address of a configuration register gives back bus, device, function and register.\<close>

theorem pci_id_decodes:
  "ucast (drop_bit 16 (pci_id bus device function reg)) AND (0xFF :: u16) = bus AND 0xFF
   \<and> ucast (drop_bit 11 (pci_id bus device function reg)) AND (0x1F :: u16) = device AND 0x1F
   \<and> ucast (drop_bit 8 (pci_id bus device function reg)) AND (0x07 :: u16) = function AND 0x07
   \<and> pci_id bus device function reg AND 0xFC = reg AND 0xFC \<and> bit (pci_id bus device function reg) 31"
proof -
  have mask: "(0xFF :: u16) = mask 8" "(0x1F :: u16) = mask 5" "(7 :: u16) = mask 3" "(0xFC :: u32) = push_bit 2 (mask 6)"
    by (simp_all add: mask_eq_exp_minus_1)
  define top where "top = push_bit 31 (1 :: u32)"
  then have "top = 2 ^ 31" by simp
  then have top: "bit top k \<longleftrightarrow> k = 31" for k
    by (simp only: bit_exp_iff possible_bit_word) auto
  show ?thesis
    unfolding pci_id_def mask top_def [symmetric]
    by (intro conjI bit_word_eqI) (auto simp: bit_simps top)
qed

text \<open>A machine whose only device is a two-function device 1 on bus 0 with an I/O port.\<close>

definition demo_config :: "u32 \<Rightarrow> u32" where
  "demo_config a =
     (if a = 0x80000800 then 0x70108086 else if a = 0x80000808 then 0x01018000 else if a = 0x80000820 then 0xC001
      else if a AND 0xFC = 0 then 0xFFFFFFFF else 0)"

definition demo_host :: "u32 io_ports" where
  "demo_host = \<lparr>in8 = (\<lambda>_ d. (0, d)), out8 = (\<lambda>_ _ d. d), in16 = (\<lambda>_ d. (0, d)), out16 = (\<lambda>_ _ d. d),
     in32 = (\<lambda>_ d. (demo_config d, d)), out32 = (\<lambda>port v d. if port = 0xCF8 then v else d)\<rparr>"


end
