(* ===== verification/Block_Device.thy ===== *)
theory Block_Device
  imports CString
begin

text \<open>
  \<^verbatim>\<open>kernel/src/dev/block_device.c\<close>: block devices, the requests on them, and the registries of
  physical and logical devices. A device is the record of its \<^verbatim>\<open>block_device_t\<close>; its functions take
  the private data, the memory, and the state \<open>'d\<close> of the hardware behind them. The locale
  \<open>block_store\<close> is the contract between the request layer (and the file systems above it)
  and a driver: a device is an array of 512-byte sectors.
\<close>

section \<open>Devices and requests\<close>

definition MAX_BLOCK_DEVICES :: nat where "MAX_BLOCK_DEVICES = 10"
definition MAX_LOGICAL_BLOCK_DEVICES :: nat where "MAX_LOGICAL_BLOCK_DEVICES = 50"
definition LOGICAL_BLOCK_DEVICE_FLAGS_BOOTABLE :: u8 where "LOGICAL_BLOCK_DEVICE_FLAGS_BOOTABLE = 1"

type_synonym 'd block_fn = "addr \<Rightarrow> u32 \<Rightarrow> addr \<Rightarrow> mem \<Rightarrow> 'd \<Rightarrow> (u32 \<times> mem \<times> 'd) run"

record 'd block_device =
  bdev_device_id :: u32
  bdev_device_name :: "u8 list"
  block_size :: u32
  total_blocks :: u32
  write_block :: "'d block_fn"
  read_block :: "'d block_fn"
  bdev_private_data :: addr

record block_request =
  rq_lba :: u32
  rq_num_blocks :: u32
  rq_buffer :: addr
  rq_is_write :: bool

record 'd logical_block_device =
  lb_device_id :: u32
  lb_device_name :: "u8 list"
  parent :: "'d block_device option"
  lb_flags :: u8
  lba_offset :: u32
  lb_num_blocks :: u32
  lb_type :: u8
  local_id :: u8

record 'd device_registry =
  block_devices :: "'d block_device list"
  logical_block_devices :: "'d logical_block_device list"

definition get_num_block_devices :: "'d device_registry \<Rightarrow> u32" where
  "get_num_block_devices reg = of_nat (length (block_devices reg))"

definition get_num_logical_block_devices :: "'d device_registry \<Rightarrow> u32" where
  "get_num_logical_block_devices reg = of_nat (length (logical_block_devices reg))"

text \<open>\<^verbatim>\<open>'s'\<close>, \<^verbatim>\<open>'d'\<close>, \<^verbatim>\<open>'a'\<close> and \<^verbatim>\<open>'1'\<close> are 115, 100, 97 and 49. The arrays are not checked for room.\<close>

definition register_block_device :: "'d device_registry \<Rightarrow> 'd block_device \<Rightarrow> 'd device_registry outcome" where
  "register_block_device reg bdev =
     (let n = length (block_devices reg);
          bdev = bdev\<lparr>bdev_device_id := of_nat n,
            bdev_device_name := (bdev_device_name bdev)[0 := 115, 1 := 100, 2 := 97 + of_nat n, 3 := 0]\<rparr>
      in if n < MAX_BLOCK_DEVICES then Ret (reg\<lparr>block_devices := block_devices reg @ [bdev]\<rparr>) else Fault)"

definition register_logical_block_device ::
  "'d device_registry \<Rightarrow> 'd logical_block_device \<Rightarrow> 'd device_registry outcome" where
  "register_logical_block_device reg lbdev =
     (case parent lbdev of
        None \<Rightarrow> Fault
      | Some p \<Rightarrow>
          let lbdev = lbdev\<lparr>lb_device_id := get_num_block_devices reg,
                lb_device_name := (lb_device_name lbdev)[0 := 115, 1 := 100, 2 := bdev_device_name p ! 2,
                   3 := 49 + local_id lbdev, 4 := 0]\<rparr>
          in if length (logical_block_devices reg) < MAX_LOGICAL_BLOCK_DEVICES
             then Ret (reg\<lparr>logical_block_devices := logical_block_devices reg @ [lbdev]\<rparr>) else Fault)"

function submit_read_loop :: "'d block_device \<Rightarrow> block_request \<Rightarrow> u32 \<Rightarrow> mem \<Rightarrow> 'd \<Rightarrow> (mem \<times> 'd) run" where
  "submit_read_loop bdev request i m d =
     (if i < rq_num_blocks request then
        rbind (read_block bdev (bdev_private_data bdev) (rq_lba request + i) (rq_buffer request + i * block_size bdev) m d)
          (\<lambda>(result, m, d).
            if result \<noteq> EOK then Some (Panic ''block device read failure'')
            else submit_read_loop bdev request (i + 1) m d)
      else Some (Ret (m, d)))"
  by pat_completeness auto
termination
  by (relation "measure (\<lambda>(bdev, request, i, m, d). unat (rq_num_blocks request) - unat i)") (auto simp: unat_diff_step)

function submit_write_loop :: "'d block_device \<Rightarrow> block_request \<Rightarrow> u32 \<Rightarrow> mem \<Rightarrow> 'd \<Rightarrow> (mem \<times> 'd) run" where
  "submit_write_loop bdev request i m d =
     (if i < rq_num_blocks request then
        rbind (write_block bdev (bdev_private_data bdev) (rq_lba request + i) (rq_buffer request + i * block_size bdev) m d)
          (\<lambda>(result, m, d).
            if result \<noteq> EOK then Some (Panic ''block device write failure'')
            else submit_write_loop bdev request (i + 1) m d)
      else Some (Ret (m, d)))"
  by pat_completeness auto
termination
  by (relation "measure (\<lambda>(bdev, request, i, m, d). unat (rq_num_blocks request) - unat i)") (auto simp: unat_diff_step)

declare submit_read_loop.simps [simp del] submit_write_loop.simps [simp del]

definition submit_read_request :: "'d block_device \<Rightarrow> block_request \<Rightarrow> mem \<Rightarrow> 'd \<Rightarrow> (mem \<times> 'd) run" where
  "submit_read_request bdev request m d = submit_read_loop bdev request 0 m d"

definition submit_write_request :: "'d block_device \<Rightarrow> block_request \<Rightarrow> mem \<Rightarrow> 'd \<Rightarrow> (mem \<times> 'd) run" where
  "submit_write_request bdev request m d = submit_write_loop bdev request 0 m d"

section \<open>Device names\<close>

definition registry_ok :: "'d device_registry \<Rightarrow> bool" where
  "registry_ok reg \<longleftrightarrow> length (block_devices reg) \<le> MAX_BLOCK_DEVICES
     \<and> length (logical_block_devices reg) \<le> MAX_LOGICAL_BLOCK_DEVICES
     \<and> (\<forall>i < length (block_devices reg). bdev_device_id (block_devices reg ! i) = of_nat i
          \<and> (length (bdev_device_name (block_devices reg ! i)) = 32 \<longrightarrow>
             take 4 (bdev_device_name (block_devices reg ! i)) = [115, 100, 97 + of_nat i, 0]))"

lemma take4_update:
  assumes "length (xs :: 'a list) = 32"
  shows "take 4 (xs[0 := a, Suc 0 := b, 2 := c, 3 := e]) = [a, b, c, e]"
proof -
  from assms obtain p q r s ys where "xs = p # q # r # s # ys"
    by (auto simp: eval_nat_numeral length_Suc_conv)
  then show ?thesis by (simp add: eval_nat_numeral)
qed

lemma register_block_device_ok:
  assumes "registry_ok reg" "register_block_device reg bdev = Ret reg'"
  shows "registry_ok reg'"
proof -
  let ?n = "length (block_devices reg)"
  let ?b = "bdev\<lparr>bdev_device_id := of_nat ?n,
            bdev_device_name := (bdev_device_name bdev)[0 := 115, 1 := 100, 2 := 97 + of_nat ?n, 3 := 0]\<rparr>"
  from assms(2) have n: "?n < MAX_BLOCK_DEVICES" and r: "reg' = reg\<lparr>block_devices := block_devices reg @ [?b]\<rparr>"
    by (auto simp: register_block_device_def Let_def split: if_splits)
  have "bdev_device_id ?b = of_nat ?n \<and> (length (bdev_device_name ?b) = 32 \<longrightarrow>
      take 4 (bdev_device_name ?b) = [115, 100, 97 + of_nat ?n, 0])"
    using take4_update [of "bdev_device_name bdev"] by simp
  with assms(1) n show ?thesis
    unfolding registry_ok_def r by (auto simp: nth_append less_Suc_eq)
qed

text \<open>
  C28. Registering a disk keeps the registry in order: no more disks than it has room for, each with its
  position as number and the name \<^verbatim>\<open>sda\<close>, \<^verbatim>\<open>sdb\<close>, ...; an eleventh one is refused by the model, the C
  code writes past the table.
\<close>

theorem register_block_device_registry:
  assumes "registry_ok reg"
  shows "case register_block_device reg bdev of
     Ret reg' \<Rightarrow> registry_ok reg' \<and> length (block_devices reg') = Suc (length (block_devices reg))
   | Panic msg \<Rightarrow> False
   | Fault \<Rightarrow> length (block_devices reg) = MAX_BLOCK_DEVICES"
proof (cases "register_block_device reg bdev")
  case (Ret reg')
  then show ?thesis
    using register_block_device_ok [OF assms Ret] by (auto simp: register_block_device_def Let_def split: if_splits)
qed (use assms in \<open>auto simp: register_block_device_def registry_ok_def Let_def split: if_splits\<close>)

definition no_disks :: "nat device_registry" where
  "no_disks = \<lparr>block_devices = [], logical_block_devices = []\<rparr>"

definition idle_disk :: "nat block_device" where
  "idle_disk = \<lparr>bdev_device_id = 7, bdev_device_name = replicate 32 0, block_size = 512, total_blocks = 0,
     write_block = (\<lambda>p l b m d. Some (Ret (EOK, m, d))), read_block = (\<lambda>p l b m d. Some (Ret (EOK, m, d))),
     bdev_private_data = 0\<rparr>"

theorem register_block_device_registry_witness:
  "\<exists>reg'. register_block_device no_disks idle_disk = Ret reg' \<and> registry_ok reg' \<and> length (block_devices reg') = 1"
proof -
  have "registry_ok no_disks" by (simp add: registry_ok_def no_disks_def)
  from register_block_device_registry [OF this, of idle_disk] show ?thesis
    by (auto simp: no_disks_def MAX_BLOCK_DEVICES_def split: outcome.splits)
qed

section \<open>The contract of a driver\<close>

text \<open>The rest of a buffer of whole blocks, after one more block.\<close>

lemma in_region_block:
  assumes "i < n"
  shows "in_region (buf + i * 512) 512 a \<Longrightarrow> in_region (buf + i * 512) (512 * (unat n - unat i)) a"
    and "in_region (buf + (i + 1) * 512) (512 * (unat n - unat (i + 1))) a \<Longrightarrow> in_region (buf + i * 512) (512 * (unat n - unat i)) a"
proof -
  have i: "unat i < unat n" "unat (i + 1) = unat i + 1" using assms unat_plus_one [OF assms] by (simp_all add: word_less_nat_alt)
  show "in_region (buf + i * 512) 512 a \<Longrightarrow> in_region (buf + i * 512) (512 * (unat n - unat i)) a"
    using i(1) by (auto simp: in_region_def)
  define x where "x = a - (buf + (i + 1) * 512)"
  assume "in_region (buf + (i + 1) * 512) (512 * (unat n - unat (i + 1))) a"
  then have "unat x < 512 * (unat n - unat i) - 512" using i by (simp add: in_region_def x_def)
  moreover have "unat (x + 512) \<le> unat x + 512" by (simp add: unat_word_ariths)
  moreover have "a - (buf + i * 512) = x + 512" by (simp add: x_def algebra_simps)
  ultimately show "in_region (buf + i * 512) (512 * (unat n - unat i)) a" unfolding in_region_def by (simp only:)
qed

text \<open>
  \<open>sector d l\<close> is the content of sector \<open>l\<close>; the first \<open>limit\<close> sectors can be used. \<open>priv\<close> are the
  addresses of the driver's own data, which a buffer must not overlap; \<open>ok m d\<close> says that
  driver and hardware are in working order, as far as those addresses show.
\<close>

locale block_store =
  fixes bdev :: "'d block_device"
    and limit :: nat
    and priv :: "addr \<Rightarrow> bool"
    and ok :: "mem \<Rightarrow> 'd \<Rightarrow> bool"
    and sector :: "'d \<Rightarrow> u32 \<Rightarrow> u8 list"
  assumes size_512: "block_size bdev = 512"
    and sector_size: "ok m d \<Longrightarrow> length (sector d l) = 512"
    and ok_frame: "ok m d \<Longrightarrow> (\<And>a. priv a \<Longrightarrow> m' a = m a) \<Longrightarrow> ok m' d"
    and read_sector: "ok m d \<Longrightarrow> unat l < limit \<Longrightarrow> (\<And>a. in_region buf 512 a \<Longrightarrow> \<not> priv a) \<Longrightarrow>
      \<exists>d'. read_block bdev (bdev_private_data bdev) l buf m d = Some (Ret (EOK, put_bytes m buf (sector d l), d'))
        \<and> ok (put_bytes m buf (sector d l)) d' \<and> sector d' = sector d"
    and write_sector: "ok m d \<Longrightarrow> unat l < limit \<Longrightarrow>
      \<exists>d'. write_block bdev (bdev_private_data bdev) l buf m d = Some (Ret (EOK, m, d'))
        \<and> ok m d' \<and> sector d' = (sector d)(l := bytes_at m buf 512)"
begin

definition sectors :: "'d \<Rightarrow> u32 \<Rightarrow> nat \<Rightarrow> u8 list" where
  "sectors d l n = concat (map (\<lambda>i. sector d (l + of_nat i)) [0..<n])"

lemma length_sectors: "ok m d \<Longrightarrow> length (sectors d l n) = 512 * n"
  by (induction n) (simp_all add: sectors_def sector_size)

lemma sectors_first:
  assumes "ok m d" "i < n" "sector d1 = sector d"
  shows "sectors d (l + i) (unat n - unat i) = sector d (l + i) @ sectors d1 (l + (i + 1)) (unat n - unat (i + 1))"
    and "put_bytes m (buf + i * 512) (sectors d (l + i) (unat n - unat i))
      = put_bytes (put_bytes m (buf + i * 512) (sector d (l + i))) (buf + (i + 1) * 512) (sectors d1 (l + (i + 1)) (unat n - unat (i + 1)))"
proof -
  have "unat n - unat i = Suc (unat n - unat (i + 1))"
    using assms(2) unat_plus_one [OF assms(2)] by (simp add: word_less_nat_alt)
  then show split: "sectors d (l + i) (unat n - unat i) = sector d (l + i) @ sectors d1 (l + (i + 1)) (unat n - unat (i + 1))"
    by (simp add: sectors_def assms(3) upt_conv_Cons map_Suc_upt [symmetric] algebra_simps o_def del: upt_Suc)
  show "put_bytes m (buf + i * 512) (sectors d (l + i) (unat n - unat i))
      = put_bytes (put_bytes m (buf + i * 512) (sector d (l + i))) (buf + (i + 1) * 512) (sectors d1 (l + (i + 1)) (unat n - unat (i + 1)))"
    unfolding split put_bytes_append by (simp add: sector_size [OF assms(1)] algebra_simps)
qed

lemma submit_read_loop_sectors:
  assumes "ok m d" "i \<le> n" "unat l + unat n \<le> limit" "limit \<le> 2 ^ 32"
    and "\<And>a. in_region (buf + i * 512) (512 * (unat n - unat i)) a \<Longrightarrow> \<not> priv a" "512 * unat n \<le> 2 ^ 32"
  shows "\<exists>d'. submit_read_loop bdev \<lparr>rq_lba = l, rq_num_blocks = n, rq_buffer = buf, rq_is_write = b\<rparr> i m d
      = Some (Ret (put_bytes m (buf + i * 512) (sectors d (l + i) (unat n - unat i)), d'))
    \<and> ok (put_bytes m (buf + i * 512) (sectors d (l + i) (unat n - unat i))) d' \<and> sector d' = sector d"
  using assms
proof (induction "unat n - unat i" arbitrary: i m d rule: less_induct)
  case less
  let ?rq = "\<lparr>rq_lba = l, rq_num_blocks = n, rq_buffer = buf, rq_is_write = b\<rparr>"
  show ?case
  proof (cases "i < n")
    case False
    with less.prems(2) have "i = n" by simp
    with less.prems(1) show ?thesis by (simp add: submit_read_loop.simps sectors_def)
  next
    case True
    have i: "unat i < unat n" "unat n - unat (i + 1) < unat n - unat i" "i + 1 \<le> n"
      using True unat_plus_one [OF True] word_less_step [OF True] by (simp_all add: word_less_nat_alt)
    have "unat (l + i) = unat l + unat i" using i(1) less.prems(3,4) by (intro unat_add_lem [THEN iffD1]) simp
    then have li: "unat (l + i) < limit" using i(1) less.prems(3) by simp
    from read_sector [OF less.prems(1) li less.prems(5) [OF in_region_block(1) [OF True]]] obtain d1 where d1:
      "read_block bdev (bdev_private_data bdev) (l + i) (buf + i * 512) m d
         = Some (Ret (EOK, put_bytes m (buf + i * 512) (sector d (l + i)), d1))"
      "ok (put_bytes m (buf + i * 512) (sector d (l + i))) d1" "sector d1 = sector d" by blast
    have "submit_read_loop bdev ?rq i m d = submit_read_loop bdev ?rq (i + 1) (put_bytes m (buf + i * 512) (sector d (l + i))) d1"
      using True d1(1) by (simp add: submit_read_loop.simps [of bdev ?rq i] size_512)
    with less.hyps [OF i(2) d1(2) i(3) less.prems(3,4) less.prems(5) [OF in_region_block(2) [OF True]] less.prems(6)] d1(3)
    show ?thesis unfolding sectors_first(2) [OF less.prems(1) True d1(3)] by auto
  qed
qed

lemma submit_read_request_sectors:
  assumes "ok m d" "unat l + unat n \<le> limit" "limit \<le> 2 ^ 32"
    and "\<And>a. in_region buf (512 * unat n) a \<Longrightarrow> \<not> priv a" "512 * unat n \<le> 2 ^ 32"
  shows "\<exists>d'. submit_read_request bdev \<lparr>rq_lba = l, rq_num_blocks = n, rq_buffer = buf, rq_is_write = b\<rparr> m d
      = Some (Ret (put_bytes m buf (sectors d l (unat n)), d'))
    \<and> ok (put_bytes m buf (sectors d l (unat n))) d' \<and> sector d' = sector d"
  using submit_read_loop_sectors [OF assms(1), of 0 n l buf b] assms by (simp add: submit_read_request_def)

lemma submit_write_loop_sectors:
  assumes "ok m d" "i \<le> n" "unat l + unat n \<le> limit" "limit \<le> 2 ^ 32" "512 * unat n \<le> 2 ^ 32"
  shows "\<exists>d'. submit_write_loop bdev \<lparr>rq_lba = l, rq_num_blocks = n, rq_buffer = buf, rq_is_write = b\<rparr> i m d = Some (Ret (m, d'))
    \<and> ok m d' \<and> (\<forall>k. sector d' k = (if i \<le> k - l \<and> k - l < n then bytes_at m (buf + (k - l) * 512) 512 else sector d k))"
  using assms
proof (induction "unat n - unat i" arbitrary: i d rule: less_induct)
  case less
  let ?rq = "\<lparr>rq_lba = l, rq_num_blocks = n, rq_buffer = buf, rq_is_write = b\<rparr>"
  show ?case
  proof (cases "i < n")
    case False
    with less.prems(1) show ?thesis by (auto simp: submit_write_loop.simps)
  next
    case True
    have i: "unat i < unat n" "i + 1 \<le> n" using True word_less_step [OF True] by (simp_all add: word_less_nat_alt)
    have li: "unat (l + i) < limit"
    proof -
      have "unat (l + i) = unat l + unat i" using i(1) less.prems(3,4) by (intro unat_add_lem [THEN iffD1]) simp
      with i(1) less.prems(3) show ?thesis by simp
    qed
    from write_sector [OF less.prems(1) li, of "buf + i * 512"] obtain d1 where d1:
      "write_block bdev (bdev_private_data bdev) (l + i) (buf + i * 512) m d = Some (Ret (EOK, m, d1))"
      "ok m d1" "sector d1 = (sector d)(l + i := bytes_at m (buf + i * 512) 512)" by blast
    from less.hyps [OF unat_diff_step [OF True] d1(2) i(2) less.prems(3-5)] obtain d' where d':
      "submit_write_loop bdev ?rq (i + 1) m d1 = Some (Ret (m, d'))" "ok m d'"
      "\<And>k. sector d' k = (if i + 1 \<le> k - l \<and> k - l < n then bytes_at m (buf + (k - l) * 512) 512 else sector d1 k)"
      by blast
    have "submit_write_loop bdev ?rq i m d = Some (Ret (m, d'))"
      using True d1(1) d'(1) by (simp add: submit_write_loop.simps [of bdev ?rq i] size_512)
    moreover have "sector d' k = (if i \<le> k - l \<and> k - l < n then bytes_at m (buf + (k - l) * 512) 512 else sector d k)" for k
    proof -
      have "i \<le> k - l \<longleftrightarrow> k - l = i \<or> i + 1 \<le> k - l" using word_step_le [OF True, of "k - l"] by auto
      moreover have "k = l + i \<longleftrightarrow> k - l = i" by auto
      ultimately show ?thesis using True unfolding d'(3) d1(3) by auto
    qed
    ultimately show ?thesis using d'(2) by blast
  qed
qed

lemma submit_write_request_sectors:
  assumes "ok m d" "unat l + unat n \<le> limit" "limit \<le> 2 ^ 32" "512 * unat n \<le> 2 ^ 32"
  shows "\<exists>d'. submit_write_request bdev \<lparr>rq_lba = l, rq_num_blocks = n, rq_buffer = buf, rq_is_write = b\<rparr> m d = Some (Ret (m, d'))
    \<and> ok m d' \<and> (\<forall>k. sector d' k = (if k - l < n then bytes_at m (buf + (k - l) * 512) 512 else sector d k))"
  using submit_write_loop_sectors [OF assms(1), of 0 n l buf b] assms by (simp add: submit_write_request_def)

lemma sectors_written:
  assumes "ok m d'" "\<forall>k. sector d' k = (if k - l < n then bytes_at m (buf + (k - l) * 512) 512 else sector d k)" "j \<le> unat n"
  shows "sectors d' l j = bytes_at m buf (512 * j)"
  using assms(3)
proof (induction j)
  case 0
  then show ?case by (simp add: sectors_def bytes_at_def)
next
  case (Suc j)
  have "of_nat j < n" using Suc.prems less_trans [OF _ unat_u32_lt, of j n] by (simp add: word_less_nat_alt unat_of_nat32)
  then have s: "sector d' (l + of_nat j) = bytes_at m (buf + of_nat j * 512) 512" using assms(2) by simp
  have "bytes_at m buf (512 * Suc j) = bytes_at m buf (512 * j) @ bytes_at m (buf + of_nat j * 512) 512"
  proof (rule nth_equalityI)
    fix i assume "i < length (bytes_at m buf (512 * Suc j))"
    then show "bytes_at m buf (512 * Suc j) ! i = (bytes_at m buf (512 * j) @ bytes_at m (buf + of_nat j * 512) 512) ! i"
      by (auto simp: nth_append of_nat_diff algebra_simps)
  qed simp
  with Suc s show ?case by (simp add: sectors_def)
qed

text \<open>What was written is read back, and no other sector has changed.\<close>

lemma write_then_read:
  assumes "ok m d" "unat l + unat n \<le> limit" "limit \<le> 2 ^ 32" "512 * unat n \<le> 2 ^ 32"
    and "\<And>a. in_region buf' (512 * unat n) a \<Longrightarrow> \<not> priv a"
  shows "\<exists>d' d''. submit_write_request bdev \<lparr>rq_lba = l, rq_num_blocks = n, rq_buffer = buf, rq_is_write = b\<rparr> m d = Some (Ret (m, d'))
    \<and> submit_read_request bdev \<lparr>rq_lba = l, rq_num_blocks = n, rq_buffer = buf', rq_is_write = b'\<rparr> m d'
        = Some (Ret (put_bytes m buf' (bytes_at m buf (512 * unat n)), d''))
    \<and> (\<forall>k. \<not> k - l < n \<longrightarrow> sector d'' k = sector d k)"
proof -
  from submit_write_request_sectors [OF assms(1-4)] obtain d' where d':
    "submit_write_request bdev \<lparr>rq_lba = l, rq_num_blocks = n, rq_buffer = buf, rq_is_write = b\<rparr> m d = Some (Ret (m, d'))"
    "ok m d'" "\<forall>k. sector d' k = (if k - l < n then bytes_at m (buf + (k - l) * 512) 512 else sector d k)" by blast
  from submit_read_request_sectors [OF d'(2) assms(2,3,5,4)] obtain d'' where d'':
    "submit_read_request bdev \<lparr>rq_lba = l, rq_num_blocks = n, rq_buffer = buf', rq_is_write = b'\<rparr> m d'
      = Some (Ret (put_bytes m buf' (sectors d' l (unat n)), d''))" "sector d'' = sector d'" by blast
  from d' d'' sectors_written [OF d'(2,3), of "unat n"] show ?thesis by auto
qed

end

end
