(* ===== verification/Ide.thy ===== *)
theory Ide
  imports Block_Device Kernel_Heap Ports
begin

text \<open>
  \<^verbatim>\<open>kernel/src/dev/disk/ide/ide.c\<close>: the driver for ATA disks in programmed I/O mode. Its private
  data (bus and flags) lies in memory; the disk is behind the ports. A loop that waits for the
  drive may not end, which is the value \<open>None\<close>. \<open>ata_drive\<close> states the documented behaviour of
  a drive; under it the driver keeps the contract \<open>block_store\<close>.
\<close>

section \<open>Registers and commands\<close>

definition ATA_SR_BSY :: u8 where "ATA_SR_BSY = 0x80"
definition ATA_SR_DF :: u8 where "ATA_SR_DF = 0x20"
definition ATA_SR_DRQ :: u8 where "ATA_SR_DRQ = 0x08"
definition ATA_SR_ERR :: u8 where "ATA_SR_ERR = 0x01"
definition ATA_CMD_READ_PIO :: u8 where "ATA_CMD_READ_PIO = 0x20"
definition ATA_CMD_WRITE_PIO :: u8 where "ATA_CMD_WRITE_PIO = 0x30"
definition ATA_CMD_CACHE_FLUSH :: u8 where "ATA_CMD_CACHE_FLUSH = 0xE7"
definition ATA_CMD_IDENTIFY :: u8 where "ATA_CMD_IDENTIFY = 0xEC"
definition ATA_REG_FEATURES :: u16 where "ATA_REG_FEATURES = 0x01"
definition ATA_REG_SECCOUNT0 :: u16 where "ATA_REG_SECCOUNT0 = 0x02"
definition ATA_REG_LBA0 :: u16 where "ATA_REG_LBA0 = 0x03"
definition ATA_REG_LBA1 :: u16 where "ATA_REG_LBA1 = 0x04"
definition ATA_REG_LBA2 :: u16 where "ATA_REG_LBA2 = 0x05"
definition ATA_REG_HDDEVSEL :: u16 where "ATA_REG_HDDEVSEL = 0x06"
definition ATA_REG_COMMAND :: u16 where "ATA_REG_COMMAND = 0x07"
definition ATA_REG_STATUS :: u16 where "ATA_REG_STATUS = 0x07"
definition ATA_REG_CONTROL :: u16 where "ATA_REG_CONTROL = 0x0C"
definition ATA_REG_ALTSTATUS :: u16 where "ATA_REG_ALTSTATUS = 0x0C"
definition IDE_DEVICE_FLAG_MASTER :: u8 where "IDE_DEVICE_FLAG_MASTER = 1"
definition IDE_DEVICE_FLAG_PRESENT :: u8 where "IDE_DEVICE_FLAG_PRESENT = 2"

lemmas ata_defs = ATA_SR_BSY_def ATA_SR_DF_def ATA_SR_DRQ_def ATA_SR_ERR_def ATA_CMD_READ_PIO_def
  ATA_CMD_WRITE_PIO_def ATA_CMD_CACHE_FLUSH_def ATA_CMD_IDENTIFY_def ATA_REG_FEATURES_def ATA_REG_SECCOUNT0_def
  ATA_REG_LBA0_def ATA_REG_LBA1_def ATA_REG_LBA2_def ATA_REG_HDDEVSEL_def ATA_REG_COMMAND_def ATA_REG_STATUS_def
  ATA_REG_CONTROL_def ATA_REG_ALTSTATUS_def IDE_DEVICE_FLAG_MASTER_def IDE_DEVICE_FLAG_PRESENT_def

definition ide_buses :: "u16 list" where "ide_buses = [0x1F0, 0x1F0, 0x170, 0x170]"

text \<open>The private data: the bus at offset 0, the flags at offset 2.\<close>

definition ide_bus :: "mem \<Rightarrow> addr \<Rightarrow> u16" where "ide_bus m p = load16 m p"
definition ide_flags :: "mem \<Rightarrow> addr \<Rightarrow> u8" where "ide_flags m p = m (p + 2)"
definition sizeof_ide_device_private_data :: u32 where "sizeof_ide_device_private_data = 4"
definition sizeof_block_device :: u32 where "sizeof_block_device = 56"

section \<open>Waiting\<close>

definition ata_io_wait :: "'d io_ports \<Rightarrow> u16 \<Rightarrow> 'd \<Rightarrow> 'd" where
  "ata_io_wait io bus d =
     (let (_, d) = port_byte_in io (bus + ATA_REG_ALTSTATUS) d;
          (_, d) = port_byte_in io (bus + ATA_REG_ALTSTATUS) d;
          (_, d) = port_byte_in io (bus + ATA_REG_ALTSTATUS) d;
          (_, d) = port_byte_in io (bus + ATA_REG_ALTSTATUS) d
      in d)"

definition ata_select :: "'d io_ports \<Rightarrow> u16 \<Rightarrow> bool \<Rightarrow> 'd \<Rightarrow> 'd" where
  "ata_select io bus master d = port_byte_out io (bus + ATA_REG_HDDEVSEL) (if master then 0xA0 else 0xB0) d"

partial_function (option) ata_wait_ready :: "'d io_ports \<Rightarrow> u16 \<Rightarrow> 'd \<Rightarrow> 'd run" where
  "ata_wait_ready io bus d =
     (let (s, d) = port_byte_in io (bus + ATA_REG_STATUS) d
      in if s AND ATA_SR_BSY \<noteq> 0 then ata_wait_ready io bus d else Some (Ret d))"

definition ata_wait :: "'d io_ports \<Rightarrow> u16 \<Rightarrow> bool \<Rightarrow> 'd \<Rightarrow> (int \<times> 'd) run" where
  "ata_wait io bus advanced d =
     rbind (ata_wait_ready io bus (ata_io_wait io bus d)) (\<lambda>d.
       if advanced then
         let (status, d) = port_byte_in io (bus + ATA_REG_STATUS) d
         in if status AND ATA_SR_ERR \<noteq> 0 then Some (Ret (1, d))
            else if status AND ATA_SR_DF \<noteq> 0 then Some (Ret (1, d))
            else if status AND ATA_SR_DRQ = 0 then Some (Ret (1, d))
            else Some (Ret (0, d))
       else Some (Ret (0, d)))"

section \<open>Identification\<close>

text \<open>The 256 words of the identification; only words 60 and 61 are used.\<close>

primrec read_words :: "'d io_ports \<Rightarrow> u16 \<Rightarrow> nat \<Rightarrow> 'd \<Rightarrow> u16 list \<times> 'd" where
  "read_words io bus 0 d = ([], d)"
| "read_words io bus (Suc n) d =
     (let (ws, d) = read_words io bus n d; (w, d) = port_word_in io bus d in (ws @ [w], d))"

definition ide_device_identify :: "'d io_ports \<Rightarrow> u16 \<Rightarrow> u8 \<Rightarrow> 'd \<Rightarrow> (u32 \<times> 'd) run" where
  "ide_device_identify io bus flags d =
     (let d = port_byte_out io (bus + 1) 1 d;
          d = port_byte_out io (bus + 0x306) 0 d;
          d = ata_select io (bus + ATA_REG_HDDEVSEL) (flags AND IDE_DEVICE_FLAG_MASTER \<noteq> 0) d;
          d = ata_io_wait io bus d;
          d = port_byte_out io (bus + ATA_REG_COMMAND) ATA_CMD_IDENTIFY d;
          d = ata_io_wait io bus d;
          (status, d) = port_byte_in io (bus + ATA_REG_COMMAND) d
      in if status = 0 then Some (Ret (0, d))
         else rbind (ata_wait_ready io bus d) (\<lambda>d.
           let (buf, d) = read_words io bus 256 d;
               d = port_byte_out io (bus + ATA_REG_CONTROL) 0x02 d
           in Some (Ret (ucast (buf ! 60) OR push_bit 16 (ucast (buf ! 61)), d))))"

definition ide_driver_init :: u32 where "ide_driver_init = EOK"

section \<open>Reading and writing a sector\<close>

primrec write_words :: "'d io_ports \<Rightarrow> u16 \<Rightarrow> addr \<Rightarrow> mem \<Rightarrow> nat \<Rightarrow> 'd \<Rightarrow> 'd" where
  "write_words io bus buf m 0 d = d"
| "write_words io bus buf m (Suc n) d =
     port_word_out io bus (load16 m (buf + 2 * of_nat n)) (write_words io bus buf m n d)"

primrec fetch_words :: "'d io_ports \<Rightarrow> u16 \<Rightarrow> addr \<Rightarrow> nat \<Rightarrow> mem \<Rightarrow> 'd \<Rightarrow> mem \<times> 'd" where
  "fetch_words io bus buf 0 m d = (m, d)"
| "fetch_words io bus buf (Suc n) m d =
     (let (m, d) = fetch_words io bus buf n m d; (w, d) = port_word_in io bus d
      in (store16 m (buf + 2 * of_nat n) w, d))"

definition ata_head :: "bool \<Rightarrow> u32 \<Rightarrow> u8" where
  "ata_head master lba = (if master then 0xE0 else 0xF0) OR ucast (drop_bit 24 (lba AND 0x0f000000))"

definition ide_write_block :: "'d io_ports \<Rightarrow> addr \<Rightarrow> u32 \<Rightarrow> addr \<Rightarrow> mem \<Rightarrow> 'd \<Rightarrow> (u32 \<times> mem \<times> 'd) run" where
  "ide_write_block io private_data lba buf m d =
     (let master = (ide_flags m private_data AND IDE_DEVICE_FLAG_MASTER = 0);
          bus = ide_bus m private_data;
          d = port_byte_out io (bus + ATA_REG_CONTROL) 0x02 d
      in rbind (ata_wait_ready io bus d) (\<lambda>d.
         let d = port_byte_out io (bus + ATA_REG_HDDEVSEL) (ata_head master lba) d
         in rbind (ata_wait io bus False d) (\<lambda>(_, d).
         let d = port_byte_out io (bus + ATA_REG_FEATURES) 0x00 d;
             d = port_byte_out io (bus + ATA_REG_SECCOUNT0) 0x01 d;
             d = port_byte_out io (bus + ATA_REG_LBA0) (ucast (lba AND 0x000000ff)) d;
             d = port_byte_out io (bus + ATA_REG_LBA1) (ucast (drop_bit 8 (lba AND 0x0000ff00))) d;
             d = port_byte_out io (bus + ATA_REG_LBA2) (ucast (drop_bit 16 (lba AND 0x00ff0000))) d;
             d = port_byte_out io (bus + ATA_REG_COMMAND) ATA_CMD_WRITE_PIO d
         in rbind (ata_wait io bus False d) (\<lambda>(_, d).
         let d = write_words io bus buf m 256 d;
             d = port_byte_out io (bus + 0x07) ATA_CMD_CACHE_FLUSH d
         in rbind (ata_wait io bus False d) (\<lambda>(_, d). Some (Ret (EOK, m, d)))))))"

definition ide_read_block :: "'d io_ports \<Rightarrow> addr \<Rightarrow> u32 \<Rightarrow> addr \<Rightarrow> mem \<Rightarrow> 'd \<Rightarrow> (u32 \<times> mem \<times> 'd) run" where
  "ide_read_block io private_data lba buf m d =
     (let master = (ide_flags m private_data AND IDE_DEVICE_FLAG_MASTER = 0);
          bus = ide_bus m private_data;
          d = port_byte_out io (bus + ATA_REG_CONTROL) 0x02 d
      in rbind (ata_wait_ready io bus d) (\<lambda>d.
         let d = port_byte_out io (bus + ATA_REG_HDDEVSEL) (ata_head master lba) d;
             d = port_byte_out io (bus + ATA_REG_FEATURES) 0x00 d;
             d = port_byte_out io (bus + ATA_REG_SECCOUNT0) 1 d;
             d = port_byte_out io (bus + ATA_REG_LBA0) (ucast (lba AND 0x000000ff)) d;
             d = port_byte_out io (bus + ATA_REG_LBA1) (ucast (drop_bit 8 (lba AND 0x0000ff00))) d;
             d = port_byte_out io (bus + ATA_REG_LBA2) (ucast (drop_bit 16 (lba AND 0x00ff0000))) d;
             d = port_byte_out io (bus + ATA_REG_COMMAND) ATA_CMD_READ_PIO d
         in rbind (ata_wait io bus True d) (\<lambda>(r, d).
         if r \<noteq> 0 then Some (Panic ''error during ATA read'')
         else let (m, d) = fetch_words io bus buf 256 m d
              in rbind (ata_wait io bus False d) (\<lambda>(_, d). Some (Ret (EOK, m, d))))))"

section \<open>Finding the disks\<close>

definition ide_block_device :: "'d io_ports \<Rightarrow> u8 list \<Rightarrow> u32 \<Rightarrow> u32 \<Rightarrow> addr \<Rightarrow> 'd block_device" where
  "ide_block_device io name0 id0 num_sectors private_data =
     \<lparr>bdev_device_id = id0, bdev_device_name = name0, block_size = 512, total_blocks = num_sectors,
      write_block = ide_write_block io, read_block = ide_read_block io, bdev_private_data = private_data\<rparr>"

text \<open>
  \<^verbatim>\<open>kmalloc\<close> zeroes the device it returns, so its name starts as 32 zero bytes. Entries 1 and 3 of
  the bus table are skipped (the \<^verbatim>\<open>continue\<close> of the C loop).
\<close>

primrec ide_scan_loop ::
  "'d io_ports \<Rightarrow> heap_allocator \<Rightarrow> nat \<Rightarrow> 'd device_registry \<times> mem \<times> 'd \<Rightarrow> ('d device_registry \<times> mem \<times> 'd) run" where
  "ide_scan_loop io h 0 s = Some (Ret s)"
| "ide_scan_loop io h (Suc i) s =
     rbind (ide_scan_loop io h i s) (\<lambda>(reg, m, d).
       if i mod 2 \<noteq> 0 then Some (Ret (reg, m, d))
       else
         let bus = ide_buses ! i; flags = 0x00
         in rbind (ide_device_identify io bus flags d) (\<lambda>(num_sectors, d).
            if num_sectors = 0 then Some (Ret (reg, m, d))
            else rbind (kmalloc m h sizeof_ide_device_private_data) (\<lambda>(private_data, m).
              let m = store16 m private_data bus;
                  m = m(private_data + 2 := flags OR IDE_DEVICE_FLAG_PRESENT)
              in rbind (kmalloc m h sizeof_block_device) (\<lambda>(bdev, m).
                 rbind (Some (register_block_device reg (ide_block_device io (replicate 32 0) 0 num_sectors private_data)))
                   (\<lambda>reg. Some (Ret (reg, m, d)))))))"

definition ide_driver_scan_disks ::
  "'d io_ports \<Rightarrow> heap_allocator \<Rightarrow> 'd device_registry \<Rightarrow> mem \<Rightarrow> 'd \<Rightarrow> (u32 \<times> 'd device_registry \<times> mem \<times> 'd) run" where
  "ide_driver_scan_disks io h reg m d =
     rbind (ide_scan_loop io h 4 (reg, m, d)) (\<lambda>s. Some (Ret (EOK, s)))"

section \<open>The drive\<close>

text \<open>
  What is visible of a drive: its task file registers (by offset), for how many status reads it
  is still busy, the words it has to deliver, the words it has accepted of a sector that is
  being written, and the sectors of master and slave.
\<close>

record ata =
  taskfile :: "u16 \<Rightarrow> u8"
  ata_busy :: nat
  transfer :: "u16 list"
  accepted :: "u16 list"
  disk :: "bool \<Rightarrow> u32 \<Rightarrow> u16 list"

definition ata_lba :: "(u16 \<Rightarrow> u8) \<Rightarrow> u32" where
  "ata_lba t = ucast (t 3) OR push_bit 8 (ucast (t 4)) OR push_bit 16 (ucast (t 5)) OR push_bit 24 (ucast (t 6 AND 0x0F))"

definition ata_master :: "(u16 \<Rightarrow> u8) \<Rightarrow> bool" where
  "ata_master t \<longleftrightarrow> t 6 AND 0x10 = 0"

definition addressed :: "ata \<Rightarrow> u16 list" where
  "addressed a = disk a (ata_master (taskfile a)) (ata_lba (taskfile a))"

definition store_sector :: "u16 list \<Rightarrow> ata \<Rightarrow> ata" where
  "store_sector ws a = a\<lparr>accepted := [], disk := (disk a)(ata_master (taskfile a) :=
     (disk a (ata_master (taskfile a)))(ata_lba (taskfile a) := ws))\<rparr>"

text \<open>
  The documented behaviour: the status register shows busy for a finite number of reads, then no
  error, and data request while there is something to deliver; the registers 2 to 6 keep what is
  written to them; the commands start a transfer for the addressed sector of the selected drive;
  features, control and the port \<open>bus + 12\<close> do not change what is visible here.
\<close>

definition ata_drive :: "'d io_ports \<Rightarrow> u16 \<Rightarrow> ('d \<Rightarrow> ata) \<Rightarrow> bool" where
  "ata_drive io bus view \<longleftrightarrow>
     (\<forall>d. if 0 < ata_busy (view d)
          then fst (in8 io (bus + 7) d) AND 0x80 \<noteq> 0
            \<and> view (snd (in8 io (bus + 7) d)) = (view d)\<lparr>ata_busy := ata_busy (view d) - 1\<rparr>
          else fst (in8 io (bus + 7) d) AND 0x80 = 0 \<and> fst (in8 io (bus + 7) d) AND 0x20 = 0
            \<and> fst (in8 io (bus + 7) d) AND 0x01 = 0
            \<and> (fst (in8 io (bus + 7) d) AND 0x08 \<noteq> 0 \<longleftrightarrow> transfer (view d) \<noteq> [])
            \<and> view (snd (in8 io (bus + 7) d)) = view d)
   \<and> (\<forall>d. view (snd (in8 io (bus + 12) d)) = view d)
   \<and> (\<forall>d v. view (out8 io (bus + 12) v d) = view d)
   \<and> (\<forall>d v. view (out8 io (bus + 1) v d) = view d)
   \<and> (\<forall>d v. \<forall>r \<in> {2, 3, 4, 5, 6}. ata_busy (view d) = 0 \<longrightarrow>
        view (out8 io (bus + r) v d) = (view d)\<lparr>taskfile := (taskfile (view d))(r := v)\<rparr>)
   \<and> (\<forall>d. ata_busy (view d) = 0 \<and> taskfile (view d) 2 = 1 \<longrightarrow>
        (\<exists>n. view (out8 io (bus + 7) 0x20 d) = (view d)\<lparr>ata_busy := n, transfer := addressed (view d)\<rparr>))
   \<and> (\<forall>d. ata_busy (view d) = 0 \<and> taskfile (view d) 2 = 1 \<longrightarrow>
        (\<exists>n. view (out8 io (bus + 7) 0x30 d) = (view d)\<lparr>ata_busy := n, accepted := []\<rparr>))
   \<and> (\<forall>d. \<exists>n. view (out8 io (bus + 7) 0xE7 d) = (view d)\<lparr>ata_busy := n\<rparr>)
   \<and> (\<forall>d w ws. ata_busy (view d) = 0 \<and> transfer (view d) = w # ws \<longrightarrow>
        fst (in16 io bus d) = w \<and> view (snd (in16 io bus d)) = (view d)\<lparr>transfer := ws\<rparr>)
   \<and> (\<forall>d w. ata_busy (view d) = 0 \<and> length (accepted (view d)) < 255 \<longrightarrow>
        view (out16 io bus w d) = (view d)\<lparr>accepted := accepted (view d) @ [w]\<rparr>)
   \<and> (\<forall>d w. ata_busy (view d) = 0 \<and> length (accepted (view d)) = 255 \<longrightarrow>
        (\<exists>n. view (out16 io bus w d) = (store_sector (accepted (view d) @ [w]) (view d))\<lparr>ata_busy := n\<rparr>))"

lemma ata_status:
  assumes "ata_drive io bus view"
  shows "0 < ata_busy (view d) \<Longrightarrow> fst (in8 io (bus + 7) d) AND 0x80 \<noteq> 0"
    "0 < ata_busy (view d) \<Longrightarrow> view (snd (in8 io (bus + 7) d)) = (view d)\<lparr>ata_busy := ata_busy (view d) - 1\<rparr>"
    "ata_busy (view d) = 0 \<Longrightarrow> fst (in8 io (bus + 7) d) AND 0x80 = 0"
    "ata_busy (view d) = 0 \<Longrightarrow> fst (in8 io (bus + 7) d) AND 0x20 = 0"
    "ata_busy (view d) = 0 \<Longrightarrow> fst (in8 io (bus + 7) d) AND 0x01 = 0"
    "ata_busy (view d) = 0 \<Longrightarrow> fst (in8 io (bus + 7) d) AND 0x08 = 0 \<longleftrightarrow> transfer (view d) = []"
    "ata_busy (view d) = 0 \<Longrightarrow> view (snd (in8 io (bus + 7) d)) = view d"
  using assms [unfolded ata_drive_def, THEN conjunct1, rule_format, of d] by (auto split: if_splits)

lemma ata_rest:
  assumes "ata_drive io bus view"
  shows "view (snd (in8 io (bus + 12) d)) = view d"
    "view (out8 io (bus + 12) v d) = view d"
    "view (out8 io (bus + 1) v d) = view d"
    "r \<in> {2, 3, 4, 5, 6} \<Longrightarrow> ata_busy (view d) = 0 \<Longrightarrow>
        view (out8 io (bus + r) v d) = (view d)\<lparr>taskfile := (taskfile (view d))(r := v)\<rparr>"
    "ata_busy (view d) = 0 \<Longrightarrow> taskfile (view d) 2 = 1 \<Longrightarrow>
        \<exists>n. view (out8 io (bus + 7) 0x20 d) = (view d)\<lparr>ata_busy := n, transfer := addressed (view d)\<rparr>"
    "ata_busy (view d) = 0 \<Longrightarrow> taskfile (view d) 2 = 1 \<Longrightarrow>
        \<exists>n. view (out8 io (bus + 7) 0x30 d) = (view d)\<lparr>ata_busy := n, accepted := []\<rparr>"
    "\<exists>n. view (out8 io (bus + 7) 0xE7 d) = (view d)\<lparr>ata_busy := n\<rparr>"
    "ata_busy (view d) = 0 \<Longrightarrow> transfer (view d) = w # ws \<Longrightarrow> fst (in16 io bus d) = w"
    "ata_busy (view d) = 0 \<Longrightarrow> transfer (view d) = w # ws \<Longrightarrow> view (snd (in16 io bus d)) = (view d)\<lparr>transfer := ws\<rparr>"
    "ata_busy (view d) = 0 \<Longrightarrow> length (accepted (view d)) < 255 \<Longrightarrow>
        view (out16 io bus w d) = (view d)\<lparr>accepted := accepted (view d) @ [w]\<rparr>"
    "ata_busy (view d) = 0 \<Longrightarrow> length (accepted (view d)) = 255 \<Longrightarrow>
        \<exists>n. view (out16 io bus w d) = (store_sector (accepted (view d) @ [w]) (view d))\<lparr>ata_busy := n\<rparr>"
  using assms [unfolded ata_drive_def, THEN conjunct2] by metis+

text \<open>The waiting loop ends after as many rounds as the drive is busy.\<close>

lemma ata_wait_ready_ends:
  assumes "ata_drive io bus view"
  shows "\<exists>d'. ata_wait_ready io bus d = Some (Ret d') \<and> view d' = (view d)\<lparr>ata_busy := 0\<rparr>"
proof (induction "ata_busy (view d)" arbitrary: d)
  case 0
  note S = ata_status [OF assms, of d]
  from 0 S show ?case
    by (auto simp: ata_wait_ready.simps [of io bus d] port_defs ata_defs split_beta)
next
  case (Suc n)
  note S = ata_status [OF assms, of d]
  from Suc.hyps(2) have "0 < ata_busy (view d)" by simp
  with S have b: "fst (in8 io (bus + 7) d) AND 0x80 \<noteq> 0"
    "view (snd (in8 io (bus + 7) d)) = (view d)\<lparr>ata_busy := ata_busy (view d) - 1\<rparr>" by blast+
  have "n = ata_busy (view (snd (in8 io (bus + 7) d)))" using Suc.hyps(2) b(2) by simp
  from Suc.hyps(1) [OF this] b show ?case
    by (simp add: ata_wait_ready.simps [of io bus d] port_defs ata_defs split_beta)
qed

lemma ata_io_wait_view: "ata_drive io bus view \<Longrightarrow> view (ata_io_wait io bus d) = view d"
  by (simp add: ata_io_wait_def split_beta port_defs ata_defs ata_rest)

lemma ata_wait_done:
  assumes "ata_drive io bus view"
  shows "\<exists>d'. ata_wait io bus adv d = Some (Ret (if adv \<and> transfer (view d) = [] then 1 else 0, d'))
    \<and> view d' = (view d)\<lparr>ata_busy := 0\<rparr>"
proof -
  from ata_wait_ready_ends [OF assms, of "ata_io_wait io bus d"] obtain d1 where d1:
    "ata_wait_ready io bus (ata_io_wait io bus d) = Some (Ret d1)" "view d1 = (view d)\<lparr>ata_busy := 0\<rparr>"
    by (auto simp: ata_io_wait_view [OF assms])
  note S = ata_status(3-7) [OF assms, of d1]
  from d1(2) have "ata_busy (view d1) = 0" "transfer (view d1) = transfer (view d)" by simp_all
  with S d1 show ?thesis
    by (auto simp: ata_wait_def port_defs ata_defs split_beta)
qed

section \<open>Sectors as bytes\<close>

definition word_bytes :: "u16 \<Rightarrow> u8 list" where
  "word_bytes w = [ucast w, ucast (drop_bit 8 w)]"

lemma length_words: "length (concat (map word_bytes ws)) = 2 * length ws"
  by (induction ws) (auto simp: word_bytes_def)

lemma word_bytes_load16: "word_bytes (load16 m a) = [m a, m (a + 1)]"
proof -
  have "ucast (load16 m a) = m a" "ucast (drop_bit 8 (load16 m a)) = m (a + 1)"
    by (rule bit_word_eqI, auto simp: load16_def bit_simps not_bit_u8)+
  then show ?thesis by (simp add: word_bytes_def)
qed

lemma bytes_at_words: "concat (map word_bytes (map (\<lambda>i. load16 m (p + 2 * of_nat i)) [0..<n])) = bytes_at m p (2 * n)"
proof (induction n)
  case (Suc n)
  have "bytes_at m p (2 * Suc n) = bytes_at m p (2 * n) @ [m (p + 2 * of_nat n), m (p + 2 * of_nat n + 1)]"
    by (simp add: bytes_at_def algebra_simps)
  with Suc show ?case by (simp add: word_bytes_load16)
qed (simp add: bytes_at_def)

lemma fetch_words_transfer:
  assumes "ata_drive io bus view" "ata_busy (view d) = 0"
  shows "n \<le> length (transfer (view d)) \<Longrightarrow> \<exists>d'.
     fetch_words io bus buf n m d = (put_bytes m buf (concat (map word_bytes (take n (transfer (view d))))), d')
     \<and> view d' = (view d)\<lparr>transfer := drop n (transfer (view d))\<rparr>"
proof (induction n)
  case (Suc n)
  then obtain d' where d': "fetch_words io bus buf n m d = (put_bytes m buf (concat (map word_bytes (take n (transfer (view d))))), d')"
    "view d' = (view d)\<lparr>transfer := drop n (transfer (view d))\<rparr>" by auto
  let ?w = "transfer (view d) ! n"
  have w: "drop n (transfer (view d)) = ?w # drop (Suc n) (transfer (view d))" using Suc.prems by (simp add: Cons_nth_drop_Suc)
  have "fst (in16 io bus d') = ?w" "view (snd (in16 io bus d')) = (view d')\<lparr>transfer := drop (Suc n) (transfer (view d))\<rparr>"
    using ata_rest(8,9) [OF assms(1), of d'] d'(2) w assms(2) by simp_all
  moreover have "put_bytes m buf (concat (map word_bytes (take (Suc n) (transfer (view d)))))
      = store16 (put_bytes m buf (concat (map word_bytes (take n (transfer (view d)))))) (buf + 2 * of_nat n) ?w"
    using Suc.prems by (simp add: take_Suc_conv_app_nth put_bytes_append length_words word_bytes_def store16_def)
  ultimately show ?case using d' by (simp add: port_defs split_beta)
qed simp

lemma write_words_accepted:
  assumes "ata_drive io bus view" "ata_busy (view d) = 0" "accepted (view d) = []"
  shows "n \<le> 255 \<Longrightarrow> view (write_words io bus buf m n d)
     = (view d)\<lparr>accepted := map (\<lambda>i. load16 m (buf + 2 * of_nat i)) [0..<n]\<rparr>"
proof (induction n)
  case 0
  then show ?case using assms(3) by simp
next
  case (Suc n)
  then have "view (write_words io bus buf m n d) = (view d)\<lparr>accepted := map (\<lambda>i. load16 m (buf + 2 * of_nat i)) [0..<n]\<rparr>" by simp
  with ata_rest(10) [OF assms(1), of "write_words io bus buf m n d" "load16 m (buf + 2 * of_nat n)"] Suc.prems assms(2)
  show ?case by (simp add: port_defs)
qed

lemma write_words_stored:
  assumes "ata_drive io bus view" "ata_busy (view d) = 0" "accepted (view d) = []"
  shows "\<exists>k. view (write_words io bus buf m 256 d)
     = (store_sector (map (\<lambda>i. load16 m (buf + 2 * of_nat i)) [0..<256]) (view d))\<lparr>ata_busy := k\<rparr>"
proof -
  let ?d = "write_words io bus buf m 255 d"
  have d: "view ?d = (view d)\<lparr>accepted := map (\<lambda>i. load16 m (buf + 2 * of_nat i)) [0..<255]\<rparr>"
    by (rule write_words_accepted [OF assms]) simp
  have "[0..<256] = [0..<255] @ [255]" using upt_Suc_append [of 0 255] by simp
  moreover have "write_words io bus buf m (Suc 255) d = port_word_out io bus (load16 m (buf + 2 * of_nat 255)) ?d"
    by (rule write_words.simps(2))
  moreover have "ata_busy (view ?d) = 0" "length (accepted (view ?d)) = 255" using d assms(2) by simp_all
  note ata_rest(11) [OF assms(1) this, of "load16 m (buf + 2 * of_nat 255)"]
  ultimately show ?thesis using d by (simp add: port_defs store_sector_def)
qed

lemma lba_not_bit: "unat l < 2 ^ 28 \<Longrightarrow> 28 \<le> k \<Longrightarrow> \<not> bit (l :: u32) k"
proof -
  assume l: "unat l < 2 ^ 28" and k: "28 \<le> k"
  then have "unat l < 2 ^ k" by (meson less_le_trans one_le_numeral power_increasing)
  then have "\<not> bit (unat l) k" by (simp add: bit_iff_odd)
  then show ?thesis by (simp add: bit_unsigned_iff)
qed

lemma bit_ff: "bit (0xFF :: int) k \<longleftrightarrow> k < 8" "bit (0x0F :: int) k \<longleftrightarrow> k < 4"
  "bit (0xFF00 :: int) k \<longleftrightarrow> 8 \<le> k \<and> k < 16" "bit (0xFF0000 :: int) k \<longleftrightarrow> 16 \<le> k \<and> k < 24"
  "bit (0xF000000 :: int) k \<longleftrightarrow> 24 \<le> k \<and> k < 28"
proof -
  have "0xFF = (mask 8 :: int)" "0x0F = (mask 4 :: int)" "0xFF00 = (push_bit 8 (mask 8) :: int)"
    "0xFF0000 = (push_bit 16 (mask 8) :: int)" "0xF000000 = (push_bit 24 (mask 4) :: int)"
    by (simp_all add: mask_eq_exp_minus_1)
  then show "bit (0xFF :: int) k \<longleftrightarrow> k < 8" "bit (0x0F :: int) k \<longleftrightarrow> k < 4"
    "bit (0xFF00 :: int) k \<longleftrightarrow> 8 \<le> k \<and> k < 16" "bit (0xFF0000 :: int) k \<longleftrightarrow> 16 \<le> k \<and> k < 24"
    "bit (0xF000000 :: int) k \<longleftrightarrow> 24 \<le> k \<and> k < 28"
    by (auto simp only: bit_mask_iff bit_push_bit_iff) auto
qed

lemma head_and: "ata_head master l AND 0x0F = ucast (drop_bit 24 (l AND 0x0f000000))" 
  "ata_head master l AND 0x10 = 0 \<longleftrightarrow> master"
proof -
  define x :: u8 where "x = ucast (drop_bit 24 (l AND 0x0f000000))"
  have x: "x AND 0x0F = x" 
    unfolding x_def by (rule bit_word_eqI) (auto simp: bit_simps bit_ff)
  have "x AND 0x10 = x AND (0x0F AND 0x10)" using x by (metis and.assoc)
  then have x10: "x AND 0x10 = 0" by simp
  show "ata_head master l AND 0x0F = ucast (drop_bit 24 (l AND 0x0f000000))"
    unfolding ata_head_def x_def [symmetric] by (simp add: bit.conj_disj_distrib2 x)
  show "ata_head master l AND 0x10 = 0 \<longleftrightarrow> master"
    unfolding ata_head_def x_def [symmetric] by (simp add: bit.conj_disj_distrib2 x10)
qed

lemma ata_lba_written:
  assumes "unat l < 2 ^ 28"
    and "t 6 = ata_head master l" "t 3 = ucast (l AND 0xff)" "t 4 = ucast (drop_bit 8 (l AND 0xff00))"
      "t 5 = ucast (drop_bit 16 (l AND 0x00ff0000))"
  shows "ata_lba t = l" "ata_master t = master"
proof -
  show "ata_lba t = l"
    unfolding ata_lba_def assms(2-5) head_and
  proof (rule bit_word_eqI)
    fix k assume "k < LENGTH(32)"
    then have "k < 8 \<or> 8 \<le> k \<and> k < 16 \<or> 16 \<le> k \<and> k < 24 \<or> 24 \<le> k \<and> k < 28 \<or> 28 \<le> k \<and> k < 32" by auto
    then show "bit (ucast (ucast (l AND 0xff) :: u8) OR push_bit 8 (ucast (ucast (drop_bit 8 (l AND 0xff00)) :: u8)) OR
       push_bit 16 (ucast (ucast (drop_bit 16 (l AND 0x00ff0000)) :: u8)) OR
       push_bit 24 (ucast (ucast (drop_bit 24 (l AND 0x0f000000)) :: u8)) :: u32) k = bit l k"
      using lba_not_bit [OF assms(1), of k]
      by (elim disjE) (auto simp: bit_simps bit_ff)
  qed
  show "ata_master t = master" unfolding ata_master_def assms(2) by (rule head_and)
qed

section \<open>A sector is read and written\<close>

text \<open>The state after the register writes that both routines share.\<close>

definition programmed :: "('d \<Rightarrow> ata) \<Rightarrow> bool \<Rightarrow> u32 \<Rightarrow> 'd \<Rightarrow> 'd \<Rightarrow> bool" where
  "programmed view master l d d' \<longleftrightarrow> ata_busy (view d') = 0 \<and> transfer (view d') = transfer (view d)
     \<and> accepted (view d') = accepted (view d) \<and> disk (view d') = disk (view d) \<and> taskfile (view d') 2 = 1
     \<and> ata_lba (taskfile (view d')) = l \<and> ata_master (taskfile (view d')) = master"

lemma program_sector:
  assumes drive: "ata_drive io bus view" and l: "unat l < 2 ^ 28" and idle: "ata_busy (view d) = 0"
    and head: "taskfile (view d) 6 = ata_head master l"
  shows "programmed view master l d
    (out8 io (bus + 5) (ucast (drop_bit 16 (l AND 0x00ff0000)))
      (out8 io (bus + 4) (ucast (drop_bit 8 (l AND 0x0000ff00)))
        (out8 io (bus + 3) (ucast (l AND 0x000000ff))
          (out8 io (bus + 2) 1 (out8 io (bus + 1) 0 d)))))"
proof -
  let ?t = "(taskfile (view d))(2 := 1, 3 := ucast (l AND 0x000000ff), 4 := ucast (drop_bit 8 (l AND 0x0000ff00)),
      5 := ucast (drop_bit 16 (l AND 0x00ff0000)))"
  have r: "view (out8 io (bus + r) v e) = (view e)\<lparr>taskfile := (taskfile (view e))(r := v)\<rparr>"
    if "r \<in> {2, 3, 4, 5, 6}" "ata_busy (view e) = 0" for r v e
    using ata_rest(4) [OF drive that] .
  have f: "view (out8 io (bus + 1) v e) = view e" for v e by (rule ata_rest(3) [OF drive])
  have "ata_lba ?t = l" "ata_master ?t = master"
    by (rule ata_lba_written [OF l]; simp add: head)+
  then show ?thesis using idle by (simp add: programmed_def r f)
qed

lemma ide_read_block_reads:
  assumes drive: "ata_drive io bus view" and bus: "ide_bus m p = bus" and master: "ide_flags m p AND 1 = 0 \<longleftrightarrow> master"
    and l: "unat l < 2 ^ 28" and len: "length (disk (view d) master l) = 256"
  shows "\<exists>d'. ide_read_block io p l buf m d = Some (Ret (EOK, put_bytes m buf (concat (map word_bytes (disk (view d) master l))), d'))
    \<and> disk (view d') = disk (view d)"
proof -
  note defs = port_defs ata_defs
  from ata_wait_ready_ends [OF drive, of "out8 io (bus + 12) 2 d"] obtain d1 where d1:
    "ata_wait_ready io bus (out8 io (bus + 12) 2 d) = Some (Ret d1)" "view d1 = (view d)\<lparr>ata_busy := 0\<rparr>"
    by (auto simp: ata_rest(2) [OF drive])
  let ?d2 = "out8 io (bus + 6) (ata_head master l) d1"
  have d2: "view ?d2 = (view d1)\<lparr>taskfile := (taskfile (view d1))(6 := ata_head master l)\<rparr>"
    using ata_rest(4) [OF drive, of 6 d1] d1(2) by simp
  let ?d3 = "out8 io (bus + 5) (ucast (drop_bit 16 (l AND 0x00ff0000)))
      (out8 io (bus + 4) (ucast (drop_bit 8 (l AND 0x0000ff00)))
        (out8 io (bus + 3) (ucast (l AND 0x000000ff)) (out8 io (bus + 2) 1 (out8 io (bus + 1) 0 ?d2))))"
  have "ata_busy (view ?d2) = 0" "taskfile (view ?d2) 6 = ata_head master l" using d1(2) d2 by simp_all
  note P = program_sector [OF drive l this, unfolded programmed_def]
  let ?d4 = "out8 io (bus + 7) 0x20 ?d3"
  from P have b: "ata_busy (view ?d3) = 0" and s: "taskfile (view ?d3) 2 = 1" by blast+
  from ata_rest(5) [OF drive b s] obtain n where n: "view ?d4 = (view ?d3)\<lparr>ata_busy := n, transfer := addressed (view ?d3)\<rparr>" by blast
  have data: "addressed (view ?d3) = disk (view d) master l"
    unfolding addressed_def using P d1(2) d2 by simp
  have "transfer (view ?d4) = disk (view d) master l" using n data by simp
  with len have ne: "(if True \<and> transfer (view ?d4) = [] then 1 else 0) = (0 :: int)" by auto
  from ata_wait_done [OF drive, of True ?d4, unfolded ne] obtain d5 where d5:
    "ata_wait io bus True ?d4 = Some (Ret (0, d5))" "view d5 = (view ?d4)\<lparr>ata_busy := 0\<rparr>"
    by blast
  have t5: "transfer (view d5) = disk (view d) master l" "ata_busy (view d5) = 0" "disk (view d5) = disk (view d)"
    using d5(2) n data P d1(2) d2 by simp_all
  from fetch_words_transfer [OF drive t5(2), of 256 buf m] obtain d6 where d6:
    "fetch_words io bus buf 256 m d5 = (put_bytes m buf (concat (map word_bytes (disk (view d) master l))), d6)"
    "disk (view d6) = disk (view d)"
    using t5 len by auto
  from ata_wait_done [OF drive, of False d6] obtain d7 where d7: "ata_wait io bus False d6 = Some (Ret (0, d7))" "disk (view d7) = disk (view d6)" by auto
  have "ide_read_block io p l buf m d = Some (Ret (EOK, put_bytes m buf (concat (map word_bytes (disk (view d) master l))), d7))"
    unfolding ide_read_block_def defs Let_def bus master d1(1) rbind.simps d5(1) prod.case
    by (simp add: d6(1) d7(1))
  with d7(2) d6(2) show ?thesis by auto
qed

lemma ide_write_block_writes:
  assumes drive: "ata_drive io bus view" and bus: "ide_bus m p = bus" and master: "ide_flags m p AND 1 = 0 \<longleftrightarrow> master"
    and l: "unat l < 2 ^ 28"
  shows "\<exists>d'. ide_write_block io p l buf m d = Some (Ret (EOK, m, d'))
    \<and> disk (view d') = (disk (view d))(master := (disk (view d) master)(l := map (\<lambda>i. load16 m (buf + 2 * of_nat i)) [0..<256]))"
proof -
  note defs = port_defs ata_defs
  from ata_wait_ready_ends [OF drive, of "out8 io (bus + 12) 2 d"] obtain d1 where d1:
    "ata_wait_ready io bus (out8 io (bus + 12) 2 d) = Some (Ret d1)" "view d1 = (view d)\<lparr>ata_busy := 0\<rparr>"
    by (auto simp: ata_rest(2) [OF drive])
  let ?d2 = "out8 io (bus + 6) (ata_head master l) d1"
  have d2: "view ?d2 = (view d1)\<lparr>taskfile := (taskfile (view d1))(6 := ata_head master l)\<rparr>"
    using ata_rest(4) [OF drive, of 6 d1] d1(2) by simp
  from ata_wait_done [OF drive, of False ?d2] obtain d2' where d2': "ata_wait io bus False ?d2 = Some (Ret (0, d2'))"
    "view d2' = (view ?d2)\<lparr>ata_busy := 0\<rparr>" by auto
  let ?d3 = "out8 io (bus + 5) (ucast (drop_bit 16 (l AND 0x00ff0000)))
      (out8 io (bus + 4) (ucast (drop_bit 8 (l AND 0x0000ff00)))
        (out8 io (bus + 3) (ucast (l AND 0x000000ff)) (out8 io (bus + 2) 1 (out8 io (bus + 1) 0 d2'))))"
  have "ata_busy (view d2') = 0" "taskfile (view d2') 6 = ata_head master l" using d2'(2) d2 by simp_all
  note P = program_sector [OF drive l this, unfolded programmed_def]
  let ?d4 = "out8 io (bus + 7) 0x30 ?d3"
  from P have b: "ata_busy (view ?d3) = 0" and s: "taskfile (view ?d3) 2 = 1" by blast+
  from ata_rest(6) [OF drive b s] obtain n where n: "view ?d4 = (view ?d3)\<lparr>ata_busy := n, accepted := []\<rparr>" by blast
  from ata_wait_done [OF drive, of False ?d4] obtain d5 where d5:
    "ata_wait io bus False ?d4 = Some (Ret (0, d5))" "view d5 = (view ?d4)\<lparr>ata_busy := 0\<rparr>" by auto
  let ?ws = "map (\<lambda>i. load16 m (buf + 2 * of_nat i)) [0..<256]"
  have t5: "ata_busy (view d5) = 0" "accepted (view d5) = []" "disk (view d5) = disk (view d)"
    "ata_lba (taskfile (view d5)) = l" "ata_master (taskfile (view d5)) = master"
    using d5(2) n P d1(2) d2 d2'(2) by simp_all
  let ?d6 = "write_words io bus buf m 256 d5"
  from write_words_stored [OF drive t5(1,2), of buf m] t5 have
    d6: "disk (view ?d6) = (disk (view d))(master := (disk (view d) master)(l := ?ws))"
    by (auto simp: store_sector_def)
  have "disk (view (out8 io (bus + 7) 0xE7 ?d6)) = disk (view ?d6)" using ata_rest(7) [OF drive, of ?d6] by auto
  with ata_wait_done [OF drive, of False "out8 io (bus + 7) 0xE7 ?d6"] obtain d7 where
    d7: "ata_wait io bus False (out8 io (bus + 7) 0xE7 ?d6) = Some (Ret (0, d7))" "disk (view d7) = disk (view ?d6)" by auto
  have "ide_write_block io p l buf m d = Some (Ret (EOK, m, d7))"
    unfolding ide_write_block_def defs Let_def bus master d1(1) rbind.simps d2'(1) d5(1) prod.case
    by (simp add: d7(1))
  with d7(2) d6 show ?thesis by auto
qed

section \<open>The driver keeps the contract of a block device\<close>

definition ide_ok :: "'d io_ports \<Rightarrow> ('d \<Rightarrow> ata) \<Rightarrow> bool \<Rightarrow> addr \<Rightarrow> mem \<Rightarrow> 'd \<Rightarrow> bool" where
  "ide_ok io view master p m d \<longleftrightarrow> ata_drive io (ide_bus m p) view \<and> (ide_flags m p AND 1 = 0 \<longleftrightarrow> master)
     \<and> (\<forall>l. length (disk (view d) master l) = 256)"

definition ide_sector :: "('d \<Rightarrow> ata) \<Rightarrow> bool \<Rightarrow> 'd \<Rightarrow> u32 \<Rightarrow> u8 list" where
  "ide_sector view master d l = concat (map word_bytes (disk (view d) master l))"

lemma ide_private_frame:
  assumes "\<And>a. in_region p 4 a \<Longrightarrow> m' a = m a"
  shows "ide_bus m' p = ide_bus m p" "ide_flags m' p = ide_flags m p"
  using assms by (simp_all add: ide_bus_def ide_flags_def load16_def in_region_def)

interpretation ide: block_store "ide_block_device io name id n p" "2 ^ 28" "in_region p 4"
  "ide_ok io view master p" "ide_sector view master" for io name id n p view master
proof
  show "block_size (ide_block_device io name id n p) = 512" by (simp add: ide_block_device_def)
  fix m d assume ok: "ide_ok io view master p m d"
  note parts = ok [unfolded ide_ok_def]
  show "length (ide_sector view master d l) = 512" for l
    using parts by (simp add: ide_sector_def length_words)
  show frame: "ide_ok io view master p m' d" if "\<And>a. in_region p 4 a \<Longrightarrow> m' a = m a" for m'
    using parts ide_private_frame [OF that] by (simp add: ide_ok_def)
  show "\<exists>d'. read_block (ide_block_device io name id n p) (bdev_private_data (ide_block_device io name id n p)) l buf m d
        = Some (Ret (EOK, put_bytes m buf (ide_sector view master d l), d'))
      \<and> ide_ok io view master p (put_bytes m buf (ide_sector view master d l)) d' \<and> ide_sector view master d' = ide_sector view master d"
    if l: "unat l < 2 ^ 28" and np: "\<And>a. in_region buf 512 a \<Longrightarrow> \<not> in_region p 4 a" for l buf
  proof -
    from ide_read_block_reads [OF _ refl _ l, of io m p view master d buf] parts obtain d' where
      d': "ide_read_block io p l buf m d = Some (Ret (EOK, put_bytes m buf (ide_sector view master d l), d'))"
      "disk (view d') = disk (view d)" by (auto simp: ide_sector_def)
    have len: "length (ide_sector view master d l) = 512" using parts by (simp add: ide_sector_def length_words)
    have "put_bytes m buf (ide_sector view master d l) a = m a" if "in_region p 4 a" for a
    proof -
      have "\<not> in_region buf 512 a" using np that by blast
      with put_bytes_same_outside [of "ide_sector view master d l" 512 buf m] len show ?thesis by (simp add: same_outside_def)
    qed
    from ide_private_frame [OF this] parts d'(2)
    have "ide_ok io view master p (put_bytes m buf (ide_sector view master d l)) d'" by (simp add: ide_ok_def)
    moreover have "ide_sector view master d' = ide_sector view master d" using d'(2) by (auto simp: ide_sector_def fun_eq_iff)
    ultimately show ?thesis using d'(1) by (auto simp: ide_block_device_def)
  qed
  show "\<exists>d'. write_block (ide_block_device io name id n p) (bdev_private_data (ide_block_device io name id n p)) l buf m d
        = Some (Ret (EOK, m, d'))
      \<and> ide_ok io view master p m d' \<and> ide_sector view master d' = (ide_sector view master d)(l := bytes_at m buf 512)"
    if l: "unat l < 2 ^ 28" for l buf
  proof -
    from ide_write_block_writes [OF _ refl _ l, of io m p view master buf d] parts obtain d' where
      d': "ide_write_block io p l buf m d = Some (Ret (EOK, m, d'))"
      "disk (view d') = (disk (view d))(master := (disk (view d) master)(l := map (\<lambda>i. load16 m (buf + 2 * of_nat i)) [0..<256]))"
      by blast
    have "ide_sector view master d' = (ide_sector view master d)(l := bytes_at m buf 512)"
      using bytes_at_words [of m buf 256] d'(2) by (auto simp: ide_sector_def fun_eq_iff)
    moreover have "ide_ok io view master p m d'" using parts d'(2) by (simp add: ide_ok_def)
    ultimately show ?thesis using d'(1) by (auto simp: ide_block_device_def)
  qed
qed

text \<open>
  A drive for the examples: busy for three status reads after a command, one after a flush and
  two after a sector has been written.
\<close>

definition demo_drive :: "ata io_ports" where
  "demo_drive = \<lparr>
     in8 = (\<lambda>port a. if port = 0x1F7 then
              if 0 < ata_busy a then (0x80, a\<lparr>ata_busy := ata_busy a - 1\<rparr>)
              else (if transfer a = [] then 0x40 else 0x48, a)
            else (0, a)),
     out8 = (\<lambda>port v a. if port \<in> {0x1F2, 0x1F3, 0x1F4, 0x1F5, 0x1F6} then
                if ata_busy a = 0 then a\<lparr>taskfile := (taskfile a)(port - 0x1F0 := v)\<rparr> else a
              else if port = 0x1F7 then
                if v = 0x20 then a\<lparr>ata_busy := 3, transfer := addressed a\<rparr>
                else if v = 0x30 then a\<lparr>ata_busy := 3, accepted := []\<rparr>
                else a\<lparr>ata_busy := 1\<rparr>
              else a),
     in16 = (\<lambda>port a. case transfer a of [] \<Rightarrow> (0, a) | w # ws \<Rightarrow> (w, a\<lparr>transfer := ws\<rparr>)),
     out16 = (\<lambda>port w a. if length (accepted a) < 255 then a\<lparr>accepted := accepted a @ [w]\<rparr>
                else (store_sector (accepted a @ [w]) a)\<lparr>ata_busy := 2\<rparr>),
     in32 = (\<lambda>port a. (0, a)),
     out32 = (\<lambda>port v a. a)\<rparr>"

definition blank_drive :: ata where
  "blank_drive = \<lparr>taskfile = (\<lambda>_. 0), ata_busy = 5, transfer = [], accepted = [], disk = (\<lambda>_ _. replicate 256 0)\<rparr>"

lemma demo_drive_ata: "ata_drive demo_drive 0x1F0 (\<lambda>a. a)"
  unfolding ata_drive_def by (intro conjI allI ballI impI) (auto simp: demo_drive_def)

text \<open>The private data of the disk, at address \<open>0x2000\<close>.\<close>

definition disk_mem :: "mem \<Rightarrow> mem" where
  "disk_mem m = store16 m 0x2000 0x1F0"

lemma ide_ok_demo: "ide_ok demo_drive (\<lambda>a. a) True 0x2000 (disk_mem (\<lambda>_. 0)) blank_drive"
  using demo_drive_ata by (simp add: ide_ok_def disk_mem_def ide_bus_def ide_flags_def store16_def load16_def blank_drive_def)







text \<open>A drive that stays busy is waited for without end.\<close>

lemma ata_wait_ready_busy:
  assumes "\<And>d. fst (in8 io (bus + 7) d) AND 0x80 \<noteq> 0"
  shows "ata_wait_ready io bus d = None"
proof -
  have "\<not> (io' = io \<and> bus' = bus)" if "ata_wait_ready io' bus' d' = Some r" for io' bus' d' r
  proof (rule ata_wait_ready.raw_induct [where P = "\<lambda>io' bus' d' r. \<not> (io' = io \<and> bus' = bus)", OF _ that])
    fix f io' bus' d' r
    assume "\<And>bus'' d'' b y. f bus'' d'' b = Some y \<Longrightarrow> \<not> (bus'' = io \<and> d'' = bus)"
      "(let (s, d) = port_byte_in io' (bus' + ATA_REG_STATUS) d' in if s AND ATA_SR_BSY \<noteq> 0 then f io' bus' d else Some (Ret d)) = Some r"
    then show "\<not> (io' = io \<and> bus' = bus)"
      using assms by (auto simp: port_defs ata_defs split_beta split: if_splits)
  qed
  then show ?thesis by (cases "ata_wait_ready io bus d") auto
qed

end
