(* ===== verification/Mbr.thy ===== *)
theory Mbr
  imports Ide
begin

text \<open>
  \<^verbatim>\<open>kernel/src/fs/mbr.c\<close>: the partition table in the first sector of a block device, and the
  registration of the partitions as logical block devices. The sector is read into a local
  variable, whose address is the parameter \<open>mbr\<close>; the array of four logical devices is another
  uninitialised local variable and a parameter too. The bytes of a registered device are
  allocated on the heap, its content is the record in the registry.
\<close>

section \<open>Reading the table\<close>

definition sizeof_logical_block_device :: u32 where "sizeof_logical_block_device = 56"

text \<open>Entry \<open>i\<close> of the table is the 16 bytes at offset \<open>446 + 16 * i\<close> of the sector.\<close>

definition partition_entry :: "addr \<Rightarrow> nat \<Rightarrow> addr" where
  "partition_entry mbr i = mbr + 446 + 16 * of_nat i"

definition parse_partition ::
  "'d block_device \<Rightarrow> mem \<Rightarrow> addr \<Rightarrow> nat \<Rightarrow> 'd logical_block_device \<Rightarrow> 'd logical_block_device" where
  "parse_partition bdev m mbr i lb =
     (let lb = lb\<lparr>parent := None\<rparr>; e = partition_entry mbr i
      in if m (e + 4) = 0x00 then lb
         else let lb = lb\<lparr>parent := Some bdev\<rparr>;
                  lb = (if m e \<noteq> 0x00 then lb\<lparr>lb_flags := LOGICAL_BLOCK_DEVICE_FLAGS_BOOTABLE\<rparr> else lb)
              in lb\<lparr>lb_type := m (e + 4), lba_offset := load32 m (e + 8), lb_num_blocks := load32 m (e + 12),
                    local_id := of_nat i\<rparr>)"

definition parse_block_device ::
  "'d logical_block_device list \<Rightarrow> 'd block_device \<Rightarrow> addr \<Rightarrow> mem \<Rightarrow> 'd \<Rightarrow> ('d logical_block_device list \<times> mem \<times> 'd) run" where
  "parse_block_device lbdevs bdev mbr m d =
     rbind (submit_read_request bdev \<lparr>rq_lba = 0, rq_num_blocks = 1, rq_buffer = mbr, rq_is_write = False\<rparr> m d)
       (\<lambda>(m, d). Some (Ret (map (\<lambda>i. parse_partition bdev m mbr i (lbdevs ! i)) [0..<4], m, d)))"

fun register_partitions ::
  "heap_allocator \<Rightarrow> 'd logical_block_device list \<Rightarrow> 'd device_registry \<Rightarrow> mem \<Rightarrow> ('d device_registry \<times> mem) run" where
  "register_partitions h [] reg m = Some (Ret (reg, m))"
| "register_partitions h (lb # lbs) reg m =
     (if parent lb = None then register_partitions h lbs reg m
      else rbind (kmalloc m h sizeof_logical_block_device) (\<lambda>(_, m).
           rbind (Some (register_logical_block_device reg lb)) (\<lambda>reg. register_partitions h lbs reg m)))"

fun scan_mbr_loop ::
  "heap_allocator \<Rightarrow> 'd logical_block_device list \<Rightarrow> addr \<Rightarrow> 'd block_device list \<Rightarrow> 'd device_registry \<Rightarrow> mem \<Rightarrow> 'd \<Rightarrow>
   ('d device_registry \<times> mem \<times> 'd) run" where
  "scan_mbr_loop h stack mbr [] reg m d = Some (Ret (reg, m, d))"
| "scan_mbr_loop h stack mbr (bdev # bdevs) reg m d =
     rbind (parse_block_device stack bdev mbr m d) (\<lambda>(lbdevs, m, d).
     rbind (register_partitions h lbdevs reg m) (\<lambda>(reg, m). scan_mbr_loop h stack mbr bdevs reg m d))"

definition scan_logical_block_devices_mbr ::
  "heap_allocator \<Rightarrow> 'd logical_block_device list \<Rightarrow> addr \<Rightarrow> 'd device_registry \<Rightarrow> mem \<Rightarrow> 'd \<Rightarrow>
   (u32 \<times> 'd device_registry \<times> mem \<times> 'd) run" where
  "scan_logical_block_devices_mbr h stack mbr reg m d =
     rbind (scan_mbr_loop h stack mbr (block_devices reg) reg m d) (\<lambda>s. Some (Ret (EOK, s)))"

section \<open>The partitions are those of the table\<close>

definition le32 :: "u8 list \<Rightarrow> nat \<Rightarrow> u32" where
  "le32 bs i = ucast (bs ! i) OR push_bit 8 (ucast (bs ! (i + 1))) OR push_bit 16 (ucast (bs ! (i + 2)))
     OR push_bit 24 (ucast (bs ! (i + 3)))"

definition partition_of :: "'d block_device \<Rightarrow> u8 list \<Rightarrow> nat \<Rightarrow> 'd logical_block_device \<Rightarrow> 'd logical_block_device" where
  "partition_of bdev s i lb =
     (let e = 446 + 16 * i in
      if s ! (e + 4) = 0 then lb\<lparr>parent := None\<rparr>
      else lb\<lparr>parent := Some bdev, lb_flags := (if s ! e \<noteq> 0 then 1 else lb_flags lb), lb_type := s ! (e + 4),
              lba_offset := le32 s (e + 8), lb_num_blocks := le32 s (e + 12), local_id := of_nat i\<rparr>)"

lemma put_bytes_at: "k < length bs \<Longrightarrow> length bs \<le> 2 ^ 32 \<Longrightarrow> put_bytes m p bs (p + of_nat k) = bs ! k"
  by (simp add: put_bytes_nth unat_of_nat32)

lemma le32_put_bytes:
  assumes "k + 4 \<le> length bs" "length bs \<le> 2 ^ 32"
  shows "load32 (put_bytes m p bs) (p + of_nat k) = le32 bs k"
proof -
  have "put_bytes m p bs (p + of_nat k + of_nat j) = bs ! (k + j)" if "j < 4" for j
    using put_bytes_at [of "k + j" bs m p] that assms by (simp add: add.assoc)
  from this [of 0] this [of 1] this [of 2] this [of 3] show ?thesis
    by (simp add: load32_def le32_def)
qed

lemma parse_partition_sector:
  assumes "length s = 512" "i < 4"
  shows "parse_partition bdev (put_bytes m mbr s) mbr i lb = partition_of bdev s i lb"
proof -
  let ?e = "446 + 16 * i"
  have e: "partition_entry mbr i + of_nat k = mbr + of_nat (?e + k)" for k
    by (simp add: partition_entry_def algebra_simps)
  have b: "put_bytes m mbr s (partition_entry mbr i + of_nat k) = s ! (?e + k)" if "k < 16" for k
    unfolding e using that assms by (intro put_bytes_at) simp_all
  have w: "load32 (put_bytes m mbr s) (partition_entry mbr i + of_nat k) = le32 s (?e + k)" if "k + 4 \<le> 16" for k
    unfolding e using that assms by (intro le32_put_bytes) simp_all
  from b [of 0] b [of 4] w [of 8] w [of 12] show ?thesis
    by (simp add: parse_partition_def partition_of_def Let_def LOGICAL_BLOCK_DEVICE_FLAGS_BOOTABLE_def)
qed

context block_store
begin

lemma parse_block_device_table:
  assumes "ok m d" "0 < limit" "limit \<le> 2 ^ 32" "\<And>a. in_region mbr 512 a \<Longrightarrow> \<not> priv a"
  shows "\<exists>d'. parse_block_device lbdevs bdev mbr m d
     = Some (Ret (map (\<lambda>i. partition_of bdev (sector d 0) i (lbdevs ! i)) [0..<4], put_bytes m mbr (sector d 0), d'))
     \<and> ok (put_bytes m mbr (sector d 0)) d' \<and> sector d' = sector d"
proof -
  have one: "sectors d 0 (unat (1 :: u32)) = sector d 0" by (simp add: sectors_def)
  from submit_read_request_sectors [OF assms(1), of 0 1 mbr False] assms(2-4) obtain d' where
    "submit_read_request bdev \<lparr>rq_lba = 0, rq_num_blocks = 1, rq_buffer = mbr, rq_is_write = False\<rparr> m d
      = Some (Ret (put_bytes m mbr (sector d 0), d'))" "ok (put_bytes m mbr (sector d 0)) d'" "sector d' = sector d"
    unfolding one by auto
  moreover have "map (\<lambda>i. parse_partition bdev (put_bytes m mbr (sector d 0)) mbr i (lbdevs ! i)) [0..<4]
      = map (\<lambda>i. partition_of bdev (sector d 0) i (lbdevs ! i)) [0..<4]"
    using sector_size [OF assms(1), of 0] by (intro map_cong refl parse_partition_sector) simp_all
  ultimately show ?thesis by (auto simp: parse_block_device_def)
qed

end

text \<open>
  C27. On a disk behind the IDE driver the parsed devices are exactly the entries of the partition
  table in sector 0 that have a type; the flags of an entry that is not bootable are what the
  stack held before.
\<close>

theorem mbr_partitions:
  assumes "ide_ok io view master p m d" and "disjoint_regions mbr 512 p 4"
  shows "\<exists>m' d'. parse_block_device lbdevs (ide_block_device io name idn blocks p) mbr m d
     = Some (Ret (map (\<lambda>i. partition_of (ide_block_device io name idn blocks p) (ide_sector view master d 0) i (lbdevs ! i)) [0..<4], m', d'))
     \<and> ide_ok io view master p m' d' \<and> ide_sector view master d' = ide_sector view master d"
proof -
  have "\<not> in_region p 4 a" if "in_region mbr 512 a" for a using assms(2) that by (rule disjoint_regionsD)
  from ide.parse_block_device_table [OF assms(1) _ _ this] show ?thesis by fastforce
qed

definition unused_partition :: "ata logical_block_device" where
  "unused_partition = \<lparr>lb_device_id = 0, lb_device_name = replicate 32 0, parent = None, lb_flags = 0,
     lba_offset = 0, lb_num_blocks = 0, lb_type = 0, local_id = 0\<rparr>"

lemma mbr_partitions_witness:
  "\<exists>lbs m' d'. parse_block_device (replicate 4 unused_partition) (ide_block_device demo_drive (replicate 32 0) 0 100 0x2000) 0x4000
       (disk_mem (\<lambda>_. 0)) blank_drive = Some (Ret (lbs, m', d')) \<and> parent (lbs ! 0) = None"
proof -
  have "disjoint_regions 0x4000 512 0x2000 4" by (rule disjoint_regions_nat) simp_all
  moreover have "ide_sector (\<lambda>a. a) True blank_drive 0 ! 450 = 0"
  proof -
    have "concat (map word_bytes (replicate n 0)) = replicate (2 * n) 0" for n
      by (induction n) (simp_all add: word_bytes_def)
    then show ?thesis by (simp only: ide_sector_def blank_drive_def ata.select_convs) simp
  qed
  ultimately show ?thesis
    using mbr_partitions [OF ide_ok_demo, of "0x4000" "replicate 4 unused_partition" "replicate 32 0" 0 100]
    by (auto simp: partition_of_def)
qed

text \<open>Registered partitions keep the order of the table and are numbered from 1 in their names.\<close>

lemma register_partitions_names:
  assumes "register_partitions h lbs reg m = Some (Ret (reg', m'))"
  shows "block_devices reg' = block_devices reg
    \<and> map local_id (logical_block_devices reg') = map local_id (logical_block_devices reg) @ map local_id (filter (\<lambda>lb. parent lb \<noteq> None) lbs)
    \<and> map lba_offset (logical_block_devices reg') = map lba_offset (logical_block_devices reg) @ map lba_offset (filter (\<lambda>lb. parent lb \<noteq> None) lbs)"
  using assms
proof (induction lbs arbitrary: reg m)
  case (Cons lb lbs)
  show ?case
  proof (cases "parent lb")
    case None
    with Cons show ?thesis by auto
  next
    case (Some p)
    from Cons.prems Some obtain q m1 reg1 where
      1: "register_logical_block_device reg lb = Ret reg1" "register_partitions h lbs reg1 m1 = Some (Ret (reg', m'))"
      by (auto simp: rbind_Ret_iff)
    from 1(1) Some have "block_devices reg1 = block_devices reg"
      "map local_id (logical_block_devices reg1) = map local_id (logical_block_devices reg) @ [local_id lb]"
      "map lba_offset (logical_block_devices reg1) = map lba_offset (logical_block_devices reg) @ [lba_offset lb]"
      by (auto simp: register_logical_block_device_def Let_def split: if_splits)
    with Cons.IH [OF 1(2)] Some show ?thesis by simp
  qed
qed simp

end
