(* ===== verification/Kernel_State.thy ===== *)
theory Kernel_State
  imports Mbr Heap_Contract Tty
begin

text \<open>
  What the upper layers of the kernel share. \<open>kstate\<close> is the state they change: the memory, the
  hardware behind the ports, the position \<^verbatim>\<open>strtok\<close> keeps, the terminal, and \<^verbatim>\<open>fs_root\<close>.
  \<open>kenv\<close> is what compiler, linker and boot code fix and no routine changes: the heap, the
  addresses of string literals, of the local arrays of a routine and of the functions whose
  address is taken, the ports, and the logical block device at an address.
\<close>

record 'd kenv =
  heap_of :: heap_allocator
  literal :: "string \<Rightarrow> addr"
  local :: "string \<Rightarrow> addr"
  link :: "string \<Rightarrow> addr"
  ports :: "'d io_ports"
  lbdev_at :: "addr \<Rightarrow> 'd logical_block_device"

record 'd kstate =
  ram :: mem
  hw :: 'd
  olds :: addr
  console :: tty
  fs_root :: addr

text \<open>The library routines on this state.\<close>

definition alloc :: "'d kenv \<Rightarrow> u32 \<Rightarrow> 'd kstate \<Rightarrow> (addr \<times> 'd kstate) run" where
  "alloc env n s = rbind (kmalloc (ram s) (heap_of env) n) (\<lambda>(p, m). Some (Ret (p, s\<lparr>ram := m\<rparr>)))"

definition release :: "addr \<Rightarrow> 'd kstate \<Rightarrow> 'd kstate" where
  "release p s = s\<lparr>ram := kfree (ram s) p\<rparr>"

definition dup_string :: "'d kenv \<Rightarrow> addr \<Rightarrow> 'd kstate \<Rightarrow> (addr \<times> 'd kstate) run" where
  "dup_string env p s = rbind (strdup (ram s) (heap_of env) p) (\<lambda>(q, m). Some (Ret (q, s\<lparr>ram := m\<rparr>)))"

definition next_token :: "addr \<Rightarrow> addr \<Rightarrow> 'd kstate \<Rightarrow> (addr \<times> 'd kstate) run" where
  "next_token p delim s =
     rbind (returning (strtok (ram s) (olds s) p delim)) (\<lambda>(tok, o', m). Some (Ret (tok, s\<lparr>olds := o', ram := m\<rparr>)))"

definition copy_to :: "addr \<Rightarrow> addr \<Rightarrow> 'd kstate \<Rightarrow> 'd kstate run" where
  "copy_to dest src s = rbind (returning (strcpy (ram s) dest src)) (\<lambda>m. Some (Ret (s\<lparr>ram := m\<rparr>)))"

definition append_to :: "addr \<Rightarrow> addr \<Rightarrow> 'd kstate \<Rightarrow> 'd kstate run" where
  "append_to dest src s = rbind (returning (strcat (ram s) dest src)) (\<lambda>m. Some (Ret (s\<lparr>ram := m\<rparr>)))"

definition print :: "'d kenv \<Rightarrow> addr \<Rightarrow> u32 list \<Rightarrow> 'd kstate \<Rightarrow> 'd kstate run" where
  "print env fmt args s =
     rbind (kprintf (console s) (ram s) fmt args (local env ''kprintf.buf''))
       (\<lambda>(t, m). Some (Ret (s\<lparr>console := t, ram := m\<rparr>)))"

end
