(* ===== verification/Fat32.thy ===== *)
theory Fat32
  imports Kernel_State
begin

text \<open>
  \<^verbatim>\<open>kernel/src/fs/fat32.c\<close>: the FAT32 file system on a logical block device. Boot sector,
  directory entries and file nodes lie in memory and are accessed through their field offsets
  (the structures are packed, the node has the layout of \<^verbatim>\<open>fs_node_t\<close>). A chain of clusters in
  a damaged file allocation table may be endless, so the walks are partial functions.
\<close>

section \<open>Structures\<close>

definition ATTR_READ_ONLY :: u8 where "ATTR_READ_ONLY = 0x01"
definition ATTR_HIDDEN :: u8 where "ATTR_HIDDEN = 0x02"
definition ATTR_SYSTEM :: u8 where "ATTR_SYSTEM = 0x04"
definition ATTR_VOLUME_ID :: u8 where "ATTR_VOLUME_ID = 0x08"
definition ATTR_DIRECTORY :: u8 where "ATTR_DIRECTORY = 0x10"
definition ATTR_LONG_NAME :: u8 where
  "ATTR_LONG_NAME = ATTR_READ_ONLY OR ATTR_HIDDEN OR ATTR_SYSTEM OR ATTR_VOLUME_ID"

lemmas attr_defs = ATTR_READ_ONLY_def ATTR_HIDDEN_def ATTR_SYSTEM_def ATTR_VOLUME_ID_def
  ATTR_DIRECTORY_def ATTR_LONG_NAME_def

text \<open>Fields of the boot sector at \<open>bs\<close>.\<close>

definition bytes_per_sector :: "mem \<Rightarrow> addr \<Rightarrow> u16" where "bytes_per_sector m bs = load16 m (bs + 11)"
definition sectors_per_cluster :: "mem \<Rightarrow> addr \<Rightarrow> u8" where "sectors_per_cluster m bs = m (bs + 13)"
definition reserved_sector_count :: "mem \<Rightarrow> addr \<Rightarrow> u16" where "reserved_sector_count m bs = load16 m (bs + 14)"
definition num_FATs :: "mem \<Rightarrow> addr \<Rightarrow> u8" where "num_FATs m bs = m (bs + 16)"
definition root_entry_count :: "mem \<Rightarrow> addr \<Rightarrow> u16" where "root_entry_count m bs = load16 m (bs + 17)"
definition total_sectors_16 :: "mem \<Rightarrow> addr \<Rightarrow> u16" where "total_sectors_16 m bs = load16 m (bs + 19)"
definition media :: "mem \<Rightarrow> addr \<Rightarrow> u8" where "media m bs = m (bs + 21)"
definition FAT_size_16 :: "mem \<Rightarrow> addr \<Rightarrow> u16" where "FAT_size_16 m bs = load16 m (bs + 22)"
definition total_sectors_32 :: "mem \<Rightarrow> addr \<Rightarrow> u32" where "total_sectors_32 m bs = load32 m (bs + 32)"
definition FAT_size_32 :: "mem \<Rightarrow> addr \<Rightarrow> u32" where "FAT_size_32 m bs = load32 m (bs + 36)"
definition filesystem_version :: "mem \<Rightarrow> addr \<Rightarrow> u16" where "filesystem_version m bs = load16 m (bs + 42)"
definition root_cluster :: "mem \<Rightarrow> addr \<Rightarrow> u32" where "root_cluster m bs = load32 m (bs + 44)"
definition backup_boot_sector :: "mem \<Rightarrow> addr \<Rightarrow> u16" where "backup_boot_sector m bs = load16 m (bs + 50)"
definition bpb_reserved :: "mem \<Rightarrow> addr \<Rightarrow> u8" where "bpb_reserved m bs = m (bs + 65)"
definition bpb_signature :: "mem \<Rightarrow> addr \<Rightarrow> u16" where "bpb_signature m bs = load16 m (bs + 510)"

text \<open>The size of a cluster, as the C expression of promoted integers.\<close>

definition bytes_per_cluster :: "mem \<Rightarrow> addr \<Rightarrow> u32" where
  "bytes_per_cluster m bs = ucast (sectors_per_cluster m bs) * ucast (bytes_per_sector m bs)"

text \<open>Fields of the directory entry at \<open>e\<close>.\<close>

definition entry_attr :: "mem \<Rightarrow> addr \<Rightarrow> u8" where "entry_attr m e = m (e + 11)"
definition entry_first_cluster :: "mem \<Rightarrow> addr \<Rightarrow> u32" where
  "entry_first_cluster m e = push_bit 16 (ucast (load16 m (e + 20))) OR ucast (load16 m (e + 26))"

definition sizeof_directory_entry :: u32 where "sizeof_directory_entry = 32"

definition is_long_name :: "mem \<Rightarrow> addr \<Rightarrow> bool" where
  "is_long_name m e \<longleftrightarrow> entry_attr m e AND ATTR_LONG_NAME = ATTR_LONG_NAME"

section \<open>Device accesses\<close>

definition read_fat_device ::
  "'d logical_block_device \<Rightarrow> u32 \<Rightarrow> u32 \<Rightarrow> addr \<Rightarrow> 'd kstate \<Rightarrow> 'd kstate run" where
  "read_fat_device lbdev lba num_blocks buf s =
     (case parent lbdev of
        None \<Rightarrow> Some Fault
      | Some bdev \<Rightarrow>
          rbind (submit_read_request bdev
                  \<lparr>rq_lba = lba + lba_offset lbdev, rq_num_blocks = num_blocks, rq_buffer = buf, rq_is_write = False\<rparr>
                  (ram s) (hw s))
            (\<lambda>(m, d). Some (Ret (s\<lparr>ram := m, hw := d\<rparr>))))"

definition write_fat_device ::
  "'d logical_block_device \<Rightarrow> u32 \<Rightarrow> u32 \<Rightarrow> addr \<Rightarrow> 'd kstate \<Rightarrow> 'd kstate run" where
  "write_fat_device lbdev lba num_blocks buf s =
     (case parent lbdev of
        None \<Rightarrow> Some Fault
      | Some bdev \<Rightarrow>
          rbind (submit_write_request bdev
                  \<lparr>rq_lba = lba + lba_offset lbdev, rq_num_blocks = num_blocks, rq_buffer = buf, rq_is_write = True\<rparr>
                  (ram s) (hw s))
            (\<lambda>(m, d). Some (Ret (s\<lparr>ram := m, hw := d\<rparr>))))"

section \<open>The boot sector\<close>

text \<open>The message of the first check that fails.\<close>

definition boot_sector_error :: "'d kenv \<Rightarrow> mem \<Rightarrow> addr \<Rightarrow> u32 \<Rightarrow> string option" where
  "boot_sector_error env m bs bps =
     (if \<not> (m bs = 0xEB \<and> m (bs + 2) = 0x90) \<and> m bs \<noteq> 0xE9 then Some ''corrupted boot sector: invalid jmp_boot field''
      else if ucast (bytes_per_sector m bs) \<noteq> bps then
        if bytes_per_sector m bs \<in> {512, 1024, 2048, 4096}
        then Some ''corrupted bios parameter block: invalid bytes_per_sector field''
        else Some ''wrong bytes per sector argument specified''
      else if sectors_per_cluster m bs = 0 \<or>
          sectors_per_cluster m bs AND (sectors_per_cluster m bs - 1) \<noteq> 0 then
        Some ''corrupted bios parameter block: sectors_per_cluster must be power of two and non zero''
      else if reserved_sector_count m bs = 0 then
        Some ''corrupted bios parameter block: reserved_sector_count should be a non zero value''
      else if root_entry_count m bs \<noteq> 0 then Some ''corrupted bios parameter block: not a FAT32 variant''
      else if total_sectors_16 m bs \<noteq> 0 then
        Some ''corrupted bios parameter block: total_sectors_16 should be zero on a FAT32 variant''
      else if media m bs \<noteq> 0xF0 \<and> media m bs < 0xF8 then Some ''corrupted bios parameter block: invalid media field''
      else if FAT_size_16 m bs \<noteq> 0 then
        Some ''corrupted bios parameter block: FAT_size_16 should be zero on a FAT32 variant''
      else if total_sectors_32 m bs = 0 then
        Some ''corrupted bios parameter block: total_sectors_32 should be non zero on a FAT32 variant''
      else if total_sectors_32 m bs = 0 \<and> total_sectors_16 m bs = 0 then
        Some ''corrupted bios parameter block: total_sectors_16 and total_sectors_32 or both zero''
      else if filesystem_version m bs \<noteq> 0 then Some ''corrupted bios parameter block: filesystem_version must be zero''
      else if root_cluster m bs < 2 then Some ''corrupted bios parameter block: root_cluster is less then two''
      else if backup_boot_sector m bs \<noteq> 0 \<and> backup_boot_sector m bs \<noteq> 6 then
        Some ''corrupted bios parameter block: backup_boot_sector field must be either zero or six''
      else if bpb_reserved m bs \<noteq> 0 then Some ''corrupted bios parameter block: reserved value is not zero''
      else if strncmp m (bs + 82) (literal env ''FAT32'') 5 \<noteq> 0 then
        Some ''corrupted bios parameter block: invalid filesystem_type field''
      else if bpb_signature m bs \<noteq> 0xAA55 then Some ''corrupted bios parameter block: wrong boot signature''
      else None)"

definition verify_boot_sector :: "'d kenv \<Rightarrow> addr \<Rightarrow> u32 \<Rightarrow> 'd kstate \<Rightarrow> 'd kstate run" where
  "verify_boot_sector env bs bps s =
     (case boot_sector_error env (ram s) bs bps of
        Some msg \<Rightarrow> Some (Panic msg)
      | None \<Rightarrow>
          let OEM_name = local env ''verify_boot_sector.OEM_name'';
              volume_label = local env ''verify_boot_sector.volume_label'';
              (m, _) = strncpy (ram s) OEM_name (bs + 3) 8;
              m = m(OEM_name + 8 := 0);
              (m, _) = strncpy m volume_label (bs + 71) 11;
              m = m(volume_label + 11 := 0)
          in print env (literal env (''boot sector and bios parameter block verified'' @ [CHR 0x0A] @ ''OEM name: %s'' @ [CHR 0x0A]
               @ ''volume label: %s'' @ [CHR 0x0A]))
               [OEM_name, volume_label] (s\<lparr>ram := m\<rparr>))"

definition scan_fat :: "'d kenv \<Rightarrow> u32 \<Rightarrow> 'd logical_block_device \<Rightarrow> 'd kstate \<Rightarrow> (addr \<times> 'd kstate) run" where
  "scan_fat env bps lbdev s =
     rbind (alloc env bps s) (\<lambda>(bs, s).
     rbind (read_fat_device lbdev 0 1 bs s) (\<lambda>s.
     rbind (verify_boot_sector env bs bps s) (\<lambda>s. Some (Ret (bs, s)))))"

section \<open>Short names\<close>

text \<open>
  The loop of \<^verbatim>\<open>fat32_nameext_to_name\<close> at round \<open>i\<close>: the flags are \<open>before\<close> (the name),
  \<open>spaces\<close> (the padding) and \<open>ext\<close>; the result is the memory and the count.
\<close>

function nameext_loop :: "mem \<Rightarrow> addr \<Rightarrow> addr \<Rightarrow> nat \<Rightarrow> u32 \<Rightarrow> bool \<Rightarrow> bool \<Rightarrow> bool \<Rightarrow> mem \<times> u32" where
  "nameext_loop m nameext filename i cnt before spaces ext =
     (if i < 11 then
        let c = m (nameext + of_nat i) in
        if before then
          if c = 0x20 then nameext_loop (m(filename + cnt := 0x2E)) nameext filename (i + 1) (cnt + 1) False True ext
          else if i = 8 then
            let m = m(filename + cnt := 0x2E)
            in nameext_loop (m(filename + (cnt + 1) := m (nameext + of_nat i))) nameext filename (i + 1) (cnt + 2) False True True
          else nameext_loop (m(filename + cnt := c)) nameext filename (i + 1) (cnt + 1) before spaces ext
        else if spaces then
          if c \<noteq> 0x20 then nameext_loop (m(filename + cnt := c)) nameext filename (i + 1) (cnt + 1) before False True
          else nameext_loop m nameext filename (i + 1) cnt before spaces ext
        else if ext then
          if c = 0x20 then (m, cnt)
          else nameext_loop (m(filename + cnt := c)) nameext filename (i + 1) (cnt + 1) before spaces ext
        else nameext_loop m nameext filename (i + 1) cnt before spaces ext
      else (m, cnt))"
  by pat_completeness auto
termination
  by (relation "measure (\<lambda>(m, nameext, filename, i, cnt, before, spaces, ext). 11 - i)") auto

declare nameext_loop.simps [simp del]

definition fat32_nameext_to_name :: "'d kenv \<Rightarrow> addr \<Rightarrow> addr \<Rightarrow> mem \<Rightarrow> (addr \<times> mem) outcome" where
  "fat32_nameext_to_name env nameext filename m =
     (if m nameext = 0x20 then Panic ''invalid nameext in fat32 filesystem''
      else
        let (m, cnt) = nameext_loop m nameext filename 0 0 True False False;
            m = (if strncmp m filename (literal env ''.          '') 11 = 0
                 then m(filename := 0x2E, filename + 1 := 0)
                 else if strncmp m filename (literal env ''..         '') 11 = 0
                 then m(filename := 0x2E, filename + 1 := 0x2E, filename + 2 := 0)
                 else m);
            filename = (if m (filename + (cnt - 1)) = 0x2E then filename - 1 else filename)
        in Ret (filename, m(filename + cnt := 0)))"

section \<open>Clusters\<close>

definition cluster_lba :: "mem \<Rightarrow> addr \<Rightarrow> u32 \<Rightarrow> u32" where
  "cluster_lba m bs cluster_num =
     (let fat_size = (if ucast (FAT_size_16 m bs) = (0 :: u32) then FAT_size_32 m bs else ucast (FAT_size_16 m bs));
          data_start = ucast (reserved_sector_count m bs) + ucast (num_FATs m bs) * fat_size
      in data_start + cluster_num - 2)"

definition read_cluster :: "u32 \<Rightarrow> addr \<Rightarrow> addr \<Rightarrow> 'd logical_block_device \<Rightarrow> 'd kstate \<Rightarrow> 'd kstate run" where
  "read_cluster cluster_num buf bs lbdev s =
     read_fat_device lbdev (cluster_lba (ram s) bs cluster_num) (ucast (sectors_per_cluster (ram s) bs)) buf s"

definition read_fat_entry :: "'d kenv \<Rightarrow> u32 \<Rightarrow> addr \<Rightarrow> 'd logical_block_device \<Rightarrow> 'd kstate \<Rightarrow> (u32 \<times> 'd kstate) run" where
  "read_fat_entry env cluster_num bs lbdev s =
     (let fat_index = cluster_num * 4;
          bps = ucast (bytes_per_sector (ram s) bs) :: u32
      in if bps = 0 then Some Fault
         else
           let lba_offset = fat_index mod bps;
               lba = ucast (reserved_sector_count (ram s) bs) + fat_index - lba_offset
           in rbind (alloc env bps s) (\<lambda>(fat_section, s).
              rbind (read_fat_device lbdev lba 1 fat_section s) (\<lambda>s.
                let fat_entry = ucast (ram s (fat_section + lba_offset)) :: u32
                in Some (Ret (fat_entry, release fat_section s)))))"

section \<open>Directories\<close>

primrec lfn_part :: "mem \<Rightarrow> addr \<Rightarrow> addr \<Rightarrow> nat \<Rightarrow> mem" where
  "lfn_part m dest src 0 = m"
| "lfn_part m dest src (Suc k) =
     (let m = lfn_part m dest src k
      in m(dest + of_nat k := utf16_to_ascii (load16 m (src + 2 * of_nat k))))"

definition lfn_chars :: "mem \<Rightarrow> addr \<Rightarrow> addr \<Rightarrow> mem" where
  "lfn_chars m dest e = lfn_part (lfn_part (lfn_part m dest (e + 1) 5) (dest + 5) (e + 14) 6) (dest + 11) (e + 28) 2"

text \<open>The long name of entry \<open>j\<close> lies in the entries before it.\<close>

fun lfn_loop :: "mem \<Rightarrow> addr \<Rightarrow> addr \<Rightarrow> nat \<Rightarrow> u32 \<Rightarrow> mem \<times> u32" where
  "lfn_loop m direntries filename 0 sz = (m, sz)"
| "lfn_loop m direntries filename (Suc j) sz =
     (if is_long_name m (direntries + 32 * of_nat j)
      then lfn_loop (lfn_chars m (filename + sz) (direntries + 32 * of_nat j)) direntries filename j (sz + 13)
      else (m, sz))"

definition entry_name :: "'d kenv \<Rightarrow> addr \<Rightarrow> nat \<Rightarrow> addr \<Rightarrow> mem \<Rightarrow> mem outcome" where
  "entry_name env direntries i filename m =
     (if i \<ge> 1 \<and> is_long_name m (direntries + 32 * of_nat (i - 1)) then
        let (m, sz) = lfn_loop m direntries filename i 0 in Ret (m(filename + sz := 0))
      else obind (fat32_nameext_to_name env (direntries + 32 * of_nat i) filename m) (\<lambda>(_, m). Ret m))"

definition take_entry :: "'d kenv \<Rightarrow> addr \<Rightarrow> addr \<Rightarrow> 'd kstate \<Rightarrow> (addr \<times> 'd kstate) run" where
  "take_entry env cluster_buf e s =
     rbind (alloc env sizeof_directory_entry s) (\<lambda>(res, s).
       Some (Ret (res, release cluster_buf (s\<lparr>ram := memcpy (ram s) res e sizeof_directory_entry\<rparr>))))"

text \<open>
  One cluster, from entry \<open>i\<close> on with \<open>n\<close> of its 16 entries left: \<open>Some r\<close> when the C function
  returns \<open>r\<close>, \<open>None\<close> to go on with the next cluster.
\<close>

primrec scan_by_name ::
  "'d kenv \<Rightarrow> addr \<Rightarrow> addr \<Rightarrow> nat \<Rightarrow> nat \<Rightarrow> 'd kstate \<Rightarrow> (addr option \<times> 'd kstate) run" where
  "scan_by_name env name cluster_buf i 0 s = Some (Ret (None, s))"
| "scan_by_name env name cluster_buf i (Suc n) s =
     (let e = cluster_buf + 32 * of_nat i; m = ram s in
      if m e = 0x00 then Some (Ret (Some NULL, release cluster_buf s))
      else if m e = 0xE5 \<or> is_long_name m e then scan_by_name env name cluster_buf (i + 1) n s
      else
        let filename = local env ''find_entry_by_name.filename''
        in rbind (Some (entry_name env cluster_buf i filename m)) (\<lambda>m.
           if strncmp m filename name 11 = 0
           then rbind (take_entry env cluster_buf e (s\<lparr>ram := m\<rparr>)) (\<lambda>(res, s). Some (Ret (Some res, s)))
           else scan_by_name env name cluster_buf (i + 1) n (s\<lparr>ram := m\<rparr>)))"

partial_function (option) find_by_name_loop ::
  "'d kenv \<Rightarrow> addr \<Rightarrow> u32 \<Rightarrow> addr \<Rightarrow> addr \<Rightarrow> 'd logical_block_device \<Rightarrow> 'd kstate \<Rightarrow> (addr \<times> 'd kstate) run" where
  "find_by_name_loop env name current_cluster cluster_buf bs lbdev s =
     (if current_cluster < 0x0FFFFFF8 then
        rbind (read_cluster current_cluster cluster_buf bs lbdev s) (\<lambda>s.
        rbind (scan_by_name env name cluster_buf 0 16 s) (\<lambda>(r, s).
          case r of
            Some res \<Rightarrow> Some (Ret (res, s))
          | None \<Rightarrow> rbind (read_fat_entry env current_cluster bs lbdev s) (\<lambda>(next_cluster, s).
                      find_by_name_loop env name next_cluster cluster_buf bs lbdev s)))
      else Some (Ret (NULL, release cluster_buf s)))"

definition find_entry_by_name ::
  "'d kenv \<Rightarrow> addr \<Rightarrow> u32 \<Rightarrow> addr \<Rightarrow> 'd logical_block_device \<Rightarrow> 'd kstate \<Rightarrow> (addr \<times> 'd kstate) run" where
  "find_entry_by_name env name directory_cluster_num bs lbdev s =
     rbind (alloc env (bytes_per_cluster (ram s) bs) s) (\<lambda>(cluster_buf, s).
       find_by_name_loop env name directory_cluster_num cluster_buf bs lbdev s)"

text \<open>The same walk counting entries; \<open>index\<close> grows past the entries that are not listed.\<close>

primrec scan_by_index ::
  "'d kenv \<Rightarrow> u32 \<Rightarrow> u32 \<Rightarrow> addr \<Rightarrow> addr \<Rightarrow> nat \<Rightarrow> nat \<Rightarrow> 'd kstate \<Rightarrow> ((addr option \<times> u32) \<times> 'd kstate) run" where
  "scan_by_index env index j filename cluster_buf i 0 s = Some (Ret ((None, index), s))"
| "scan_by_index env index j filename cluster_buf i (Suc n) s =
     (let e = cluster_buf + 32 * of_nat i; m = ram s in
      if m e = 0x00 then Some (Ret ((Some NULL, index), release cluster_buf s))
      else if m e = 0xE5 \<or> is_long_name m e then scan_by_index env (index + 1) j filename cluster_buf (i + 1) n s
      else if index = j + of_nat i then
        rbind (Some (entry_name env cluster_buf i filename m)) (\<lambda>m.
        rbind (take_entry env cluster_buf e (s\<lparr>ram := m\<rparr>)) (\<lambda>(res, s). Some (Ret ((Some res, index), s))))
      else scan_by_index env index j filename cluster_buf (i + 1) n s)"

partial_function (option) find_by_index_loop ::
  "'d kenv \<Rightarrow> u32 \<Rightarrow> u32 \<Rightarrow> addr \<Rightarrow> u32 \<Rightarrow> addr \<Rightarrow> addr \<Rightarrow> 'd logical_block_device \<Rightarrow> 'd kstate \<Rightarrow> (addr \<times> 'd kstate) run" where
  "find_by_index_loop env index j filename current_cluster cluster_buf bs lbdev s =
     (if current_cluster < 0x0FFFFFF8 then
        rbind (read_cluster current_cluster cluster_buf bs lbdev s) (\<lambda>s.
        rbind (scan_by_index env index j filename cluster_buf 0 16 s) (\<lambda>((r, index), s).
          case r of
            Some res \<Rightarrow> Some (Ret (res, s))
          | None \<Rightarrow> rbind (read_fat_entry env current_cluster bs lbdev s) (\<lambda>(next_cluster, s).
                      find_by_index_loop env index (j + 16) filename next_cluster cluster_buf bs lbdev s)))
      else Some (Ret (NULL, release cluster_buf s)))"

definition find_entry_by_index ::
  "'d kenv \<Rightarrow> u32 \<Rightarrow> u32 \<Rightarrow> addr \<Rightarrow> addr \<Rightarrow> 'd logical_block_device \<Rightarrow> 'd kstate \<Rightarrow> (addr \<times> 'd kstate) run" where
  "find_entry_by_index env index directory_cluster_num filename bs lbdev s =
     rbind (alloc env (bytes_per_cluster (ram s) bs) s) (\<lambda>(cluster_buf, s).
       find_by_index_loop env index 0 filename directory_cluster_num cluster_buf bs lbdev s)"

section \<open>Paths\<close>

text \<open>The value 1 stands for the root directory, \<open>NULL\<close> for a path that does not exist.\<close>

partial_function (option) path_loop ::
  "'d kenv \<Rightarrow> addr \<Rightarrow> addr \<Rightarrow> addr \<Rightarrow> u32 \<Rightarrow> addr \<Rightarrow> 'd logical_block_device \<Rightarrow> 'd kstate \<Rightarrow> (addr \<times> 'd kstate) run" where
  "path_loop env path_cpy pch direntry current_cluster bs lbdev s =
     (if pch \<noteq> NULL then
        rbind (find_entry_by_name env pch current_cluster bs lbdev s) (\<lambda>(direntry, s).
          if direntry = NULL then Some (Ret (NULL, release path_cpy s))
          else
            let current_cluster = entry_first_cluster (ram s) direntry
            in rbind (next_token NULL (literal env ''/'') s) (\<lambda>(pch, s).
               path_loop env path_cpy pch direntry current_cluster bs lbdev
                 (if pch \<noteq> NULL then release direntry s else s)))
      else Some (Ret (direntry, release path_cpy s)))"

definition direntry_from_path ::
  "'d kenv \<Rightarrow> addr \<Rightarrow> addr \<Rightarrow> 'd logical_block_device \<Rightarrow> 'd kstate \<Rightarrow> (addr \<times> 'd kstate) run" where
  "direntry_from_path env path bs lbdev s =
     rbind (dup_string env path s) (\<lambda>(path_cpy, s).
     rbind (next_token path_cpy (literal env ''/'') s) (\<lambda>(pch, s).
       path_loop env path_cpy pch 1 (root_cluster (ram s) bs) bs lbdev s))"

definition first_cluster_from_path ::
  "'d kenv \<Rightarrow> addr \<Rightarrow> addr \<Rightarrow> 'd logical_block_device \<Rightarrow> 'd kstate \<Rightarrow> (u32 \<times> 'd kstate) run" where
  "first_cluster_from_path env path bs lbdev s =
     rbind (returning (strcmp (ram s) path (literal env ''/''))) (\<lambda>r.
       if r = 0 then Some (Ret (root_cluster (ram s) bs, s))
       else rbind (direntry_from_path env path bs lbdev s) (\<lambda>(direntry, s).
         if direntry = NULL then Some (Ret (-1, s)) else Some (Ret (entry_first_cluster (ram s) direntry, s))))"

section \<open>Reading a file\<close>

text \<open>Fields of the node at \<open>node\<close>; its path is at offset 0.\<close>

definition node_filesize :: "mem \<Rightarrow> addr \<Rightarrow> u32" where "node_filesize m node = load32 m (node + 128)"
definition node_mask :: "mem \<Rightarrow> addr \<Rightarrow> u32" where "node_mask m node = load32 m (node + 132)"
definition node_flags :: "mem \<Rightarrow> addr \<Rightarrow> u32" where "node_flags m node = load32 m (node + 148)"
definition node_read :: "mem \<Rightarrow> addr \<Rightarrow> addr" where "node_read m node = load32 m (node + 152)"
definition node_write :: "mem \<Rightarrow> addr \<Rightarrow> addr" where "node_write m node = load32 m (node + 156)"
definition node_open :: "mem \<Rightarrow> addr \<Rightarrow> addr" where "node_open m node = load32 m (node + 160)"
definition node_close :: "mem \<Rightarrow> addr \<Rightarrow> addr" where "node_close m node = load32 m (node + 164)"
definition node_readdir :: "mem \<Rightarrow> addr \<Rightarrow> addr" where "node_readdir m node = load32 m (node + 168)"
definition node_finddir :: "mem \<Rightarrow> addr \<Rightarrow> addr" where "node_finddir m node = load32 m (node + 172)"
definition node_lbdev :: "mem \<Rightarrow> addr \<Rightarrow> addr" where "node_lbdev m node = load32 m (node + 176)"
definition node_private :: "mem \<Rightarrow> addr \<Rightarrow> addr" where "node_private m node = load32 m (node + 180)"

definition sizeof_fs_node :: u32 where "sizeof_fs_node = 184"

definition FS_FILE :: u32 where "FS_FILE = 0x01"
definition FS_DIRECTORY :: u32 where "FS_DIRECTORY = 0x02"
definition MASK_EXECUTE :: u32 where "MASK_EXECUTE = 2"
definition MASK_READ :: u32 where "MASK_READ = 4"
definition MASK_WRITE :: u32 where "MASK_WRITE = 8"
definition MASK_HIDDEN :: u32 where "MASK_HIDDEN = 16"
definition MASK_SYSTEM :: u32 where "MASK_SYSTEM = 32"

text \<open>
  One round of the loop of \<^verbatim>\<open>read_fat32\<close>, up to the step to the next cluster: \<open>None\<close> when the function
  returns, \<open>Some buffer_index\<close> when it goes on.
\<close>

definition read_file_step ::
  "addr \<Rightarrow> 'd logical_block_device \<Rightarrow> u32 \<Rightarrow> addr \<Rightarrow> u32 \<Rightarrow> u32 \<Rightarrow> addr \<Rightarrow> u32 \<Rightarrow> u32 \<Rightarrow> u32 \<Rightarrow> 'd kstate \<Rightarrow>
   (u32 option \<times> 'd kstate) run" where
  "read_file_step bs lbdev bpc cluster_buf offset sz buffer current_cluster current_cluster_num buffer_index s =
     (let byte_offset = current_cluster_num * bpc in
      if offset \<ge> byte_offset \<and> offset < byte_offset + bpc then
        rbind (read_cluster current_cluster cluster_buf bs lbdev s) (\<lambda>s.
          let cluster_offset = offset - byte_offset;
              cpy_size = (if sz > bpc - cluster_offset then bpc - cluster_offset else sz);
              s = s\<lparr>ram := memcpy (ram s) (buffer + buffer_index) (cluster_buf + cluster_offset) cpy_size\<rparr>;
              buffer_index = buffer_index + cpy_size
          in if buffer_index = sz then Some (Ret (None, release cluster_buf s)) else Some (Ret (Some buffer_index, s)))
      else if offset < byte_offset \<and> offset + sz \<ge> byte_offset + bpc then
        rbind (read_cluster current_cluster cluster_buf bs lbdev s) (\<lambda>s.
          Some (Ret (Some (buffer_index + bpc), s\<lparr>ram := memcpy (ram s) (buffer + buffer_index) cluster_buf bpc\<rparr>)))
      else if offset + sz \<ge> byte_offset \<and> offset + sz < byte_offset + bpc then
        rbind (read_cluster current_cluster cluster_buf bs lbdev s) (\<lambda>s.
          Some (Ret (None, release cluster_buf
            (s\<lparr>ram := memcpy (ram s) (buffer + buffer_index) cluster_buf (sz - buffer_index)\<rparr>))))
      else Some (Ret (Some buffer_index, s)))"

partial_function (option) read_file_loop ::
  "'d kenv \<Rightarrow> addr \<Rightarrow> 'd logical_block_device \<Rightarrow> u32 \<Rightarrow> addr \<Rightarrow> u32 \<Rightarrow> u32 \<Rightarrow> addr \<Rightarrow> u32 \<Rightarrow> u32 \<Rightarrow> u32 \<Rightarrow> 'd kstate \<Rightarrow> 'd kstate run" where
  "read_file_loop env bs lbdev bpc cluster_buf offset sz buffer current_cluster current_cluster_num buffer_index s =
     (if current_cluster < 0x0FFFFFF8 then
        rbind (read_file_step bs lbdev bpc cluster_buf offset sz buffer current_cluster current_cluster_num buffer_index s)
          (\<lambda>(r, s). case r of
             None \<Rightarrow> Some (Ret s)
           | Some buffer_index \<Rightarrow>
               rbind (read_fat_entry env current_cluster bs lbdev s) (\<lambda>(next_cluster, s).
                 read_file_loop env bs lbdev bpc cluster_buf offset sz buffer next_cluster (current_cluster_num + 1) buffer_index s))
      else Some (Ret (release cluster_buf s)))"

definition read_fat32 :: "'d kenv \<Rightarrow> addr \<Rightarrow> u32 \<Rightarrow> u32 \<Rightarrow> addr \<Rightarrow> 'd kstate \<Rightarrow> (u32 \<times> 'd kstate) run" where
  "read_fat32 env node offset sz buffer s =
     (let bs = node_private (ram s) node; lbdev = lbdev_at env (node_lbdev (ram s) node)
      in rbind (first_cluster_from_path env node bs lbdev s) (\<lambda>(current_cluster, s).
         let bpc = bytes_per_cluster (ram s) bs
         in rbind (alloc env bpc s) (\<lambda>(cluster_buf, s).
            rbind (read_file_loop env bs lbdev bpc cluster_buf offset sz buffer current_cluster 0 0 s)
              (\<lambda>s. Some (Ret (0, s))))))"

definition write_fat32 :: "addr \<Rightarrow> u32 \<Rightarrow> u32 \<Rightarrow> addr \<Rightarrow> 'd kstate \<Rightarrow> (u32 \<times> 'd kstate) run" where
  "write_fat32 node offset sz buffer s = Some (Ret (0, s))"

section \<open>Nodes\<close>

text \<open>
  The assignments shared by \<^verbatim>\<open>open_fat32\<close> and \<^verbatim>\<open>finddir_fat32\<close>: the function pointers and device of a
  node, and the fields taken from the directory entry at \<open>direntry\<close>.
\<close>

definition node_functions :: "'d kenv \<Rightarrow> addr \<Rightarrow> bool \<Rightarrow> addr \<Rightarrow> addr \<Rightarrow> mem \<Rightarrow> mem" where
  "node_functions env node is_dir lbdev bs m =
     (let m = (if is_dir
               then store32 (store32 m (node + 168) (link env ''readdir_fat32'')) (node + 172) (link env ''finddir_fat32'')
               else store32 (store32 m (node + 152) (link env ''read_fat32'')) (node + 156) (link env ''write_fat32''));
          m = store32 m (node + 160) (link env ''open_fat32'');
          m = store32 m (node + 164) (link env ''close_fat32'');
          m = store32 m (node + 176) lbdev
      in store32 m (node + 180) bs)"

definition entry_mask :: "u8 \<Rightarrow> u32" where
  "entry_mask attr = MASK_READ OR (if attr AND ATTR_READ_ONLY = 0 then MASK_WRITE else 0)
     OR (if attr AND ATTR_HIDDEN \<noteq> 0 then MASK_HIDDEN else 0) OR (if attr AND ATTR_SYSTEM \<noteq> 0 then MASK_SYSTEM else 0)"

definition node_attributes :: "addr \<Rightarrow> bool \<Rightarrow> addr \<Rightarrow> mem \<Rightarrow> mem" where
  "node_attributes node is_dir direntry m =
     (let m = store16 m (node + 136) (load16 m (direntry + 14));
          m = store16 m (node + 138) (load16 m (direntry + 16));
          m = store16 m (node + 140) (load16 m (direntry + 22));
          m = store16 m (node + 142) (load16 m (direntry + 24));
          m = store16 m (node + 144) (load16 m (direntry + 18));
          m = store32 m (node + 132) (entry_mask (entry_attr m direntry))
      in if is_dir then store32 m (node + 148) (node_flags m node OR FS_DIRECTORY)
         else let m = store32 m (node + 148) (node_flags m node OR FS_FILE);
                  m = store32 m (node + 128) (load32 m (direntry + 28))
              in store32 m (node + 132) (node_mask m node OR MASK_EXECUTE))"

definition new_node :: "'d kenv \<Rightarrow> addr \<Rightarrow> 'd kstate \<Rightarrow> (addr \<times> 'd kstate) run" where
  "new_node env path s =
     rbind (alloc env sizeof_fs_node s) (\<lambda>(node, s).
     rbind (copy_to node path (s\<lparr>ram := memset (ram s) node 0 sizeof_fs_node\<rparr>)) (\<lambda>s. Some (Ret (node, s))))"

definition open_fat32 :: "'d kenv \<Rightarrow> addr \<Rightarrow> 'd kstate \<Rightarrow> (addr \<times> 'd kstate) run" where
  "open_fat32 env path s =
     (let root = fs_root s in
      rbind (direntry_from_path env path (node_private (ram s) root) (lbdev_at env (node_lbdev (ram s) root)) s)
        (\<lambda>(direntry, s).
          if direntry = 0 then Some (Ret (NULL, s))
          else if direntry = 1 then Some (Ret (root, s))
          else
            let is_dir = (entry_attr (ram s) direntry AND ATTR_DIRECTORY = ATTR_DIRECTORY)
            in rbind (new_node env path s) (\<lambda>(node, s).
               let m = node_functions env node is_dir (node_lbdev (ram s) root) (node_private (ram s) root) (ram s);
                   m = node_attributes node is_dir direntry m
               in Some (Ret (node, s\<lparr>ram := m\<rparr>)))))"

definition close_fat32 :: "addr \<Rightarrow> 'd kstate \<Rightarrow> 'd kstate" where
  "close_fat32 node s = (if node \<noteq> fs_root s then release node s else s)"

text \<open>The static \<^verbatim>\<open>dirent_fat32\<close> is 128 bytes at its linked address.\<close>

definition readdir_fat32 :: "'d kenv \<Rightarrow> addr \<Rightarrow> u32 \<Rightarrow> 'd kstate \<Rightarrow> (addr \<times> 'd kstate) run" where
  "readdir_fat32 env node index s =
     (let bs = node_private (ram s) node; lbdev = lbdev_at env (node_lbdev (ram s) node);
          dirent = link env ''dirent_fat32''; filename = local env ''readdir_fat32.filename''
      in rbind (first_cluster_from_path env node bs lbdev s) (\<lambda>(cluster, s).
         if cluster = -1 then Some (Ret (NULL, s))
         else rbind (find_entry_by_index env index cluster filename bs lbdev s) (\<lambda>(direntry, s).
           if direntry = NULL then Some (Ret (NULL, s))
           else let s = release direntry s
                in rbind (copy_to dirent filename (s\<lparr>ram := memset (ram s) dirent 0 128\<rparr>)) (\<lambda>s.
                   Some (Ret (dirent, s))))))"

definition finddir_fat32 :: "'d kenv \<Rightarrow> addr \<Rightarrow> addr \<Rightarrow> 'd kstate \<Rightarrow> (addr \<times> 'd kstate) run" where
  "finddir_fat32 env node name s =
     (let bs = node_private (ram s) node; lbdev = node_lbdev (ram s) node;
          full_path = local env ''finddir_fat32.full_path''
      in rbind (copy_to full_path node s) (\<lambda>s.
         rbind (returning (strlen (ram s) full_path)) (\<lambda>len.
         rbind (if ram s (full_path + (len - 1)) \<noteq> 0x2F then append_to full_path (literal env ''/'') s else Some (Ret s)) (\<lambda>s.
         rbind (append_to full_path name s) (\<lambda>s.
         rbind (direntry_from_path env full_path bs (lbdev_at env lbdev) s) (\<lambda>(direntry, s).
           if direntry = NULL then Some (Ret (NULL, s))
           else
             let is_dir = (direntry = 1 \<or> entry_attr (ram s) direntry AND ATTR_DIRECTORY \<noteq> 0)
             in rbind (new_node env full_path s) (\<lambda>(fs_node, s).
                let m = node_functions env fs_node is_dir lbdev bs (ram s);
                    m = node_attributes fs_node is_dir direntry m
                in Some (Ret (fs_node, s\<lparr>ram := m\<rparr>))))))))) "

definition initialise_fat32 :: "'d kenv \<Rightarrow> addr \<Rightarrow> 'd kstate \<Rightarrow> (addr \<times> 'd kstate) run" where
  "initialise_fat32 env lbdev s =
     rbind (new_node env (literal env ''/'') s) (\<lambda>(root_node, s).
       let m = store32 (ram s) (root_node + 148) FS_DIRECTORY;
           m = store32 m (root_node + 168) (link env ''readdir_fat32'');
           m = store32 m (root_node + 172) (link env ''finddir_fat32'');
           m = store32 m (root_node + 160) (link env ''open_fat32'');
           m = store32 m (root_node + 164) (link env ''close_fat32'');
           m = store32 m (root_node + 176) lbdev
       in case parent (lbdev_at env lbdev) of
            None \<Rightarrow> Some Fault
          | Some bdev \<Rightarrow>
              rbind (scan_fat env (block_size bdev) (lbdev_at env lbdev) (s\<lparr>ram := m\<rparr>)) (\<lambda>(bs, s).
                Some (Ret (root_node, s\<lparr>ram := store32 (ram s) (root_node + 180) bs\<rparr>))))"

definition free_fat :: "'d kstate \<Rightarrow> 'd kstate" where
  "free_fat s = release (fs_root s) (release (node_private (ram s) (fs_root s)) s)"

section \<open>Short names are NAME.EXT\<close>

text \<open>The bytes the loop appends, as a function of the bytes it reads.\<close>

fun nameext_bytes :: "nat \<Rightarrow> u8 list \<Rightarrow> bool \<Rightarrow> bool \<Rightarrow> bool \<Rightarrow> u8 list" where
  "nameext_bytes i [] before spaces ext = []"
| "nameext_bytes i (c # cs) before spaces ext =
     (if before then
        if c = 0x20 then 0x2E # nameext_bytes (i + 1) cs False True ext
        else if i = 8 then 0x2E # c # nameext_bytes (i + 1) cs False True True
        else c # nameext_bytes (i + 1) cs before spaces ext
      else if spaces then
        if c \<noteq> 0x20 then c # nameext_bytes (i + 1) cs before False True
        else nameext_bytes (i + 1) cs before spaces ext
      else if ext then
        if c = 0x20 then [] else c # nameext_bytes (i + 1) cs before spaces ext
      else nameext_bytes (i + 1) cs before spaces ext)"

lemma put_bytes_frame: "(\<And>i. i < length bs \<Longrightarrow> a \<noteq> p + of_nat i) \<Longrightarrow> put_bytes m p bs a = m a"
proof (induction bs arbitrary: m p)
  case (Cons b bs)
  have "put_bytes (m(p := b)) (p + 1) bs a = (m(p := b)) a"
  proof (rule Cons.IH)
    fix i assume "i < length bs"
    then show "a \<noteq> p + 1 + of_nat i" using Cons.prems [of "Suc i"] by (simp add: add.assoc)
  qed
  with Cons.prems [of 0] show ?case by simp
qed simp

text \<open>One round of the loop: the bytes it appends and the flags after it, or that it stops.\<close>

fun nameext_step :: "nat \<Rightarrow> u8 \<Rightarrow> bool \<Rightarrow> bool \<Rightarrow> bool \<Rightarrow> (u8 list \<times> bool \<times> bool \<times> bool) option" where
  "nameext_step i c before spaces ext =
     (if before then
        Some (if c = 0x20 then ([0x2E], False, True, ext) else if i = 8 then ([0x2E, c], False, True, True) else ([c], before, spaces, ext))
      else if spaces then Some (if c \<noteq> 0x20 then ([c], before, False, True) else ([], before, spaces, ext))
      else if ext then (if c = 0x20 then None else Some ([c], before, spaces, ext))
      else Some ([], before, spaces, ext))"

lemma nameext_bytes_step:
  "nameext_bytes i (c # cs) before spaces ext = (case nameext_step i c before spaces ext of None \<Rightarrow> []
     | Some (new, b, s, e) \<Rightarrow> new @ nameext_bytes (i + 1) cs b s e)"
  by simp

lemma nameext_loop_step:
  assumes "i < 11" "nameext + of_nat i \<noteq> filename + cnt"
  shows "nameext_loop m nameext filename i cnt before spaces ext =
    (case nameext_step i (m (nameext + of_nat i)) before spaces ext of None \<Rightarrow> (m, cnt)
     | Some (new, b, s, e) \<Rightarrow>
         nameext_loop (put_bytes m (filename + cnt) new) nameext filename (i + 1) (cnt + of_nat (length new)) b s e)"
  using assms by (cases "i = 8"; simp add: nameext_loop.simps [of m] Let_def add.assoc)

lemma nameext_step_length:
  "nameext_step i c before spaces ext = Some (new, b, s, e) \<Longrightarrow> length new + (if before then 0 else 1) \<le> (if b then 1 else 2)"
  by (auto split: if_splits)

lemma nameext_loop_bytes:
  assumes apart: "\<forall>k < 11. \<forall>j < 16. nameext + of_nat k \<noteq> filename + of_nat (j :: nat)"
  shows "i \<le> 11 \<Longrightarrow> map (\<lambda>k. m (nameext + of_nat k)) [i..<11] = cs \<Longrightarrow> cnt = of_nat n \<Longrightarrow> n \<le> i + (if before then 0 else 1) \<Longrightarrow>
    nameext_loop m nameext filename i cnt before spaces ext =
      (put_bytes m (filename + cnt) (nameext_bytes i cs before spaces ext), cnt + of_nat (length (nameext_bytes i cs before spaces ext)))"
proof (induction "11 - i" arbitrary: i m cs cnt n before spaces ext)
  case 0
  then show ?case by (simp add: nameext_loop.simps)
next
  case (Suc l)
  then have i: "i < 11" by simp
  let ?c = "m (nameext + of_nat i)" and ?cs = "map (\<lambda>k. m (nameext + of_nat k)) [i + 1..<11]"
  have cs: "cs = ?c # ?cs" using Suc.prems(2) i by (simp add: upt_conv_Cons)
  have n: "n < 14" using Suc.prems(4) i by (auto split: if_splits)
  have ci: "nameext + of_nat i \<noteq> filename + cnt" using apart i n Suc.prems(3) by simp
  show ?case
  proof (cases "nameext_step i ?c before spaces ext")
    case None
    then show ?thesis unfolding nameext_loop_step [OF i ci] cs nameext_bytes_step by simp
  next
    case (Some r)
    then obtain new b s e where r: "nameext_step i ?c before spaces ext = Some (new, b, s, e)" by (cases r) auto
    let ?m = "put_bytes m (filename + cnt) new"
    note len = nameext_step_length [OF r]
    have "n + length new < 16" using len n by (auto split: if_splits)
    then have keep: "map (\<lambda>k. ?m (nameext + of_nat k)) [i + 1..<11] = ?cs"
      using apart Suc.prems(3) by (intro map_cong refl put_bytes_frame) (simp add: add.assoc flip: of_nat_add)
    have "n + length new \<le> i + 1 + (if b then 0 else 1)" using len Suc.prems(4) by (auto split: if_splits)
    from Suc.hyps(1) [OF _ _ keep _ this, of "cnt + of_nat (length new)" s e] Suc.hyps(2) Suc.prems(3) i
    show ?thesis unfolding nameext_loop_step [OF i ci] cs nameext_bytes_step r
      by (simp add: put_bytes_append add.assoc)
  qed
qed

lemma nameext_bytes_base:
  "0x20 \<notin> set bs \<Longrightarrow> i + length bs \<le> 8 \<Longrightarrow>
   nameext_bytes i (bs @ rest) True s e = bs @ nameext_bytes (i + length bs) rest True s e"
  by (induction bs arbitrary: i) auto

lemma nameext_bytes_pad: "nameext_bytes i (replicate k 0x20 @ rest) False True e = nameext_bytes (i + k) rest False True e"
  by (induction k arbitrary: i) auto

lemma nameext_bytes_ext:
  "0x20 \<notin> set es \<Longrightarrow> nameext_bytes i (es @ replicate k 0x20) False False True = es"
  by (induction es arbitrary: i) (auto simp: gr0_conv_Suc, metis nameext_bytes.simps(1) nameext_bytes.simps(2) not0_implies_Suc replicate_Suc replicate_0)

lemma nameext_bytes_after:
  "0x20 \<notin> set es \<Longrightarrow> nameext_bytes i (replicate k 0x20 @ es @ replicate j 0x20) False True e = es"
proof (cases es)
  case Nil
  then show ?thesis using nameext_bytes_pad [of i k "replicate j 0x20" e] nameext_bytes_pad [of "i + k" j "[]" e] by simp
next
  case (Cons c cs)
  assume "0x20 \<notin> set es"
  then show ?thesis using nameext_bytes_ext [of cs] by (simp add: nameext_bytes_pad Cons)
qed

lemma nameext_bytes_name:
  assumes "bs \<noteq> []" "length bs \<le> 8" "length es \<le> 3" "0x20 \<notin> set bs" "0x20 \<notin> set es"
  shows "nameext_bytes 0 (bs @ replicate (8 - length bs) 0x20 @ es @ replicate (3 - length es) 0x20) True False False = bs @ 0x2E # es"
proof (cases "length bs = 8")
  case False
  with assms(2) obtain k where k: "8 - length bs = Suc k" by (cases "8 - length bs") auto
  have "nameext_bytes 0 (bs @ replicate (8 - length bs) 0x20 @ es @ replicate (3 - length es) 0x20) True False False
      = bs @ nameext_bytes (length bs) (replicate (Suc k) 0x20 @ es @ replicate (3 - length es) 0x20) True False False"
    using assms nameext_bytes_base [of bs 0] by (simp add: k)
  also have "\<dots> = bs @ 0x2E # es" using nameext_bytes_after [OF assms(5)] by simp
  finally show ?thesis .
next
  case True
  have base: "nameext_bytes 0 (bs @ rest) True False False = bs @ nameext_bytes 8 rest True False False" for rest
    using nameext_bytes_base [of bs 0 rest] assms True by simp
  show ?thesis
  proof (cases es)
    case Nil
    have "nameext_bytes 8 (replicate 3 0x20) True False False = [0x2E]" by (simp add: eval_nat_numeral)
    with base True Nil show ?thesis by simp
  next
    case (Cons c cs)
    have "0x20 \<notin> set cs" "c \<noteq> 0x20" using assms(5) Cons by auto
    then have "nameext_bytes 8 (es @ replicate (3 - length es) 0x20) True False False = 0x2E # c # cs"
      using nameext_bytes_after [of cs 9 0 "3 - length es" True] Cons by simp
    with base True Cons show ?thesis by simp
  qed
qed

lemma strncmp_first: "m s1 \<noteq> m s2 \<Longrightarrow> n \<noteq> 0 \<Longrightarrow> strncmp m s1 s2 n \<noteq> 0"
  by (simp add: strncmp_def strncmp_loop.simps [of m s1] word_uint_eq_iff)

lemma cstr_takeWhile:
  "(\<And>i. i < length xs \<Longrightarrow> m (p + of_nat i) = xs ! i) \<Longrightarrow> m (p + of_nat (length xs)) = 0 \<Longrightarrow> cstr m p (takeWhile (\<lambda>b. b \<noteq> 0) xs)"
proof (induction xs arbitrary: p)
  case (Cons x xs)
  have "m p = x" using Cons.prems(1) [of 0] by simp
  moreover have "cstr m (p + 1) (takeWhile (\<lambda>b. b \<noteq> 0) xs)"
    using Cons.prems(1) [of "Suc _"] Cons.prems(2) by (intro Cons.IH) (simp_all add: add.assoc)
  ultimately show ?case by simp
qed simp

text \<open>What the loop writes: no spaces, at least two and at most twelve bytes, the first as it was.\<close>

lemma nameext_bytes_space: "0x20 \<notin> set (nameext_bytes i cs before spaces ext)"
  by (induction cs arbitrary: i before spaces ext) auto

lemma nameext_bytes_length:
  "length (nameext_bytes i cs False spaces ext) \<le> length cs" "length (nameext_bytes i cs True spaces ext) \<le> Suc (length cs)"
proof -
  show after: "length (nameext_bytes i cs False spaces ext) \<le> length cs" for i cs spaces ext
    by (induction cs arbitrary: i spaces ext) (auto intro: le_SucI)
  show "length (nameext_bytes i cs True spaces ext) \<le> Suc (length cs)"
    by (induction cs arbitrary: i spaces ext) (auto simp: after le_SucI)
qed

lemma nameext_bytes_dot: "i \<le> 8 \<Longrightarrow> 8 < i + length cs \<Longrightarrow> nameext_bytes i cs True spaces ext \<noteq> []"
  by (cases cs) auto

lemma nameext_bytes_start:
  assumes "length cs = 11" "hd cs \<noteq> 0x20"
  shows "hd (nameext_bytes 0 cs True False False) = hd cs" "2 \<le> length (nameext_bytes 0 cs True False False)"
    "length (nameext_bytes 0 cs True False False) \<le> 12"
proof -
  obtain c cs' where c: "cs = c # cs'" using assms(1) by (cases cs) auto
  then have o: "nameext_bytes 0 cs True False False = c # nameext_bytes 1 cs' True False False" using assms(2) by simp
  then show "hd (nameext_bytes 0 cs True False False) = hd cs" by (simp add: c)
  have "nameext_bytes 1 cs' True False False \<noteq> []" using assms(1) c by (intro nameext_bytes_dot) auto
  then show "2 \<le> length (nameext_bytes 0 cs True False False)" by (simp add: o Suc_le_eq)
  show "length (nameext_bytes 0 cs True False False) \<le> 12" using nameext_bytes_length(2) [of 0 cs False False] assms(1) by simp
qed

lemma nameext_loop_writes:
  assumes "disjoint_regions nameext 11 filename 16"
  shows "nameext_loop m nameext filename 0 0 True False False =
    (put_bytes m filename (nameext_bytes 0 (bytes_at m nameext 11) True False False),
     of_nat (length (nameext_bytes 0 (bytes_at m nameext 11) True False False)))"
proof -
  have sep: "\<forall>k < 11. \<forall>j < 16. nameext + of_nat k \<noteq> filename + of_nat (j :: nat)"
  proof (intro allI impI notI)
    fix k j :: nat assume kj: "k < 11" "j < 16" and eq: "nameext + of_nat k = filename + of_nat j"
    have "in_region nameext 11 (nameext + of_nat k)" using kj by (simp add: in_region_offset)
    moreover have "in_region filename 16 (filename + of_nat j)" using kj by (simp add: in_region_offset)
    ultimately show False using assms eq by (auto simp: disjoint_regions_def)
  qed
  have "bytes_at m nameext 11 = map (\<lambda>k. m (nameext + of_nat k)) [0..<11]" by (simp add: bytes_at_def)
  then show ?thesis using nameext_loop_bytes [OF sep, where i = 0 and n = 0 and cnt = 0 and before = True] by simp
qed

text \<open>The name without its dot when there is no extension; a NUL in the name ends it.\<close>

definition trim_name :: "u8 list \<Rightarrow> u8 list" where
  "trim_name out = takeWhile (\<lambda>b. b \<noteq> 0) (if last out = 0x2E then butlast out else out)"

lemma trim_name_written:
  fixes fn :: addr
  assumes "\<And>i. i < length out \<Longrightarrow> m (filename + of_nat i) = out ! i" "out \<noteq> []" "length out \<le> 12"
    and "fn = (if last out = 0x2E then filename - 1 else filename)"
  shows "cstr (m(fn + of_nat (length out) := 0)) filename (trim_name out)"
    and "in_region filename 16 (fn + of_nat (length out))"
proof -
  let ?xs = "if last out = 0x2E then butlast out else out"
  have at: "fn + of_nat (length out) = filename + of_nat (length ?xs)"
    using assms(2,4) by (cases out) (auto simp: algebra_simps)
  have len: "length ?xs \<le> 12" using assms(3) by auto
  then show "in_region filename 16 (fn + of_nat (length out))" unfolding at by (subst in_region_offset) auto
  have nth: "?xs ! i = out ! i" if "i < length ?xs" for i using that by (auto simp: nth_butlast)
  have "(m(filename + of_nat (length ?xs) := 0)) (filename + of_nat i) = ?xs ! i" if "i < length ?xs" for i
  proof -
    have "(of_nat i :: u32) \<noteq> of_nat (length ?xs)" using that len by (subst of_nat_u32_inj) auto
    moreover have "i < length out" using that by (auto split: if_splits)
    ultimately show ?thesis using assms(1) [of i] nth [OF that] by simp
  qed
  then show "cstr (m(fn + of_nat (length out) := 0)) filename (trim_name out)"
    unfolding at trim_name_def by (rule cstr_takeWhile) (assumption, rule fun_upd_same)
qed

lemma nameext_to_name_runs:
  assumes apart: "disjoint_regions nameext 11 filename 16" and c0: "m nameext \<noteq> 0x20"
    and out: "out = nameext_bytes 0 (bytes_at m nameext 11) True False False"
    and ne: "strncmp (put_bytes m filename out) filename (literal env ''.          '') 11 \<noteq> 0"
      "strncmp (put_bytes m filename out) filename (literal env ''..         '') 11 \<noteq> 0"
  shows "\<exists>q m'. fat32_nameext_to_name env nameext filename m = Ret (q, m') \<and> cstr m' filename (trim_name out)
    \<and> same_outside filename 16 m m'"
proof -
  let ?m = "put_bytes m filename out" and ?fn = "if last out = 0x2E then filename - 1 else filename"
  have "bytes_at m nameext 11 \<noteq> []" using length_bytes_at [of m nameext 11] by (metis list.size(3) zero_neq_numeral)
  then have "hd (bytes_at m nameext 11) = m nameext" by (simp add: hd_conv_nth)
  then have len: "2 \<le> length out" "length out \<le> 12" using nameext_bytes_start [of "bytes_at m nameext 11"] c0 by (simp_all add: out)
  have nth: "?m (filename + of_nat i) = out ! i" if "i < length out" for i
    using that len by (simp add: put_bytes_nth unat_of_nat32)
  have ne0: "out \<noteq> []" using len by auto
  have "?m (filename + of_nat (length out - 1)) = last out" using nth [of "length out - 1"] ne0 by (simp add: last_conv_nth)
  moreover have "(of_nat (length out - 1) :: u32) = of_nat (length out) - 1" using len by (simp add: of_nat_diff)
  ultimately have "?m (filename + (of_nat (length out) - 1)) = last out" by simp
  then have run: "fat32_nameext_to_name env nameext filename m = Ret (?fn, ?m(?fn + of_nat (length out) := 0))"
    unfolding fat32_nameext_to_name_def nameext_loop_writes [OF apart] out [symmetric] Let_def prod.case if_not_P [OF ne(1)] if_not_P [OF ne(2)]
    using c0 by simp
  note W = trim_name_written [OF nth ne0 len(2) refl]
  have "same_outside filename 16 m ?m" using len by (intro put_bytes_same_outside) simp_all
  with W(2) have "same_outside filename 16 m (?m(?fn + of_nat (length out) := 0))"
    using same_outside_trans same_outside_upd by blast
  with run W(1) show ?thesis by blast
qed

text \<open>
  C31. A short name of a base (without spaces and dots) and an extension becomes \<open>base.extension\<close>,
  or just \<open>base\<close> when there is no extension.
\<close>

theorem fat32_nameext_to_name_8_3:
  assumes ne: "bytes_at m nameext 11 = bs @ replicate (8 - length bs) 0x20 @ es @ replicate (3 - length es) 0x20"
    and bs: "bs \<noteq> []" "length bs \<le> 8" "set bs \<inter> {0, 0x20, 0x2E} = {}" and es: "length es \<le> 3" "set es \<inter> {0, 0x20, 0x2E} = {}"
    and lit: "\<forall>str \<in> {''.          '', ''..         ''}. m (literal env str) = 0x2E \<and> \<not> in_region filename 16 (literal env str)"
    and apart: "disjoint_regions nameext 11 filename 16"
  shows "\<exists>q m'. fat32_nameext_to_name env nameext filename m = Ret (q, m')
    \<and> cstr m' filename (if es = [] then bs else bs @ 0x2E # es) \<and> same_outside filename 16 m m'"
proof -
  let ?out = "bs @ 0x2E # es" and ?m = "put_bytes m filename (bs @ 0x2E # es)"
  have out: "?out = nameext_bytes 0 (bytes_at m nameext 11) True False False"
    unfolding ne using bs es by (intro nameext_bytes_name [symmetric]) auto
  have "bytes_at m nameext 11 ! 0 = hd bs" unfolding ne using bs(1) by (simp add: nth_append hd_conv_nth)
  then have c0: "m nameext = hd bs" by simp
  have hd: "hd bs \<noteq> 0x20" "hd bs \<noteq> 0x2E" using bs by (metis IntI disjoint_insert(1) hd_in_set insertI1 insert_iff)+
  have "same_outside filename 16 m ?m" using bs es by (intro put_bytes_same_outside) simp_all
  moreover have "?m filename = hd bs" using bs es by (simp add: put_bytes_nth hd_conv_nth nth_append)
  ultimately have "strncmp ?m filename (literal env ''.          '') 11 \<noteq> 0" "strncmp ?m filename (literal env ''..         '') 11 \<noteq> 0"
    using lit hd(2) by (intro strncmp_first; simp add: same_outside_def)+
  note runs = nameext_to_name_runs [OF apart _ out this, unfolded c0, OF hd(1)]
  have "0 \<notin> set bs" "0 \<notin> set es" "es \<noteq> [] \<longrightarrow> last es \<noteq> 0x2E" using bs(3) es(2) last_in_set [of es] by fastforce+
  then have "trim_name ?out = (if es = [] then bs else bs @ 0x2E # es)"
    by (auto simp: trim_name_def takeWhile_append2 takeWhile_eq_all_conv)
  with runs show ?thesis by simp
qed

definition demo_env :: "ata kenv" where
  "demo_env = \<lparr>heap_of = small_heap_allocator, literal = (\<lambda>str. 0x3000), local = (\<lambda>_. 0x5000), link = (\<lambda>_. 0x6000),
     ports = demo_drive, lbdev_at = (\<lambda>_. undefined)\<rparr>"

lemma fat32_nameext_to_name_8_3_witness:
  "\<exists>q m'. fat32_nameext_to_name demo_env 0x1000 0x2000
       (put_bytes ((\<lambda>_. 0)(0x3000 := 0x2E)) 0x1000 (ascii ''README  TXT'')) = Ret (q, m')
     \<and> cstr m' 0x2000 (ascii ''README.TXT'')"
proof -
  let ?m = "put_bytes ((\<lambda>_. 0)(0x3000 := 0x2E)) 0x1000 (ascii ''README  TXT'')"
  let ?bs = "ascii ''README''" and ?es = "ascii ''TXT''"
  have len: "length (ascii ''README  TXT'') = 11" by (simp add: ascii_def)
  from bytes_at_put_bytes [of "ascii ''README  TXT''" "(\<lambda>_. 0)(0x3000 := 0x2E)" "0x1000"]
  have "bytes_at ?m 0x1000 11 = ascii ''README  TXT''" unfolding len by simp
  then have ne: "bytes_at ?m 0x1000 11 = ?bs @ replicate (8 - length ?bs) 0x20 @ ?es @ replicate (3 - length ?es) 0x20"
    by (simp add: ascii_def numeral_2_eq_2)
  have lit: "\<forall>str \<in> {''.          '', ''..         ''}. ?m (literal demo_env str) = 0x2E \<and> \<not> in_region 0x2000 16 (literal demo_env str)"
    by (simp add: demo_env_def in_region_def ascii_def)
  have d: "disjoint_regions 0x1000 11 0x2000 16" by (rule disjoint_regions_nat) simp_all
  have c: "?bs \<noteq> []" "length ?bs \<le> 8" "set ?bs \<inter> {0, 0x20, 0x2E} = {}" "length ?es \<le> 3" "set ?es \<inter> {0, 0x20, 0x2E} = {}"
    by (simp_all add: ascii_def)
  have eq: "(if ?es = [] then ?bs else ?bs @ 0x2E # ?es) = ascii ''README.TXT''" by (simp add: ascii_def)
  from fat32_nameext_to_name_8_3 [OF ne c lit d, unfolded eq] show ?thesis by blast
qed

text \<open>
  Whatever the table holds, a cluster number read from it is below 256, because only one byte of
  the entry is read; the end mark \<open>0x0FFFFFF8\<close> of a chain is never seen.
\<close>

theorem read_fat_entry_one_byte:
  "case read_fat_entry env cluster_num bs lbdev s of
     Some (Ret (v, s')) \<Rightarrow> v < 256 \<and> v < 0x0FFFFFF8
   | _ \<Rightarrow> True"
proof -
  have "v < 256 \<and> v < 0x0FFFFFF8" if run: "read_fat_entry env cluster_num bs lbdev s = Some (Ret (v, s'))" for v s'
  proof -
    from run obtain b :: u8 where "v = ucast b"
      by (auto simp: read_fat_entry_def Let_def rbind_Ret_iff split: if_splits)
    moreover have "unat (ucast b :: u32) < 256"
      using le_less_trans [OF take_bit_nat_less_eq_self [of 32 "unat b"] unat_u8_lt [of b]] by (simp add: unsigned_ucast_eq)
    ultimately have "unat v < 256" by simp
    then show ?thesis by (simp add: word_less_nat_alt)
  qed
  then show ?thesis by (auto split: option.splits outcome.splits)
qed

end
