(* ===== verification/Initrd.thy ===== *)
theory Initrd
  imports Fat32
begin

text \<open>
  \<^verbatim>\<open>kernel/src/fs/initrd.c\<close>: the read-only file system in the initial ram disk, an image in memory
  with a table of 28 files. Its global variables are the record \<open>initrd_globals\<close>.
\<close>

section \<open>The image\<close>

record initrd_globals =
  initrd_header :: addr
  initrd_root :: addr
  initrd_dev :: addr

text \<open>Entry \<open>i\<close> of the table: name (10 bytes), blocks, size, first block.\<close>

definition file_entry :: "addr \<Rightarrow> nat \<Rightarrow> addr" where "file_entry header i = header + 8 + 18 * of_nat i"
definition entry_real_size :: "mem \<Rightarrow> addr \<Rightarrow> u32" where "entry_real_size m e = load32 m (e + 12)"
definition entry_start_block :: "mem \<Rightarrow> addr \<Rightarrow> u16" where "entry_start_block m e = load16 m (e + 16)"

section \<open>Reading\<close>

function initrd_read_loop :: "addr \<Rightarrow> addr \<Rightarrow> u32 \<Rightarrow> u32 \<Rightarrow> addr \<Rightarrow> nat \<Rightarrow> mem \<Rightarrow> u32 \<times> mem" where
  "initrd_read_loop header path offset sz buffer i m =
     (if i < 28 then
        let e = file_entry header i in
        if m e = 0 then (0, m)
        else if strncmp m e path 10 = 0 then
          if offset > entry_real_size m e then (EINVARG, m)
          else if offset + sz > entry_real_size m e then (EINVARG, m)
          else initrd_read_loop header path offset sz buffer (i + 1)
                 (memcpy m buffer (header + 512 + ucast (entry_start_block m e) * 128 + offset) sz)
        else initrd_read_loop header path offset sz buffer (i + 1) m
      else (0, m))"
  by pat_completeness auto
termination
  by (relation "measure (\<lambda>(header, path, offset, sz, buffer, i, m). 28 - i)") auto

declare initrd_read_loop.simps [simp del]

definition initrd_read :: "initrd_globals \<Rightarrow> addr \<Rightarrow> u32 \<Rightarrow> u32 \<Rightarrow> addr \<Rightarrow> mem \<Rightarrow> u32 \<times> mem" where
  "initrd_read g node offset sz buffer m =
     (if node_flags m node AND FS_FILE = 0 then (EINVARG, m)
      else initrd_read_loop (initrd_header g) node offset sz buffer 0 m)"

section \<open>Directories\<close>

definition initrd_readdir :: "'d kenv \<Rightarrow> initrd_globals \<Rightarrow> addr \<Rightarrow> u32 \<Rightarrow> mem \<Rightarrow> (addr \<times> mem) run" where
  "initrd_readdir env g node index m =
     (let dirent = link env ''dirent''; e = file_entry (initrd_header g) (unat (index - 1)) in
      if node \<noteq> initrd_root g then Some (Ret (NULL, m))
      else if index = 0 then
        rbind (returning (strcpy m dirent (literal env ''dev''))) (\<lambda>m. Some (Ret (dirent, m(dirent + 3 := 0))))
      else if index \<ge> 28 then Some (Ret (NULL, m))
      else if m e = 0 then Some (Ret (NULL, m))
      else
        rbind (returning (strcpy m dirent e)) (\<lambda>m.
        rbind (returning (strlen m e)) (\<lambda>len.
          Some (Ret (dirent, m(dirent + (if len \<ge> 10 then 9 else len) := 0))))))"

text \<open>The assignments to a new file node.\<close>

definition initrd_file_node :: "'d kenv \<Rightarrow> addr \<Rightarrow> addr \<Rightarrow> mem \<Rightarrow> mem" where
  "initrd_file_node env node e m =
     (let m = store32 m (node + 132) 0;
          m = store32 m (node + 148) FS_FILE;
          m = store32 m (node + 152) (link env ''initrd_read'');
          m = store32 m (node + 156) 0;
          m = store32 m (node + 164) 0;
          m = store32 m (node + 168) (link env ''initrd_readdir'');
          m = store32 m (node + 172) (link env ''initrd_finddir'')
      in store32 m (node + 128) (entry_real_size m e))"

primrec initrd_find_loop ::
  "'d kenv \<Rightarrow> initrd_globals \<Rightarrow> addr \<Rightarrow> nat \<Rightarrow> nat \<Rightarrow> 'd kstate \<Rightarrow> (addr \<times> 'd kstate) run" where
  "initrd_find_loop env g name i 0 s = Some (Ret (NULL, s))"
| "initrd_find_loop env g name i (Suc n) s =
     (let e = file_entry (initrd_header g) i in
      if ram s e = 0 then Some (Ret (NULL, s))
      else if strncmp (ram s) e name 10 = 0 then
        rbind (alloc env sizeof_fs_node s) (\<lambda>(node, s).
        rbind (copy_to node e s) (\<lambda>s. Some (Ret (node, s\<lparr>ram := initrd_file_node env node e (ram s)\<rparr>))))
      else initrd_find_loop env g name (i + 1) n s)"

definition initrd_finddir :: "'d kenv \<Rightarrow> initrd_globals \<Rightarrow> addr \<Rightarrow> addr \<Rightarrow> 'd kstate \<Rightarrow> (addr \<times> 'd kstate) run" where
  "initrd_finddir env g node name s =
     (if node \<noteq> initrd_root g then Some (Ret (NULL, s))
      else rbind (returning (strcmp (ram s) name (literal env ''dev''))) (\<lambda>r.
        if r = 0 then Some (Ret (initrd_dev g, s)) else initrd_find_loop env g name 0 28 s))"

text \<open>The assignments to a directory node.\<close>

definition initrd_dir_node :: "'d kenv \<Rightarrow> addr \<Rightarrow> mem \<Rightarrow> mem" where
  "initrd_dir_node env node m =
     (let m = store32 m (node + 132) 0;
          m = store32 m (node + 148) FS_DIRECTORY;
          m = store32 m (node + 152) 0;
          m = store32 m (node + 156) 0;
          m = store32 m (node + 164) 0;
          m = store32 m (node + 168) (link env ''initrd_readdir'')
      in store32 m (node + 172) (link env ''initrd_finddir''))"

definition initialise_initrd :: "'d kenv \<Rightarrow> addr \<Rightarrow> 'd kstate \<Rightarrow> (initrd_globals \<times> 'd kstate) run" where
  "initialise_initrd env location s =
     rbind (alloc env sizeof_fs_node s) (\<lambda>(root, s).
     rbind (copy_to root (literal env ''initrd'') s) (\<lambda>s.
       let s = s\<lparr>ram := initrd_dir_node env root (ram s)\<rparr> in
     rbind (alloc env sizeof_fs_node s) (\<lambda>(dev, s).
     rbind (copy_to dev (literal env ''dev'') s) (\<lambda>s.
       Some (Ret (\<lparr>initrd_header = location, initrd_root = root, initrd_dev = dev\<rparr>,
                  s\<lparr>ram := initrd_dir_node env dev (ram s)\<rparr>))))))"

definition free_initrd :: "initrd_globals \<Rightarrow> 'd kstate \<Rightarrow> 'd kstate" where
  "free_initrd g s = release (initrd_dev g) (release (initrd_root g) s)"

text \<open>The last file of a full table is never listed: its index, 28, is refused.\<close>

lemma initrd_readdir_28: "node = initrd_root g \<Longrightarrow> initrd_readdir env g node 28 m = Some (Ret (NULL, m))"
  by (simp add: initrd_readdir_def)

end
