(* ===== verification/Initrd_Gen.thy ===== *)
theory Initrd_Gen
  imports Initrd
begin

text \<open>
  \<^verbatim>\<open>tools/initrd_gen/initrd_gen.c\<close>: the host program that builds the image the kernel reads. It runs
  on a hosted C library; \<open>files\<close> gives the content of a host file, \<open>None\<close> when it cannot be
  opened. The result is the exit status and the content of \<^verbatim>\<open>initrd.img\<close>. The theorem at the end
  shows that the kernel reads from the image what was put into it.
\<close>

section \<open>The generator\<close>

definition BLOCK_SIZE :: nat where "BLOCK_SIZE = 128"

definition le16_bytes :: "u16 \<Rightarrow> u8 list" where "le16_bytes v = [ucast v, ucast (drop_bit 8 v)]"
definition le32_bytes :: "u32 \<Rightarrow> u8 list" where
  "le32_bytes v = [ucast v, ucast (drop_bit 8 v), ucast (drop_bit 16 v), ucast (drop_bit 24 v)]"

record file_entry_t =
  filename :: "u8 list"
  num_blocks :: u16
  real_size :: u32
  start_block :: u16

definition entry_bytes :: "file_entry_t \<Rightarrow> u8 list" where
  "entry_bytes e = filename e @ le16_bytes (num_blocks e) @ le32_bytes (real_size e) @ le16_bytes (start_block e)"

text \<open>The hosted \<^verbatim>\<open>strncpy\<close> into a zeroed array of 10 bytes.\<close>

definition pad10 :: "u8 list \<Rightarrow> u8 list" where
  "pad10 name = take 10 name @ replicate (10 - length name) 0"

definition make_entry :: "u8 list \<Rightarrow> u8 list \<Rightarrow> u32 \<Rightarrow> file_entry_t" where
  "make_entry guest content current_block =
     \<lparr>filename = pad10 guest, num_blocks = of_nat ((length content + (BLOCK_SIZE - 1)) div BLOCK_SIZE),
      real_size = of_nat (length content), start_block = ucast current_block\<rparr>"

text \<open>
  The loop over the pairs of arguments, with the table, the data written so far and the next
  block. A 29th file writes behind the table; a file of 65536 blocks or more is read past
  the end of its buffer.
\<close>

fun gen_loop ::
  "(u8 list \<Rightarrow> u8 list option) \<Rightarrow> u8 list list \<Rightarrow> file_entry_t list \<Rightarrow> u8 list \<Rightarrow> u32 \<Rightarrow>
   (int \<times> file_entry_t list \<times> u8 list) outcome" where
  "gen_loop files (host # guest # args) table data current_block =
     (case files host of
        None \<Rightarrow> Ret (1, table, data)
      | Some content \<Rightarrow>
          let e = make_entry guest content current_block
          in if length table \<ge> 28 \<or> unat (num_blocks e) * BLOCK_SIZE < length content then Fault
             else gen_loop files args (table @ [e])
                    (data @ content @ replicate (unat (num_blocks e) * BLOCK_SIZE - length content) 0)
                    (current_block + ucast (num_blocks e)))"
| "gen_loop files args table data current_block = Ret (0, table, data)"

definition header_bytes :: "u32 \<Rightarrow> file_entry_t list \<Rightarrow> u8 list" where
  "header_bytes sz table =
     le32_bytes sz @ le32_bytes 0xAFA0010D @ concat (map entry_bytes table) @ replicate (18 * (28 - length table)) 0"

text \<open>\<open>args\<close> are the arguments after the program name.\<close>

definition initrd_gen :: "(u8 list \<Rightarrow> u8 list option) \<Rightarrow> u8 list list \<Rightarrow> (int \<times> u8 list) outcome" where
  "initrd_gen files args =
     (if odd (length args) then Ret (1, [])
      else obind (gen_loop files args [] [] 0) (\<lambda>(status, table, data).
        if status \<noteq> 0 then Ret (1, if data = [] then [] else replicate 512 0 @ data)
        else Ret (0, header_bytes (of_nat (512 + length data)) table @ data)))"

section \<open>The kernel reads what was put into the image\<close>

definition blocks :: "u8 list \<Rightarrow> nat" where "blocks c = (length c + 127) div 128"

definition padded :: "u8 list \<Rightarrow> u8 list" where
  "padded c = c @ replicate (blocks c * 128 - length c) 0"

text \<open>A list of files: host name, name in the image, content.\<close>

type_synonym file_spec = "u8 list \<times> u8 list \<times> u8 list"

definition spec_args :: "file_spec list \<Rightarrow> u8 list list" where
  "spec_args fs = concat (map (\<lambda>(host, guest, content). [host, guest]) fs)"

fun spec_entries :: "nat \<Rightarrow> file_spec list \<Rightarrow> file_entry_t list" where
  "spec_entries b [] = []"
| "spec_entries b ((host, guest, content) # fs) =
     \<lparr>filename = pad10 guest, num_blocks = of_nat (blocks content), real_size = of_nat (length content), start_block = of_nat b\<rparr>
     # spec_entries (b + blocks content) fs"

definition spec_data :: "file_spec list \<Rightarrow> u8 list" where
  "spec_data fs = concat (map (\<lambda>(host, guest, content). padded content) fs)"

definition spec_blocks :: "file_spec list \<Rightarrow> nat" where
  "spec_blocks fs = sum_list (map (\<lambda>(host, guest, content). blocks content) fs)"

definition spec_image :: "file_spec list \<Rightarrow> u8 list" where
  "spec_image fs = header_bytes (of_nat (512 + length (spec_data fs))) (spec_entries 0 fs) @ spec_data fs"

text \<open>
  Usable lists: at most 28 files with different names of 1 to 9 bytes, which fit into the 16-bit
  block numbers.
\<close>

definition spec_ok :: "(u8 list \<Rightarrow> u8 list option) \<Rightarrow> file_spec list \<Rightarrow> bool" where
  "spec_ok files fs \<longleftrightarrow> length fs \<le> 28 \<and> spec_blocks fs < 2 ^ 16
     \<and> (\<forall>(host, guest, content) \<in> set fs. files host = Some content \<and> guest \<noteq> [] \<and> length guest \<le> 9 \<and> 0 \<notin> set guest)
     \<and> distinct (map (\<lambda>(host, guest, content). guest) fs)"

lemma length_padded: "length (padded c) = 128 * blocks c"
proof -
  have "length c \<le> 128 * blocks c" unfolding blocks_def by linarith
  then show ?thesis by (simp add: padded_def)
qed

lemma length_spec_data: "length (spec_data fs) = 128 * spec_blocks fs"
  by (induction fs) (auto simp: spec_data_def spec_blocks_def length_padded)

lemma of_nat_u16_lt: "n < 2 ^ 16 \<Longrightarrow> unat (of_nat n :: u16) = n"
  by (simp add: unat_of_nat take_bit_nat_eq_self)

lemma gen_loop_spec:
  "length table + length fs \<le> 28 \<Longrightarrow> b + spec_blocks fs < 2 ^ 16 \<Longrightarrow>
   \<forall>(host, guest, content) \<in> set fs. files host = Some content \<Longrightarrow>
   gen_loop files (spec_args fs) table data (of_nat b) = Ret (0, table @ spec_entries b fs, data @ spec_data fs)"
proof (induction fs arbitrary: table data b)
  case Nil
  then show ?case by (simp add: spec_args_def spec_data_def)
next
  case (Cons f fs)
  obtain host guest content where f: "f = (host, guest, content)" by (cases f)
  have found: "files host = Some content" using Cons.prems(3) f by simp
  have bl: "blocks content < 2 ^ 16" "b + blocks content + spec_blocks fs < 2 ^ 16"
    using Cons.prems(2) by (simp_all add: f spec_blocks_def)
  have nb: "(length content + (BLOCK_SIZE - 1)) div BLOCK_SIZE = blocks content" by (simp add: BLOCK_SIZE_def blocks_def)
  have u: "unat (of_nat (blocks content) :: u16) = blocks content" using bl(1) by (rule of_nat_u16_lt)
  have fit: "\<not> blocks content * BLOCK_SIZE < length content" unfolding blocks_def BLOCK_SIZE_def by linarith
  have cur: "(of_nat b :: u32) + ucast (of_nat (blocks content) :: u16) = of_nat (b + blocks content)"
    using bl(1) by (simp add: word_unat_eq_iff unsigned_ucast_eq u unat_word_ariths take_bit_nat_eq_self unat_of_nat)
  have sb: "(ucast (of_nat b :: u32) :: u16) = of_nat b"
    using bl(2) by (simp add: word_unat_eq_iff unsigned_ucast_eq unat_of_nat take_bit_nat_eq_self)
  have args: "spec_args (f # fs) = host # guest # spec_args fs" by (simp add: spec_args_def f)
  have me: "make_entry guest content (of_nat b) = \<lparr>filename = pad10 guest, num_blocks = of_nat (blocks content),
      real_size = of_nat (length content), start_block = of_nat b\<rparr>"
    by (simp add: make_entry_def sb BLOCK_SIZE_def blocks_def)
  have "gen_loop files (spec_args (f # fs)) table data (of_nat b) =
     gen_loop files (spec_args fs) (table @ [make_entry guest content (of_nat b)]) (data @ padded content) (of_nat (b + blocks content))"
    using Cons.prems(1) fit found by (simp add: args me u cur padded_def BLOCK_SIZE_def Let_def)
  also have "\<dots> = Ret (0, table @ spec_entries b (f # fs), data @ spec_data (f # fs))"
    using Cons.prems bl(2) by (subst Cons.IH) (auto simp: f me spec_data_def)
  finally show ?case .
qed

lemma initrd_gen_spec:
  assumes "spec_ok files fs"
  shows "initrd_gen files (spec_args fs) = Ret (0, spec_image fs)"
proof -
  have "even (length (spec_args fs))" by (induction fs) (auto simp: spec_args_def)
  moreover have "gen_loop files (spec_args fs) [] [] 0 = Ret (0, spec_entries 0 fs, spec_data fs)"
  proof -
    have "\<forall>(host, guest, content) \<in> set fs. files host = Some content" using assms by (fastforce simp: spec_ok_def)
    with gen_loop_spec [of "[]" fs 0 files "[]"] assms show ?thesis by (simp add: spec_ok_def)
  qed
  ultimately show ?thesis by (simp add: initrd_gen_def spec_image_def)
qed

lemma concat_nth_fixed:
  "(\<And>x. x \<in> set xs \<Longrightarrow> length x = n) \<Longrightarrow> i < length xs \<Longrightarrow> k < n \<Longrightarrow> concat xs ! (n * i + k) = xs ! i ! k"
proof (induction xs arbitrary: i)
  case (Cons x xs)
  show ?case
  proof (cases i)
    case 0
    with Cons.prems show ?thesis by (simp add: nth_append)
  next
    case (Suc j)
    have "concat xs ! (n * j + k) = xs ! j ! k" using Cons Suc by simp
    then show ?thesis using Cons.prems(1) [of x] Suc by (simp add: nth_append)
  qed
qed simp

lemma length_spec_entries [simp]: "length (spec_entries b fs) = length fs"
  by (induction b fs rule: spec_entries.induct) auto

lemma nth_spec_entries:
  "i < length fs \<Longrightarrow> fs ! i = (host, guest, content) \<Longrightarrow> spec_entries b fs ! i =
     \<lparr>filename = pad10 guest, num_blocks = of_nat (blocks content), real_size = of_nat (length content),
      start_block = of_nat (b + spec_blocks (take i fs))\<rparr>"
proof (induction b fs arbitrary: i rule: spec_entries.induct)
  case (2 b h g c fs)
  then show ?case by (cases i) (auto simp: spec_blocks_def add.assoc)
qed simp

lemma length_pad10: "length (pad10 g) = 10"
  by (simp add: pad10_def)

lemma length_entry_bytes: "e \<in> set (spec_entries b fs) \<Longrightarrow> length (entry_bytes e) = 18"
  by (induction b fs rule: spec_entries.induct)
    (auto simp: entry_bytes_def length_pad10 le16_bytes_def le32_bytes_def)

lemma length_header:
  assumes "length fs \<le> 28"
  shows "length (header_bytes sz (spec_entries b fs)) = 512"
proof -
  have "length (concat (map entry_bytes (spec_entries b fs))) = 18 * length fs"
    by (induction b fs rule: spec_entries.induct) (auto simp: entry_bytes_def length_pad10 le16_bytes_def le32_bytes_def)
  with assms show ?thesis by (simp add: header_bytes_def le32_bytes_def)
qed

lemma image_entry:
  assumes "i < length fs" "length fs \<le> 28" "k < 18"
  shows "spec_image fs ! (8 + 18 * i + k) = entry_bytes (spec_entries 0 fs ! i) ! k"
proof -
  let ?t = "map entry_bytes (spec_entries 0 fs)"
  have lt: "18 * i + k < 18 * length fs" using assms by linarith
  have len: "length (concat ?t) = 18 * length fs"
    using length_header [OF assms(2), of 0 0] assms(2) by (simp add: header_bytes_def le32_bytes_def)
  have "spec_image fs ! (8 + 18 * i + k) = (concat ?t @ replicate (18 * (28 - length fs)) 0 @ spec_data fs) ! (18 * i + k)"
    by (simp add: spec_image_def header_bytes_def nth_append le32_bytes_def)
  also have "\<dots> = concat ?t ! (18 * i + k)" using lt len by (simp add: nth_append)
  also have "\<dots> = ?t ! i ! k" using assms by (intro concat_nth_fixed) (auto simp: length_entry_bytes)
  finally show ?thesis using assms(1) by simp
qed

lemma image_end:
  assumes "length fs < 28"
  shows "spec_image fs ! (8 + 18 * length fs) = 0"
proof -
  let ?t = "map entry_bytes (spec_entries 0 fs)"
  have len: "length (concat ?t) = 18 * length fs"
    using length_header [of fs 0 0] assms by (simp add: header_bytes_def le32_bytes_def)
  have "spec_image fs ! (8 + 18 * length fs) = (concat ?t @ replicate (18 * (28 - length fs)) 0 @ spec_data fs) ! (18 * length fs)"
    by (simp add: spec_image_def header_bytes_def nth_append le32_bytes_def)
  also have "\<dots> = 0" using len assms by (simp add: nth_append)
  finally show ?thesis .
qed

lemma image_content:
  assumes "i < length fs" "length fs \<le> 28" "fs ! i = (host, guest, content)" "k < length content"
  shows "spec_image fs ! (512 + 128 * spec_blocks (take i fs) + k) = content ! k"
proof -
  have "fs = take i fs @ (host, guest, content) # drop (Suc i) fs" using assms using id_take_nth_drop [of i fs] by simp
  moreover have "spec_data (xs @ (host, guest, content) # ys) = spec_data xs @ padded content @ spec_data ys" for xs ys
    by (simp add: spec_data_def)
  ultimately have "spec_data fs = spec_data (take i fs) @ padded content @ spec_data (drop (Suc i) fs)" by metis
  then have "spec_data fs ! (128 * spec_blocks (take i fs) + k) = content ! k"
    using assms(4) by (simp add: nth_append length_spec_data padded_def)
  then show ?thesis using length_header [OF assms(2)] by (simp add: spec_image_def nth_append add.assoc)
qed

definition image_at :: "mem \<Rightarrow> addr \<Rightarrow> file_spec list \<Rightarrow> bool" where
  "image_at m p fs \<longleftrightarrow> bytes_at m p (length (spec_image fs)) = spec_image fs"

lemma length_image: "length fs \<le> 28 \<Longrightarrow> length (spec_image fs) = 512 + 128 * spec_blocks fs"
  using length_header [of fs] by (simp add: spec_image_def length_spec_data)

lemma image_at_nth: "image_at m p fs \<Longrightarrow> j < length (spec_image fs) \<Longrightarrow> m (p + of_nat j) = spec_image fs ! j"
  unfolding image_at_def by (metis nth_bytes_at)

lemma blocks_take: "i < length fs \<Longrightarrow> fs ! i = (host, guest, content) \<Longrightarrow> spec_blocks (take i fs) + blocks content \<le> spec_blocks fs"
proof -
  assume "i < length fs" "fs ! i = (host, guest, content)"
  then have "fs = take i fs @ (host, guest, content) # drop (Suc i) fs" using id_take_nth_drop [of i fs] by simp
  then have "spec_blocks fs = spec_blocks (take i fs @ (host, guest, content) # drop (Suc i) fs)" by simp
  then show ?thesis by (simp add: spec_blocks_def)
qed

lemma le_bytes_load32:
  assumes "m p = ucast v" "m (p + 1) = ucast (drop_bit 8 v)" "m (p + 2) = ucast (drop_bit 16 v)" "m (p + 3) = ucast (drop_bit 24 v)"
  shows "load32 m p = v"
proof -
  from assms have "load32 m p = load32 (store32 m p v) p" by (simp add: load32_def store32_def)
  then show ?thesis by simp
qed

lemma le_bytes_load16:
  assumes "m p = ucast v" "m (p + 1) = ucast (drop_bit 8 v)"
  shows "load16 m p = v"
proof -
  from assms have "load16 m p = load16 (store16 m p v) p" by (simp add: load16_def store16_def)
  then show ?thesis by simp
qed

text \<open>The fields of an entry of the image, as the kernel loads them.\<close>

lemma entry_in_memory:
  assumes im: "image_at m p fs" and ok: "spec_ok files fs" and i: "i < length fs" and f: "fs ! i = (host, guest, content)"
  shows "cstr m (file_entry p i) guest" "entry_real_size m (file_entry p i) = of_nat (length content)"
    "unat (entry_start_block m (file_entry p i)) = spec_blocks (take i fs)"
proof -
  have fs: "length fs \<le> 28" "spec_blocks fs < 2 ^ 16" using ok by (simp_all add: spec_ok_def)
  have g: "length guest \<le> 9" "0 \<notin> set guest" using ok f i nth_mem [OF i] by (fastforce simp: spec_ok_def)+
  let ?e = "spec_entries 0 fs ! i"
  have e: "?e = \<lparr>filename = pad10 guest, num_blocks = of_nat (blocks content), real_size = of_nat (length content),
      start_block = of_nat (spec_blocks (take i fs))\<rparr>" using nth_spec_entries [OF i f, of 0] by simp
  have byte: "m (file_entry p i + of_nat k) = entry_bytes ?e ! k" if "k < 18" for k
  proof -
    have "8 + 18 * i + k < length (spec_image fs)" using that i fs by (simp add: length_image)
    from image_at_nth [OF im this] image_entry [OF i fs(1) that] show ?thesis by (simp add: file_entry_def algebra_simps)
  qed
  have p10: "entry_bytes ?e ! k = pad10 guest ! k" if "k < 10" for k
    using that by (simp add: e entry_bytes_def nth_append length_pad10)
  show "cstr m (file_entry p i) guest"
    unfolding cstr_iff
  proof (intro conjI allI impI)
    fix k assume k: "k < length guest"
    then have "k < 10" using g by simp
    with byte [of k] p10 [of k] k show "m (file_entry p i + of_nat k) = guest ! k" using g by (simp add: pad10_def nth_append)
    show "guest ! k \<noteq> 0" using k g(2) nth_mem by metis
  next
    show "m (file_entry p i + of_nat (length guest)) = 0"
      using byte [of "length guest"] p10 [of "length guest"] g by (simp add: pad10_def nth_append)
  qed
  show "entry_real_size m (file_entry p i) = of_nat (length content)"
    unfolding entry_real_size_def using byte [of 12] byte [of 13] byte [of 14] byte [of 15]
    by (intro le_bytes_load32) (simp_all add: e entry_bytes_def nth_append length_pad10 le16_bytes_def le32_bytes_def add.assoc)
  have "entry_start_block m (file_entry p i) = of_nat (spec_blocks (take i fs))"
    unfolding entry_start_block_def using byte [of 16] byte [of 17]
    by (intro le_bytes_load16) (simp_all add: e entry_bytes_def nth_append length_pad10 le16_bytes_def le32_bytes_def add.assoc)
  moreover have "spec_blocks (take i fs) < 2 ^ 16" using blocks_take [OF i f] fs(2) by linarith
  ultimately show "unat (entry_start_block m (file_entry p i)) = spec_blocks (take i fs)"
    by (simp add: of_nat_u16_lt)
qed

lemma guest_nth_eq:
  assumes "spec_ok files fs" "i < length fs" "k < length fs" "fs ! i = (h, g, c)" "fs ! k = (h', g, c')"
  shows "i = k"
proof -
  have d: "distinct (map (\<lambda>(host, guest, content). guest) fs)" using assms(1) by (simp add: spec_ok_def)
  from nth_eq_iff_index_eq [OF d, of i k] assms(2-5) show ?thesis by simp
qed

text \<open>After the table has been searched without a match, nothing has changed.\<close>

lemma read_loop_no_match:
  assumes im: "image_at m p fs" and ok: "spec_ok files fs" and path: "cstr m path guest" "length guest \<le> 9"
  shows "i \<le> length fs \<Longrightarrow> \<forall>k \<ge> i. k < length fs \<longrightarrow> fst (snd (fs ! k)) \<noteq> guest \<Longrightarrow>
    initrd_read_loop p path offset sz buffer i m = (0, m)"
proof (induction "length fs - i" arbitrary: i)
  case 0
  then have i: "i = length fs" by simp
  have "length fs \<le> 28" using ok by (simp add: spec_ok_def)
  show ?case
  proof (cases "length fs < 28")
    case True
    have "m (file_entry p i) = 0"
      using image_at_nth [OF im, of "8 + 18 * length fs"] image_end [OF True] i True
      by (simp add: length_image file_entry_def algebra_simps)
    then show ?thesis by (simp add: initrd_read_loop.simps [of p path offset sz buffer i])
  next
    case False
    then show ?thesis using i by (simp add: initrd_read_loop.simps)
  qed
next
  case (Suc n)
  then have i: "i < length fs" by simp
  obtain h g c where f: "fs ! i = (h, g, c)" by (cases "fs ! i")
  note E = entry_in_memory [OF im ok i f]
  have g: "g \<noteq> []" "length g \<le> 9" using ok f nth_mem [OF i] by (fastforce simp: spec_ok_def)+
  have "m (file_entry p i) \<noteq> 0" using E(1) g(1) by (cases g) auto
  moreover have "strncmp m (file_entry p i) path 10 \<noteq> 0"
  proof -
    have "take (unat (10 :: u32)) g = g" "take (unat (10 :: u32)) guest = guest" using g(2) path(2) by simp_all
    moreover have "g \<noteq> guest" using Suc.prems(2) i f by force
    ultimately show ?thesis using strncmp_eq_0_iff [OF E(1) path(1), of 10] by simp
  qed
  moreover have "i < 28" using i ok by (simp add: spec_ok_def)
  ultimately have "initrd_read_loop p path offset sz buffer i m = initrd_read_loop p path offset sz buffer (i + 1) m"
    by (simp add: initrd_read_loop.simps [of p path offset sz buffer i])
  with Suc show ?case by simp
qed

lemma take_drop_nth: "map (\<lambda>j. xs ! (n + j)) [0..<k] = take k (drop n xs)" if "n + k \<le> length xs"
  using that by (intro nth_equalityI) auto

text \<open>Where the requested part of file \<open>i\<close> lies in the image.\<close>

definition content_at :: "file_spec list \<Rightarrow> nat \<Rightarrow> u32 \<Rightarrow> nat" where
  "content_at fs i offset = 512 + 128 * spec_blocks (take i fs) + unat offset"

lemma content_in_memory:
  assumes im: "image_at m p fs" and ok: "spec_ok files fs" and i: "i < length fs" and f: "fs ! i = (host, guest, content)"
    and range: "unat offset + unat sz \<le> length content"
  shows "p + 512 + ucast (entry_start_block m (file_entry p i)) * 128 + offset = p + of_nat (content_at fs i offset)"
    and "content_at fs i offset + unat sz \<le> length (spec_image fs)"
    and "bytes_at m (p + of_nat (content_at fs i offset)) (unat sz) = take (unat sz) (drop (unat offset) content)"
proof -
  have fs: "length fs \<le> 28" "spec_blocks fs < 2 ^ 16" using ok by (simp_all add: spec_ok_def)
  have bl: "spec_blocks (take i fs) + blocks content \<le> spec_blocks fs" by (rule blocks_take [OF i f])
  have lc: "length content \<le> 128 * blocks content" unfolding blocks_def by linarith
  have "(ucast (entry_start_block m (file_entry p i)) :: u32) = of_nat (spec_blocks (take i fs))"
    using entry_in_memory(3) [OF im ok i f] bl fs(2) by (simp add: word_unat_eq_iff unsigned_ucast_eq unat_of_nat take_bit_nat_eq_self)
  then show "p + 512 + ucast (entry_start_block m (file_entry p i)) * 128 + offset = p + of_nat (content_at fs i offset)"
    by (simp add: content_at_def algebra_simps)
  show inside: "content_at fs i offset + unat sz \<le> length (spec_image fs)"
    using range lc bl fs by (simp add: length_image content_at_def)
  have "m (p + of_nat (content_at fs i offset) + of_nat j) = content ! (unat offset + j)" if j: "j < unat sz" for j
  proof -
    have "m (p + of_nat (content_at fs i offset + j)) = spec_image fs ! (content_at fs i offset + j)"
      using inside j by (intro image_at_nth [OF im]) simp
    also have "\<dots> = content ! (unat offset + j)"
      using image_content [OF i fs(1) f, of "unat offset + j"] range j by (simp add: content_at_def add.assoc)
    finally show ?thesis by (simp add: add.assoc)
  qed
  then have "bytes_at m (p + of_nat (content_at fs i offset)) (unat sz) = map (\<lambda>j. content ! (unat offset + j)) [0..<unat sz]"
    by (simp add: bytes_at_def)
  with range show "bytes_at m (p + of_nat (content_at fs i offset)) (unat sz) = take (unat sz) (drop (unat offset) content)"
    by (simp add: take_drop_nth)
qed

text \<open>The loop passes the entries before the file and takes the one of the file.\<close>

lemma read_loop_skip:
  assumes im: "image_at m p fs" and ok: "spec_ok files fs" and i: "i < length fs" and f: "fs ! i = (host, guest, content)"
    and path: "cstr m path guest"
  shows "k \<le> i \<Longrightarrow> initrd_read_loop p path offset sz buffer k m = initrd_read_loop p path offset sz buffer i m"
proof (induction "i - k" arbitrary: k)
  case (Suc n)
  then have k: "k < i" and kl: "k < length fs" using i by simp_all
  obtain h' g' c' where f': "fs ! k = (h', g', c')" by (cases "fs ! k")
  note E' = entry_in_memory [OF im ok kl f']
  have g: "length guest \<le> 9" "g' \<noteq> []" "length g' \<le> 9"
    using ok f f' nth_mem [OF i] nth_mem [OF kl] by (fastforce simp: spec_ok_def)+
  have "g' \<noteq> guest" using guest_nth_eq [OF ok kl i f'] f k by blast
  moreover have "take (unat (10 :: u32)) g' = g'" "take (unat (10 :: u32)) guest = guest" using g by simp_all
  ultimately have "strncmp m (file_entry p k) path 10 \<noteq> 0" using strncmp_eq_0_iff [OF E'(1) path, of 10] by simp
  moreover have "m (file_entry p k) \<noteq> 0" using E'(1) g(2) by (cases g') auto
  moreover have "length fs \<le> 28" using ok by (simp add: spec_ok_def)
  ultimately have "initrd_read_loop p path offset sz buffer k m = initrd_read_loop p path offset sz buffer (k + 1) m"
    using kl by (simp add: initrd_read_loop.simps [of p path offset sz buffer k])
  with Suc show ?case by simp
qed simp

lemma read_loop_hit:
  assumes im: "image_at m p fs" and ok: "spec_ok files fs" and i: "i < length fs" and f: "fs ! i = (host, guest, content)"
    and path: "cstr m path guest" and range: "unat offset + unat sz \<le> length content"
  shows "initrd_read_loop p path offset sz buffer i m = initrd_read_loop p path offset sz buffer (i + 1)
    (memcpy m buffer (p + 512 + ucast (entry_start_block m (file_entry p i)) * 128 + offset) sz)"
proof -
  have fs: "length fs \<le> 28" "spec_blocks fs < 2 ^ 16" using ok by (simp_all add: spec_ok_def)
  have "guest \<noteq> []" using ok f nth_mem [OF i] by (fastforce simp: spec_ok_def)
  note E = entry_in_memory [OF im ok i f]
  have "length content \<le> 128 * blocks content" unfolding blocks_def by linarith
  then have small: "length content < 2 ^ 32" using blocks_take [OF i f] fs(2) by simp
  then have "unat (entry_real_size m (file_entry p i)) = length content" unfolding E(2) by (simp add: unat_of_nat32)
  moreover have "unat (offset + sz) = unat offset + unat sz" using range small by (intro unat_add_lem [THEN iffD1]) simp
  ultimately have "\<not> offset > entry_real_size m (file_entry p i)" "\<not> offset + sz > entry_real_size m (file_entry p i)"
    using range by (simp_all add: word_less_nat_alt)
  moreover have "strncmp m (file_entry p i) path 10 = 0" using strncmp_eq_0_iff [OF E(1) path, of 10] by simp
  moreover have "m (file_entry p i) \<noteq> 0" using E(1) \<open>guest \<noteq> []\<close> by (cases guest) auto
  ultimately show ?thesis using i fs(1) by (simp add: initrd_read_loop.simps [of p path offset sz buffer i])
qed

lemma initrd_read_content:
  assumes im: "image_at m p fs" and ok: "spec_ok files fs" and i: "i < length fs" and f: "fs ! i = (host, guest, content)"
    and path: "cstr m path guest" and room: "unat p + length (spec_image fs) \<le> 2 ^ 32"
    and range: "unat offset + unat sz \<le> length content"
    and apart: "disjoint_regions buffer (unat sz) p (length (spec_image fs))" "disjoint_regions buffer (unat sz) path 10"
  shows "\<exists>m'. initrd_read_loop p path offset sz buffer 0 m = (0, m')
    \<and> bytes_at m' buffer (unat sz) = take (unat sz) (drop (unat offset) content) \<and> same_outside buffer (unat sz) m m'"
proof -
  have g: "length guest \<le> 9" using ok f nth_mem [OF i] by (fastforce simp: spec_ok_def)
  note C = content_in_memory [OF im ok i f range]
  let ?m' = "memcpy m buffer (p + of_nat (content_at fs i offset)) sz"
  have "in_region p (length (spec_image fs)) a" if "in_region (p + of_nat (content_at fs i offset)) (unat sz) a" for a
    using in_region_add [OF that] C(2) room by (auto simp: in_region_def)
  then have dj: "disjoint_regions buffer (unat sz) (p + of_nat (content_at fs i offset)) (unat sz)"
    using apart(1) by (auto simp: disjoint_regions_def)
  note outside = memcpy_outside [OF dj, of m]
  have "bytes_at ?m' p (length (spec_image fs)) = bytes_at m p (length (spec_image fs))"
    using apart(1) outside room by (intro bytes_at_cong) (auto simp: disjoint_regions_def same_outside_def)
  then have im': "image_at ?m' p fs" using im by (simp add: image_at_def)
  have path': "cstr ?m' path guest"
  proof (rule cstr_cong [OF path])
    fix k assume "k \<le> length guest"
    then have "in_region path 10 (path + of_nat k)" using g by (simp add: in_region_offset)
    then show "?m' (path + of_nat k) = m (path + of_nat k)" using apart(2) outside by (auto simp: disjoint_regions_def same_outside_def)
  qed
  have "fst (snd (fs ! k)) \<noteq> guest" if k: "i + 1 \<le> k" "k < length fs" for k
  proof
    assume "fst (snd (fs ! k)) = guest"
    then obtain h' c' where "fs ! k = (h', guest, c')" by (metis prod.collapse)
    from guest_nth_eq [OF ok i k(2) f this] k(1) show False by simp
  qed
  then have "initrd_read_loop p path offset sz buffer (i + 1) ?m' = (0, ?m')"
    using i by (intro read_loop_no_match [OF im' ok path' g]) simp_all
  then have "initrd_read_loop p path offset sz buffer 0 m = (0, ?m')"
    using read_loop_skip [OF im ok i f path, of 0 offset sz buffer] read_loop_hit [OF im ok i f path range, of buffer] C(1) by simp
  with outside C(3) show ?thesis by (auto simp: memcpy_bytes [OF dj])
qed

text \<open>
  C19. The image the generator writes for a usable list of files, loaded at \<open>p\<close>, gives back every
  file: reading a range of the node of a file fills the buffer with that range of the content
  of the host file, and changes nothing else.
\<close>

theorem initrd_gen_read_back:
  assumes "spec_ok files fs" and "initrd_gen files (spec_args fs) = Ret (0, img)" and "bytes_at m p (length img) = img"
    and "unat p + length img \<le> 2 ^ 32" and "initrd_header g = p"
    and "(host, guest, content) \<in> set fs" and "cstr m node guest" and "node_flags m node AND FS_FILE \<noteq> 0"
    and "unat offset + unat sz \<le> length content"
    and "disjoint_regions buffer (unat sz) p (length img)" and "disjoint_regions buffer (unat sz) node 10"
  shows "\<exists>m'. initrd_read g node offset sz buffer m = (0, m')
    \<and> bytes_at m' buffer (unat sz) = take (unat sz) (drop (unat offset) content) \<and> same_outside buffer (unat sz) m m'"
proof -
  have img: "img = spec_image fs" using initrd_gen_spec [OF assms(1)] assms(2) by simp
  then have im: "image_at m p fs" using assms(3) by (simp add: image_at_def)
  from assms(6) obtain i where i: "i < length fs" "fs ! i = (host, guest, content)" by (metis in_set_conv_nth)
  from initrd_read_content [OF im assms(1) i assms(7) _ assms(9) _ assms(11)] assms(4,10) img
  obtain m' where "initrd_read_loop p node offset sz buffer 0 m = (0, m')"
    "bytes_at m' buffer (unat sz) = take (unat sz) (drop (unat offset) content)" "same_outside buffer (unat sz) m m'" by blast
  with assms(5,8) show ?thesis by (simp add: initrd_read_def)
qed

definition demo_files :: "file_spec list" where
  "demo_files = [([0x61], [0x62], [1, 2, 3])]"

definition demo_host_files :: "u8 list \<Rightarrow> u8 list option" where
  "demo_host_files name = (if name = [0x61] then Some [1, 2, 3] else None)"

lemma initrd_gen_read_back_witness:
  "\<exists>m img m'. initrd_gen demo_host_files [[0x61], [0x62]] = Ret (0, img) \<and> bytes_at m 0x10000 (length img) = img
    \<and> initrd_read \<lparr>initrd_header = 0x10000, initrd_root = 0, initrd_dev = 0\<rparr> 0x100 1 2 0x8000 m = (0, m')
    \<and> bytes_at m' 0x8000 2 = [2, 3]"
proof -
  let ?img = "spec_image demo_files"
  let ?m0 = "store32 ((\<lambda>_. 0)(0x100 := 0x62)) (0x100 + 148) 1 :: mem"
  define m where "m = put_bytes ?m0 0x10000 ?img"
  have ok: "spec_ok demo_host_files demo_files"
    by (simp add: spec_ok_def demo_files_def demo_host_files_def spec_blocks_def blocks_def)
  have gen: "initrd_gen demo_host_files (spec_args demo_files) = Ret (0, ?img)" by (rule initrd_gen_spec [OF ok])
  have args: "spec_args demo_files = [[0x61], [0x62]]" by (simp add: spec_args_def demo_files_def)
  have len: "length ?img = 640" using length_image [of demo_files] by (simp add: demo_files_def spec_blocks_def blocks_def)
  have im: "bytes_at m 0x10000 (length ?img) = ?img" unfolding m_def by (rule bytes_at_put_bytes) (simp add: len)
  have low: "m a = ?m0 a" if "unat a < 0x10000" for a
  proof -
    have "same_outside 0x10000 640 ?m0 m" unfolding m_def by (rule put_bytes_same_outside) (simp_all add: len)
    moreover have "\<not> in_region 0x10000 640 a" using that by (subst in_region_nat) simp_all
    ultimately show ?thesis by (simp add: same_outside_def)
  qed
  have path: "cstr m 0x100 [0x62]" by (simp add: low store32_def)
  have flags: "node_flags m 0x100 AND FS_FILE \<noteq> 0"
    by (simp add: node_flags_def FS_FILE_def load32_def low store32_def)
  have range: "unat (1 :: u32) + unat (2 :: u32) \<le> length ([1, 2, 3] :: u8 list)" by simp
  have mem: "([0x61], [0x62], [1, 2, 3]) \<in> set demo_files" by (simp add: demo_files_def)
  have room: "unat (0x10000 :: addr) + length ?img \<le> 2 ^ 32" by (simp add: len)
  have "disjoint_regions 0x8000 (unat (2 :: u32)) 0x10000 (length ?img)" "disjoint_regions 0x8000 (unat (2 :: u32)) 0x100 10"
    by (rule disjoint_regions_nat; simp add: len)+
  from initrd_gen_read_back [OF ok gen im room initrd_globals.select_convs(1) mem path flags range this]
  obtain m' where "initrd_read \<lparr>initrd_header = 0x10000, initrd_root = 0, initrd_dev = 0\<rparr> 0x100 1 2 0x8000 m = (0, m')"
    "bytes_at m' 0x8000 (unat (2 :: u32)) = take (unat (2 :: u32)) (drop (unat (1 :: u32)) [1, 2, 3])" by blast
  with gen im show ?thesis unfolding args by (intro exI [of _ m] exI [of _ ?img] exI [of _ m']) simp
qed

end
