(* ===== verification/Input_Device.thy ===== *)
theory Input_Device
  imports Memory
begin

text \<open>
  \<^verbatim>\<open>kernel/src/dev/input_device.c\<close> and \<^verbatim>\<open>kernel/include/kernel/dev/input_device.h\<close>: the events of an input
  device, the device as its \<^verbatim>\<open>get_event\<close> function over the state \<open>'s\<close> of the drivers, and the table of
  devices.
\<close>

definition MAX_INPUT_DEVICES :: nat where "MAX_INPUT_DEVICES = 10"

datatype input_device_event_type =
  INPUT_EVENT_NONE | INPUT_EVENT_KEY_PRESSED | INPUT_EVENT_KEY_RELEASED | INPUT_EVENT_KEY

record input_device_event =
  ev_type :: input_device_event_type
  ev_data :: "u32 list"

record 's input_device =
  get_event_fn :: "input_device_event \<Rightarrow> 's \<Rightarrow> u32 \<times> input_device_event \<times> 's"
  idev_private_data :: addr

definition no_event :: input_device_event where
  "no_event = \<lparr>ev_type = INPUT_EVENT_NONE, ev_data = replicate 6 0\<rparr>"

definition register_input_device :: "'s input_device list \<Rightarrow> 's input_device \<Rightarrow> 's input_device list outcome" where
  "register_input_device input_devices idev =
     (if length input_devices < MAX_INPUT_DEVICES then Ret (input_devices @ [idev]) else Fault)"

definition input_device_get_event ::
  "'s input_device \<Rightarrow> input_device_event \<Rightarrow> 's \<Rightarrow> u32 \<times> input_device_event \<times> 's" where
  "input_device_get_event idev event s = get_event_fn idev event s"

definition get_num_input_devices :: "'s input_device list \<Rightarrow> nat" where
  "get_num_input_devices input_devices = length input_devices"

section \<open>The contract of an event source\<close>

text \<open>
  A bounded first-in first-out buffer of bytes: an interrupt puts a byte, a poll takes the oldest
  one. \<open>serve\<close> runs a sequence of both and collects what the polls return, \<open>serve_list\<close> is the
  same on a list.
\<close>

datatype queue_op = Put u8 | Poll

primrec serve :: "(u8 \<Rightarrow> 's \<Rightarrow> 's) \<Rightarrow> ('s \<Rightarrow> u8 option \<times> 's) \<Rightarrow> queue_op list \<Rightarrow> 's \<Rightarrow> u8 option list \<times> 's" where
  "serve put get [] s = ([], s)"
| "serve put get (x # xs) s =
     (case x of
        Put b \<Rightarrow> serve put get xs (put b s)
      | Poll \<Rightarrow> (let (r, s) = get s; (rs, s) = serve put get xs s in (r # rs, s)))"

primrec serve_list :: "nat \<Rightarrow> queue_op list \<Rightarrow> u8 list \<Rightarrow> u8 option list \<times> u8 list" where
  "serve_list cap [] bs = ([], bs)"
| "serve_list cap (x # xs) bs =
     (case x of
        Put b \<Rightarrow> serve_list cap xs (if length bs < cap then bs @ [b] else bs)
      | Poll \<Rightarrow> (case bs of
          [] \<Rightarrow> (let (rs, bs) = serve_list cap xs [] in (None # rs, bs))
        | b # bs \<Rightarrow> (let (rs, bs) = serve_list cap xs bs in (Some b # rs, bs))))"

locale event_queue =
  fixes put :: "u8 \<Rightarrow> 's \<Rightarrow> 's"
    and get :: "'s \<Rightarrow> u8 option \<times> 's"
    and pending :: "'s \<Rightarrow> u8 list"
    and ok :: "'s \<Rightarrow> bool"
    and cap :: nat
  assumes put_ok: "ok s \<Longrightarrow> ok (put b s)"
    and put_pending: "ok s \<Longrightarrow> pending (put b s) = (if length (pending s) < cap then pending s @ [b] else pending s)"
    and get_ok: "ok s \<Longrightarrow> ok (snd (get s))"
    and get_empty: "ok s \<Longrightarrow> pending s = [] \<Longrightarrow> fst (get s) = None \<and> pending (snd (get s)) = []"
    and get_cons: "ok s \<Longrightarrow> pending s = b # bs \<Longrightarrow> fst (get s) = Some b \<and> pending (snd (get s)) = bs"
begin

lemma serve_refines:
  "ok s \<Longrightarrow> case serve put get xs s of (rs, s') \<Rightarrow> ok s' \<and> serve_list cap xs (pending s) = (rs, pending s')"
proof (induction xs arbitrary: s)
  case Nil
  then show ?case by simp
next
  case (Cons x xs)
  show ?case
  proof (cases x)
    case (Put b)
    with Cons.IH [of "put b s"] Cons.prems show ?thesis by (simp add: put_ok put_pending)
  next
    case Poll
    obtain r t where g: "get s = (r, t)" by fastforce
    with get_ok [OF Cons.prems] have t: "ok t" by simp
    obtain rs s' where r: "serve put get xs t = (rs, s')" by fastforce
    from Cons.IH [OF t] r have rest: "ok s'" "serve_list cap xs (pending t) = (rs, pending s')" by simp_all
    show ?thesis
    proof (cases "pending s")
      case Nil
      with get_empty [OF Cons.prems] g have "r = None" "pending t = []" by simp_all
      with Poll Nil g r rest show ?thesis by simp
    next
      case (Cons b bs)
      with get_cons [OF \<open>ok s\<close> Cons] g have "r = Some b" "pending t = bs" by simp_all
      with Poll Cons g r rest show ?thesis by simp
    qed
  qed
qed

end

end
