(* ===== verification/Interrupts.thy ===== *)
theory Interrupts
  imports Ports Memory
begin

text \<open>
  \<^verbatim>\<open>kernel/src/arch/i686/gdt.c\<close>, \<^verbatim>\<open>idt.c\<close> and the tables of \<^verbatim>\<open>isr.c\<close>: the segment descriptors, the interrupt
  gates, the programming of the two interrupt controllers, and the table of handlers. Loading
  the tables into the processor (\<^verbatim>\<open>gdt_flush\<close>, \<^verbatim>\<open>lidt\<close>) is an instruction; the pointer structures
  handed to it are results.
\<close>

section \<open>Segments\<close>

definition KERNEL_CODE_SELECTOR :: u16 where "KERNEL_CODE_SELECTOR = 0x08"
definition KERNEL_DATA_SELECTOR :: u16 where "KERNEL_DATA_SELECTOR = 0x10"

record gdt_entry =
  limit_low :: u16
  base_low :: u16
  base_middle :: u8
  access :: u8
  granularity :: u8
  base_high :: u8

record gdt_ptr =
  ptr_limit :: u16
  ptr_base :: u32

definition sizeof_gdt_entry :: nat where "sizeof_gdt_entry = 8"
definition sizeof_tss :: u32 where "sizeof_tss = 100"

definition gdt_set_gate :: "nat \<Rightarrow> u32 \<Rightarrow> u32 \<Rightarrow> u8 \<Rightarrow> u8 \<Rightarrow> gdt_entry list \<Rightarrow> gdt_entry list" where
  "gdt_set_gate num b l acc gran gdt_entries =
     (let e = gdt_entries ! num;
          e = e\<lparr>base_low := ucast (b AND 0xFFFF)\<rparr>;
          e = e\<lparr>base_middle := ucast (drop_bit 16 b AND 0xFF)\<rparr>;
          e = e\<lparr>base_high := ucast (drop_bit 24 b AND 0xFF)\<rparr>;
          e = e\<lparr>limit_low := ucast (l AND 0xFFFF)\<rparr>;
          e = e\<lparr>granularity := ucast (drop_bit 16 l AND 0x0F)\<rparr>;
          e = e\<lparr>granularity := granularity e OR (gran AND 0xF0)\<rparr>;
          e = e\<lparr>access := acc\<rparr>
      in gdt_entries[num := e])"

definition segmentation_init :: "addr \<Rightarrow> addr \<Rightarrow> gdt_entry list \<Rightarrow> u32 \<times> gdt_ptr \<times> gdt_entry list" where
  "segmentation_init entries_addr tss es =
     (let ptr = \<lparr>ptr_limit = of_nat (sizeof_gdt_entry * 6) - 1, ptr_base = entries_addr\<rparr>;
          es = gdt_set_gate 0 0 0 0 0 es;
          es = gdt_set_gate 1 0 0xFFFFFFFF 0x9A 0xC0 es;
          es = gdt_set_gate 2 0 0xFFFFFFFF 0x92 0xC0 es;
          es = gdt_set_gate 3 0 0xFFFFFFFF 0xF8 0xC0 es;
          es = gdt_set_gate 4 0 0xFFFFFFFF 0xF2 0xC0 es;
          es = gdt_set_gate 5 tss sizeof_tss 0xE9 0xC0 es
      in (EOK, ptr, es))"

section \<open>Gates\<close>

definition IDT_ENTRIES :: nat where "IDT_ENTRIES = 256"

definition low_16 :: "u32 \<Rightarrow> u16" where "low_16 address = ucast (address AND 0xFFFF)"
definition high_16 :: "u32 \<Rightarrow> u16" where "high_16 address = ucast (drop_bit 16 address AND 0xFFFF)"

record idt_gate =
  offset_low :: u16
  selector :: u16
  gate_reserved :: u8
  gate_flags :: u8
  offset_high :: u16

record idt_register =
  idt_limit :: u16
  idt_base :: u32

definition sizeof_idt_gate :: nat where "sizeof_idt_gate = 8"

definition set_idt_gate :: "nat \<Rightarrow> u32 \<Rightarrow> idt_gate list \<Rightarrow> idt_gate list" where
  "set_idt_gate n handler idt =
     idt[n := \<lparr>offset_low = low_16 handler, selector = KERNEL_CODE_SELECTOR, gate_reserved = 0, gate_flags = 0x8E,
               offset_high = high_16 handler\<rparr>]"

text \<open>
  \<^verbatim>\<open>isr_install\<close>: the 32 exception gates, the two controllers moved to vectors 32 and 40, the 16
  interrupt gates. \<open>isr n\<close> and \<open>irq n\<close> are the addresses of the assembly stubs.
\<close>

definition pic_setup :: "(u16 \<times> u8) list" where
  "pic_setup = [(0x20, 0x11), (0xA0, 0x11), (0x21, 0x20), (0xA1, 0x28), (0x21, 0x04), (0xA1, 0x02),
     (0x21, 0x01), (0xA1, 0x01), (0x21, 0x0), (0xA1, 0x0)]"

definition isr_install ::
  "(nat \<Rightarrow> addr) \<Rightarrow> (nat \<Rightarrow> addr) \<Rightarrow> 'd io_ports \<Rightarrow> idt_gate list \<Rightarrow> 'd \<Rightarrow> idt_gate list \<times> 'd" where
  "isr_install isr irq io idt d =
     (let idt = fold (\<lambda>n. set_idt_gate n (isr n)) [0..<32] idt;
          d = fold (\<lambda>(port, x). port_byte_out io port x) pic_setup d;
          idt = fold (\<lambda>n. set_idt_gate (32 + n) (irq n)) [0..<16] idt
      in (idt, d))"

definition interrupts_init ::
  "(nat \<Rightarrow> addr) \<Rightarrow> (nat \<Rightarrow> addr) \<Rightarrow> addr \<Rightarrow> 'd io_ports \<Rightarrow> idt_gate list \<Rightarrow> 'd \<Rightarrow> u32 \<times> idt_register \<times> idt_gate list \<times> 'd" where
  "interrupts_init isr irq idt_addr io idt d =
     (let (idt, d) = isr_install isr irq io idt d
      in (EOK, \<lparr>idt_limit = of_nat (IDT_ENTRIES * sizeof_idt_gate - 1), idt_base = idt_addr\<rparr>, idt, d))"

definition register_interrupt_handler :: "addr list \<Rightarrow> u8 \<Rightarrow> addr \<Rightarrow> addr list" where
  "register_interrupt_handler interrupt_handlers n handler = interrupt_handlers[unat n := handler]"

section \<open>What the processor reads\<close>

text \<open>The base, limit and flags the processor takes from a descriptor, and the address from a gate.\<close>

definition segment_base :: "gdt_entry \<Rightarrow> u32" where
  "segment_base e = ucast (base_low e) OR push_bit 16 (ucast (base_middle e)) OR push_bit 24 (ucast (base_high e))"

definition segment_limit :: "gdt_entry \<Rightarrow> u32" where
  "segment_limit e = ucast (limit_low e) OR push_bit 16 (ucast (granularity e AND 0x0F))"

definition gate_offset :: "idt_gate \<Rightarrow> u32" where
  "gate_offset g = ucast (offset_low g) OR push_bit 16 (ucast (offset_high g))"

lemma mask_words:
  "(0xFFFF :: u32) = mask 16" "(0xFF :: u32) = mask 8" "(0x0F :: u32) = mask 4"
  "(0x0F :: u8) = mask 4" "(0xF0 :: u8) = NOT (mask 4)" "(0xFFFFF :: u32) = mask 20"
  by (simp_all add: mask_eq_exp_minus_1)

lemma not_bit_above: "LENGTH('a) \<le> k \<Longrightarrow> \<not> bit (x :: 'a::len word) k"
  by (auto dest: bit_imp_le_length)

text \<open>
  What \<open>gdt_set_gate\<close> packs into a descriptor is what the processor unpacks: the base, the low 20
  bits of the limit, the access byte and the flags of the high nibble; other descriptors keep
  their value.
\<close>
theorem gdt_set_gate_decodes:
  fixes b l :: u32 and acc gran :: u8
  assumes "num < length es"
  defines "e \<equiv> gdt_set_gate num b l acc gran es ! num"
  shows "segment_base e = b \<and> segment_limit e = l AND 0xFFFFF \<and> access e = acc
    \<and> granularity e AND 0xF0 = gran AND 0xF0 \<and> (\<forall>k. k \<noteq> num \<longrightarrow> gdt_set_gate num b l acc gran es ! k = es ! k)"
proof -
  have e: "access e = acc"
      "base_low e = ucast (b AND 0xFFFF)" "base_middle e = ucast (drop_bit 16 b AND 0xFF)"
      "base_high e = ucast (drop_bit 24 b AND 0xFF)" "limit_low e = ucast (l AND 0xFFFF)"
      "granularity e = ucast (drop_bit 16 l AND 0x0F) OR (gran AND 0xF0)"
    using assms(1) by (simp_all add: e_def gdt_set_gate_def Let_def)
  have "segment_base e = b"
    unfolding segment_base_def e mask_words
  proof (rule bit_word_eqI)
    fix n assume "n < LENGTH(32)"
    then show "bit (ucast (ucast (b AND mask 16) :: u16) OR push_bit 16 (ucast (ucast (drop_bit 16 b AND mask 8) :: u8))
        OR push_bit 24 (ucast (ucast (drop_bit 24 b AND mask 8) :: u8)) :: u32) n = bit b n"
      by (cases "n < 24") (auto simp: bit_simps not_bit_above)
  qed
  moreover have "segment_limit e = l AND 0xFFFFF"
    unfolding segment_limit_def e mask_words
    by (rule bit_word_eqI) (auto simp: bit_simps not_bit_above)
  moreover have "granularity e AND 0xF0 = gran AND 0xF0"
    unfolding e mask_words by (rule bit_word_eqI) (auto simp: bit_simps not_bit_above)
  ultimately show ?thesis by (simp add: e gdt_set_gate_def Let_def)
qed

theorem gdt_set_gate_decodes_witness:
  "segment_base (gdt_set_gate 5 0x12345678 100 0xE9 0xC0 (replicate 6 undefined) ! 5) = 0x12345678"
  using gdt_set_gate_decodes [of 5 "replicate 6 undefined" "0x12345678" 100 "0xE9" "0xC0"] by simp

lemma gate_offset_handler:
  "gate_offset \<lparr>offset_low = low_16 h, selector = s, gate_reserved = r, gate_flags = f, offset_high = high_16 h\<rparr> = h"
  unfolding gate_offset_def low_16_def high_16_def mask_words idt_gate.simps
  by (rule bit_word_eqI) (auto simp: bit_simps not_bit_above)

lemma fold_set_idt_gate:
  "length (fold (\<lambda>n. set_idt_gate (b + n) (f n)) [0..<k] idt) = length idt"
  "b + k \<le> length idt \<Longrightarrow> fold (\<lambda>n. set_idt_gate (b + n) (f n)) [0..<k] idt ! j =
    (if b \<le> j \<and> j < b + k then set_idt_gate j (f (j - b)) idt ! j else idt ! j)"
  by (induction k arbitrary: j) (auto simp: set_idt_gate_def nth_list_update less_Suc_eq)

text \<open>
  C33. After \<open>interrupts_init\<close> each of the first 48 gates leads to its stub, the exceptions to \<open>isr\<close> and
  the vectors from 32 on to \<open>irq\<close>, in the kernel code segment with the flags of a present
  interrupt gate; the other gates are as before, and the limit spans the whole table.
\<close>
theorem interrupts_init_gates:
  assumes "length idt = IDT_ENTRIES" "interrupts_init isr irq idt_addr io idt d = (res, reg, idt', d')"
  shows "res = EOK \<and> length idt' = IDT_ENTRIES \<and> idt_base reg = idt_addr \<and> idt_limit reg = 2047
    \<and> (\<forall>n < 48. gate_offset (idt' ! n) = (if n < 32 then isr n else irq (n - 32))
         \<and> selector (idt' ! n) = KERNEL_CODE_SELECTOR \<and> gate_flags (idt' ! n) = 0x8E)
    \<and> (\<forall>n. 48 \<le> n \<longrightarrow> idt' ! n = idt ! n)"
proof -
  define idt1 where "idt1 = fold (\<lambda>n. set_idt_gate (0 + n) (isr n)) [0..<32] idt"
  have idt': "idt' = fold (\<lambda>n. set_idt_gate (32 + n) (irq n)) [0..<16] idt1"
    using assms(2) by (simp add: interrupts_init_def isr_install_def Let_def idt1_def del: upt_Suc fold.simps upt_rec_numeral)
  have l: "length idt = 256" "length idt1 = 256"
    using assms(1) by (simp_all only: idt1_def fold_set_idt_gate(1) IDT_ENTRIES_def)
  have one: "idt1 ! j = (if j < 32 then set_idt_gate j (isr j) idt ! j else idt ! j)" for j
    using l fold_set_idt_gate(2) [of 0 32 idt isr j] by (simp add: idt1_def del: upt_rec_numeral)
  have two: "idt' ! j = (if 32 \<le> j \<and> j < 48 then set_idt_gate j (irq (j - 32)) idt1 ! j else idt1 ! j)" for j
    using l fold_set_idt_gate(2) [of 32 16 idt1 irq j] by (simp add: idt' del: upt_rec_numeral)
  have "length idt' = 256" using l by (simp add: idt' fold_set_idt_gate del: upt_rec_numeral)
  moreover have "res = EOK" "idt_base reg = idt_addr" "idt_limit reg = 2047"
    using assms(2) by (auto simp: interrupts_init_def IDT_ENTRIES_def sizeof_idt_gate_def split: prod.splits)
  moreover have "gate_offset (idt' ! n) = (if n < 32 then isr n else irq (n - 32))
         \<and> selector (idt' ! n) = KERNEL_CODE_SELECTOR \<and> gate_flags (idt' ! n) = 0x8E" if "n < 48" for n
    using that l by (cases "n < 32") (simp_all add: two one set_idt_gate_def gate_offset_handler)
  moreover have "idt' ! n = idt ! n" if "48 \<le> n" for n
    using that by (simp add: two one)
  ultimately show ?thesis by (simp add: IDT_ENTRIES_def)
qed

theorem interrupts_init_gates_witness:
  "\<exists>reg idt' d'. interrupts_init (\<lambda>n. 0x1000 + of_nat n) (\<lambda>n. 0x2000 + of_nat n) 0x8000
       \<lparr>in8 = \<lambda>p d. (0, d), out8 = \<lambda>p x d. d @ [x], in16 = \<lambda>p d. (0, d), out16 = \<lambda>p x d. d,
        in32 = \<lambda>p d. (0, d), out32 = \<lambda>p x d. d\<rparr> (replicate 256 undefined) [] = (EOK, reg, idt', d')
     \<and> gate_offset (idt' ! 33) = 0x2001"
proof -
  obtain res reg idt' d' where run: "interrupts_init (\<lambda>n. 0x1000 + of_nat n) (\<lambda>n. 0x2000 + of_nat n) 0x8000
       \<lparr>in8 = \<lambda>p d. (0, d), out8 = \<lambda>p x d. d @ [x], in16 = \<lambda>p d. (0, d), out16 = \<lambda>p x d. d,
        in32 = \<lambda>p d. (0, d), out32 = \<lambda>p x d. d\<rparr> (replicate 256 undefined) [] = (res, reg, idt', d')"
    by (metis prod_cases4)
  have "length (replicate 256 undefined :: idt_gate list) = IDT_ENTRIES" by (simp add: IDT_ENTRIES_def)
  from interrupts_init_gates [OF this run] have "res = EOK" "gate_offset (idt' ! 33) = 0x2001" by simp_all
  with run show ?thesis by blast
qed

end
