(* ===== verification/Keyboard.thy ===== *)
theory Keyboard
  imports Input_Device Interrupts Kernel_State
begin

text \<open>
  \<^verbatim>\<open>kernel/src/dev/input/keyboard_ps2/keyboard.c\<close>: the interrupt handler stores scan codes in a buffer
  of 256 bytes, \<^verbatim>\<open>keyboard_ps2_get_event\<close> takes the oldest one and shifts the rest.
\<close>

record keyboard =
  keycache :: addr
  key_loc :: u16
  key_char :: u8

text \<open>The handler reads port 0x60 only when there is room.\<close>

definition keyboard_irq :: "'d io_ports \<Rightarrow> keyboard \<Rightarrow> mem \<Rightarrow> 'd \<Rightarrow> keyboard \<times> mem \<times> 'd" where
  "keyboard_irq io kb m d =
     (if key_loc kb \<ge> 255 then (kb, m, d)
      else let (b, d) = port_byte_in io 0x60 d
           in (kb\<lparr>key_loc := key_loc kb + 1\<rparr>, m(keycache kb + ucast (key_loc kb) := b), d))"

primrec shift_loop :: "addr \<Rightarrow> u32 \<Rightarrow> nat \<Rightarrow> mem \<Rightarrow> mem" where
  "shift_loop cache i 0 m = m"
| "shift_loop cache i (Suc n) m = shift_loop cache (i + 1) n (m(cache + i := m (cache + (i + 1))))"

definition keyboard_ps2_get_event ::
  "input_device_event \<Rightarrow> keyboard \<times> mem \<Rightarrow> u32 \<times> input_device_event \<times> keyboard \<times> mem" where
  "keyboard_ps2_get_event event = (\<lambda>(kb, m).
     (let kb = kb\<lparr>key_char := 0\<rparr> in
      if key_loc kb = 0 then (EOK, event\<lparr>ev_type := INPUT_EVENT_NONE\<rparr>, kb, m)
      else
        let kb = kb\<lparr>key_char := m (keycache kb), key_loc := key_loc kb - 1\<rparr>;
            m = shift_loop (keycache kb) 0 256 m
        in (EOK, event\<lparr>ev_type := INPUT_EVENT_KEY, ev_data := (ev_data event)[0 := scast (key_char kb)]\<rparr>, kb, m)))"

definition keyboard_ps2_init ::
  "'d kenv \<Rightarrow> addr list \<Rightarrow> keyboard \<Rightarrow> mem \<Rightarrow> ((keyboard \<times> mem) input_device \<times> u32 \<times> addr list \<times> keyboard \<times> mem) run" where
  "keyboard_ps2_init env handlers kb m =
     rbind (kmalloc m (heap_of env) 256) (\<lambda>(cache, m).
       let kb = kb\<lparr>keycache := cache\<rparr>;
           m = memset m cache 0 256;
           handlers = register_interrupt_handler handlers 33 (link env ''keyboard_irq'')
       in Some (Ret (\<lparr>get_event_fn = keyboard_ps2_get_event, idev_private_data = 0\<rparr>, EOK, handlers, kb, m)))"

section \<open>The buffer as a queue\<close>

lemma shift_loop_bytes:
  "i + n \<le> 2 ^ 31 \<Longrightarrow> j < 2 ^ 32 \<Longrightarrow> shift_loop cache (of_nat i) n m (cache + of_nat j) =
     (if i \<le> j \<and> j < i + n then m (cache + of_nat (Suc j)) else m (cache + of_nat j))"
proof (induction n arbitrary: i m)
  case 0
  then show ?case by auto
next
  case (Suc n)
  let ?m = "m(cache + of_nat i := m (cache + of_nat (Suc i)))"
  have eq: "shift_loop cache (of_nat i) (Suc n) m (cache + of_nat j) =
      (if Suc i \<le> j \<and> j < Suc i + n then ?m (cache + of_nat (Suc j)) else ?m (cache + of_nat j))"
  proof -
    have "shift_loop cache (of_nat i) (Suc n) m = shift_loop cache (of_nat (Suc i)) n ?m" by (simp add: add.commute)
    then show ?thesis by (simp only:) (rule Suc.IH; use Suc.prems in simp)
  qed
  have at: "cache + of_nat k = cache + of_nat i \<longleftrightarrow> k = i" if "k < 2 ^ 32" for k
    using that Suc.prems by (simp add: of_nat_u32_inj)
  have "Suc j < 2 ^ 32" if "j < Suc i + n" using that Suc.prems by simp
  with at [of j] at [of "Suc j"] Suc.prems show ?case
    unfolding eq by (auto simp del: of_nat_Suc)
qed

text \<open>
  The states in which the counter is in range, and the bytes waiting in them. One byte goes in
  by an interrupt while the controller offers it at port 0x60, and out by a poll.
\<close>

definition keyboard_ok :: "keyboard \<times> mem \<Rightarrow> bool" where
  "keyboard_ok s \<longleftrightarrow> key_loc (fst s) \<le> 255"

definition keyboard_pending :: "keyboard \<times> mem \<Rightarrow> u8 list" where
  "keyboard_pending s = bytes_at (snd s) (keycache (fst s)) (unat (key_loc (fst s)))"

definition scan_port :: "u8 io_ports" where
  "scan_port = \<lparr>in8 = \<lambda>port d. (if port = 0x60 then d else 0, d), out8 = \<lambda>port x d. d, in16 = \<lambda>port d. (0, d),
     out16 = \<lambda>port x d. d, in32 = \<lambda>port d. (0, d), out32 = \<lambda>port x d. d\<rparr>"

definition keyboard_put :: "u8 \<Rightarrow> keyboard \<times> mem \<Rightarrow> keyboard \<times> mem" where
  "keyboard_put b s = (let (kb, m, _) = keyboard_irq scan_port (fst s) (snd s) b in (kb, m))"

definition keyboard_poll :: "keyboard \<times> mem \<Rightarrow> u8 option \<times> keyboard \<times> mem" where
  "keyboard_poll s = (let (_, event, s') = keyboard_ps2_get_event no_event s
     in (if ev_type event = INPUT_EVENT_KEY then Some (key_char (fst s')) else None, s'))"

lemma keyboard_put_pending:
  assumes "keyboard_ok s"
  shows "keyboard_ok (keyboard_put b s)"
    "keyboard_pending (keyboard_put b s) =
       (if length (keyboard_pending s) < 255 then keyboard_pending s @ [b] else keyboard_pending s)"
proof -
  obtain kb m where s: "s = (kb, m)" by fastforce
  define n where "n = unat (key_loc kb)"
  have le: "n \<le> 255" using assms by (simp add: s n_def keyboard_ok_def word_le_nat_alt)
  show "keyboard_ok (keyboard_put b s)" (is ?ok) 
    "keyboard_pending (keyboard_put b s) =
       (if length (keyboard_pending s) < 255 then keyboard_pending s @ [b] else keyboard_pending s)" (is ?pending)
  proof -
    have "?ok \<and> ?pending"
    proof (cases "n = 255")
      case True
      then have "key_loc kb \<ge> 255" by (simp add: n_def word_le_nat_alt)
      then have "keyboard_put b s = s" by (simp add: keyboard_put_def s keyboard_irq_def)
      then show ?thesis using assms True by (simp add: keyboard_pending_def s n_def)
    next
      case False
      with le have lt: "n < 255" by simp
      then have "\<not> key_loc kb \<ge> 255" by (simp add: n_def word_le_nat_alt)
      then have put: "keyboard_put b s = (kb\<lparr>key_loc := key_loc kb + 1\<rparr>, m(keycache kb + of_nat n := b))"
        by (simp add: keyboard_put_def s keyboard_irq_def port_byte_in_def scan_port_def n_def)
      have n1: "unat (key_loc kb + 1) = Suc n" using lt by (simp add: n_def unat_word_ariths)
      have "bytes_at (m(keycache kb + of_nat n := b)) (keycache kb) (Suc n) = bytes_at m (keycache kb) n @ [b]"
        using lt by (intro nth_equalityI) (auto simp: nth_append less_Suc_eq of_nat_u32_inj)
      then show ?thesis
        using lt n1 by (simp add: put [unfolded s] keyboard_ok_def keyboard_pending_def s n_def [symmetric] word_le_nat_alt)
    qed
    then show ?ok ?pending by blast+
  qed
qed

lemma keyboard_poll_empty:
  assumes "keyboard_pending s = []"
  shows "fst (keyboard_poll s) = None \<and> keyboard_pending (snd (keyboard_poll s)) = [] \<and> (keyboard_ok s \<longrightarrow> keyboard_ok (snd (keyboard_poll s)))"
proof -
  obtain kb m where s: "s = (kb, m)" by fastforce
  from arg_cong [OF assms, of length] have "key_loc kb = 0" by (simp add: s keyboard_pending_def unat_eq_0)
  then have "keyboard_poll s = (None, kb\<lparr>key_char := 0\<rparr>, m)"
    by (simp add: s keyboard_poll_def keyboard_ps2_get_event_def no_event_def)
  with assms show ?thesis by (simp add: s keyboard_pending_def keyboard_ok_def)
qed

lemma keyboard_poll_cons:
  assumes "keyboard_ok s" "keyboard_pending s = b # bs"
  shows "fst (keyboard_poll s) = Some b \<and> keyboard_pending (snd (keyboard_poll s)) = bs"
proof -
  obtain kb m where s: "s = (kb, m)" by fastforce
  define n where "n = unat (key_loc kb)"
  have pending: "bytes_at m (keycache kb) n = b # bs" using assms(2) by (simp add: s keyboard_pending_def n_def)
  from arg_cong [OF this, of length] have n: "n = Suc (length bs)" by simp
  have le: "n \<le> 255" using assms(1) by (simp add: s n_def keyboard_ok_def word_le_nat_alt)
  have nz: "key_loc kb \<noteq> 0" using n by (auto simp: n_def)
  have n1: "unat (key_loc kb - 1) = length bs" using unat_Suc_pred [OF nz] n by (simp add: n_def)
  let ?m = "shift_loop (keycache kb) 0 256 m"
  have poll: "keyboard_poll s =
      (Some (m (keycache kb)), kb\<lparr>key_char := m (keycache kb), key_loc := key_loc kb - 1\<rparr>, ?m)"
    using nz by (simp add: keyboard_poll_def keyboard_ps2_get_event_def s Let_def)
  have "m (keycache kb) = b"
    using arg_cong [OF pending, of "\<lambda>xs. xs ! 0"] n by simp
  moreover have "bytes_at ?m (keycache kb) (length bs) = bs"
  proof (rule nth_equalityI)
    fix j assume "j < length (bytes_at ?m (keycache kb) (length bs))"
    then have j: "j < length bs" by simp
    have "?m (keycache kb + of_nat j) = m (keycache kb + of_nat (Suc j))"
      using shift_loop_bytes [of 0 256 j "keycache kb" m] j n le by simp
    also have "\<dots> = (b # bs) ! Suc j"
      using j n by (simp only: pending [symmetric]) simp
    finally show "bytes_at ?m (keycache kb) (length bs) ! j = bs ! j" using j by simp
  qed simp
  ultimately show ?thesis by (simp add: poll keyboard_pending_def n1)
qed

lemma keyboard_poll_ok: "keyboard_ok s \<Longrightarrow> keyboard_ok (snd (keyboard_poll s))"
proof (cases "keyboard_pending s")
  case Nil
  then show "keyboard_ok s \<Longrightarrow> keyboard_ok (snd (keyboard_poll s))" using keyboard_poll_empty by blast
next
  case (Cons b bs)
  assume ok: "keyboard_ok s"
  from keyboard_poll_cons [OF ok Cons] have "keyboard_pending (snd (keyboard_poll s)) = bs" by simp
  then have "unat (key_loc (fst (snd (keyboard_poll s)))) = length bs"
    by (auto simp: keyboard_pending_def dest: arg_cong [of _ _ length])
  moreover have "length bs \<le> 255"
    using arg_cong [OF Cons, of length] ok by (simp add: keyboard_pending_def keyboard_ok_def word_le_nat_alt)
  ultimately show "keyboard_ok (snd (keyboard_poll s))" by (simp add: keyboard_ok_def word_le_nat_alt)
qed

interpretation keyboard_queue: event_queue keyboard_put keyboard_poll keyboard_pending keyboard_ok 255
  by unfold_locales
    (simp_all add: keyboard_put_pending keyboard_poll_ok keyboard_poll_empty keyboard_poll_cons)



text \<open>
  The interrupt with a full buffer returns without reading port 0x60: buffer and controller stay
  as they are, so the waiting byte is never fetched and no further one arrives.
\<close>

lemma keyboard_irq_full:
  "key_loc kb \<ge> 255 \<Longrightarrow> keyboard_irq io kb m d = (kb, m, d)"
  by (simp add: keyboard_irq_def)

text \<open>
  The event carries the scan code through a signed \<^verbatim>\<open>char\<close>: codes from 0x80 on, the releases, arrive
  with their upper 24 bits set.
\<close>

lemma scast_u8: "(scast b :: u32) = (if b < 0x80 then ucast b else ucast b + 0xFFFFFF00)" for b :: u8
proof -
  have "(scast b :: u32) = word_of_int (sint b)" "(ucast b :: u32) = word_of_int (uint b)" by simp_all
  then show ?thesis by (simp add: sint_u8 wi_hom_sub [symmetric])
qed

lemma keyboard_event_data:
  assumes "key_loc kb \<noteq> 0"
  shows "ev_data (fst (snd (keyboard_ps2_get_event no_event (kb, m)))) ! 0
    = (if m (keycache kb) < 0x80 then ucast (m (keycache kb)) else ucast (m (keycache kb)) + 0xFFFFFF00)"
  using assms by (simp add: keyboard_ps2_get_event_def Let_def no_event_def scast_u8)

end
