(* ===== verification/Task.thy ===== *)
theory Task
  imports Fat32 Heap_Init
begin

text \<open>
  \<^verbatim>\<open>kernel/src/sys/task.c\<close>: the doubly linked list of tasks, switching between them, and the start
  of the first one. Tasks are structures in memory, accessed by field offset; their registers
  are 12 words in the order of \<^verbatim>\<open>task_registers_t\<close>. The record \<open>sys\<close> is the state of the kernel
  above the file system: the shared state, page allocator, paging registers, and the globals
  of tasks and processes.
\<close>

section \<open>State\<close>

definition KERNEL_TASK_VADDR :: addr where "KERNEL_TASK_VADDR = 0x400000"
definition KERNEL_TASK_STACK_VADDR :: addr where "KERNEL_TASK_STACK_VADDR = 0x3FF000"
definition KERNEL_TASK_STACK_SIZE :: u32 where "KERNEL_TASK_STACK_SIZE = 1024 * 16"
definition USER_CODE_SELECTOR :: u32 where "USER_CODE_SELECTOR = 0x1B"
definition USER_DATA_SELECTOR :: u32 where "USER_DATA_SELECTOR = 0x23"

record 'd sys =
  base :: "'d kstate"
  frames :: page_allocator_info
  paging :: paging_state
  current_task :: addr
  task_tail :: addr
  task_head :: addr
  kernel_page_directory :: addr
  current_process :: addr
  processes :: "addr list"
  segment_registers :: u16

definition sys_ram :: "'d sys \<Rightarrow> mem" where "sys_ram s = ram (base s)"

definition set_ram :: "mem \<Rightarrow> 'd sys \<Rightarrow> 'd sys" where
  "set_ram m s = s\<lparr>base := (base s)\<lparr>ram := m\<rparr>\<rparr>"

definition on_base :: "('d kstate \<Rightarrow> ('a \<times> 'd kstate) run) \<Rightarrow> 'd sys \<Rightarrow> ('a \<times> 'd sys) run" where
  "on_base f s = rbind (f (base s)) (\<lambda>(x, b). Some (Ret (x, s\<lparr>base := b\<rparr>)))"

text \<open>Fields of the task at \<open>t\<close>.\<close>

definition task_page_directory :: "mem \<Rightarrow> addr \<Rightarrow> addr" where "task_page_directory m t = load32 m t"
definition task_process :: "mem \<Rightarrow> addr \<Rightarrow> addr" where "task_process m t = load32 m (t + 52)"
definition task_next :: "mem \<Rightarrow> addr \<Rightarrow> addr" where "task_next m t = load32 m (t + 56)"
definition task_prev :: "mem \<Rightarrow> addr \<Rightarrow> addr" where "task_prev m t = load32 m (t + 60)"

definition sizeof_task :: u32 where "sizeof_task = 64"

section \<open>Creation\<close>

definition task_init :: "addr \<Rightarrow> addr \<Rightarrow> 'd sys \<Rightarrow> (u32 \<times> 'd sys) outcome" where
  "task_init task process s =
     (let m = memset (sys_ram s) task 0 sizeof_task in
      obind (page_directory_create m (frames s) (ucast (PAGING_IS_PRESENT OR PAGING_ACCESS_FROM_ALL)))
        (\<lambda>(directory, pa, m).
          let m = store32 m task directory; s = (set_ram m s)\<lparr>frames := pa\<rparr>
          in if directory = NULL then Ret (ENOMEM, s)
             else
               let m = store32 m (task + 32) KERNEL_TASK_VADDR;
                   m = store32 m (task + 48) USER_DATA_SELECTOR;
                   m = store32 m (task + 36) USER_CODE_SELECTOR;
                   m = store32 m (task + 44) KERNEL_TASK_STACK_VADDR;
                   m = store32 m (task + 52) process
               in Ret (EOK, set_ram m s)))"

text \<open>The end of \<^verbatim>\<open>task_new\<close>: the task becomes the last of the list.\<close>

definition task_append :: "addr \<Rightarrow> 'd sys \<Rightarrow> 'd sys" where
  "task_append task s =
     (if task_head s = NULL then s\<lparr>task_head := task, task_tail := task, current_task := task\<rparr>
      else
        let m = store32 (sys_ram s) (task_tail s + 56) task;
            m = store32 m (task + 60) (task_tail s)
        in (set_ram m s)\<lparr>task_tail := task\<rparr>)"

definition task_new :: "'d kenv \<Rightarrow> addr \<Rightarrow> 'd sys \<Rightarrow> (addr \<times> 'd sys) run" where
  "task_new env process s =
     rbind (on_base (alloc env sizeof_task) s) (\<lambda>(task, s).
       if task = NULL then Some (Ret (NULL, s))
       else rbind (Some (task_init task process s)) (\<lambda>(res, s).
         if res \<noteq> EOK then Some (Ret (NULL, set_ram (kfree (sys_ram s) task) s))
         else Some (Ret (task, task_append task s))))"

section \<open>Switching\<close>

definition task_get_next :: "'d sys \<Rightarrow> addr" where
  "task_get_next s =
     (if task_next (sys_ram s) (current_task s) = NULL then task_head s
      else task_next (sys_ram s) (current_task s))"

definition task_list_remove :: "addr \<Rightarrow> 'd sys \<Rightarrow> 'd sys" where
  "task_list_remove task s =
     (let m = sys_ram s;
          s = (if task_prev m task \<noteq> NULL then set_ram (store32 m (task_prev m task + 56) (task_next m task)) s else s);
          m = sys_ram s;
          s = (if task = task_head s then s\<lparr>task_head := task_next m task\<rparr> else s);
          s = (if task = task_tail s then s\<lparr>task_tail := task_prev m task\<rparr> else s)
      in if task = current_task s then s\<lparr>current_task := task_get_next s\<rparr> else s)"

definition task_free :: "addr \<Rightarrow> 'd sys \<Rightarrow> 'd sys" where
  "task_free task s =
     (let (pa, m) = page_directory_free (sys_ram s) (frames s) (task_page_directory (sys_ram s) task);
          s = task_list_remove task ((set_ram m s)\<lparr>frames := pa\<rparr>)
      in set_ram (kfree (sys_ram s) task) s)"

definition task_switch :: "addr \<Rightarrow> 'd sys \<Rightarrow> u32 \<times> 'd sys" where
  "task_switch task s =
     (EOK, s\<lparr>current_task := task, paging := paging_switch_directory (paging s) (task_page_directory (sys_ram s) task)\<rparr>)"

text \<open>\<^verbatim>\<open>user_registers\<close> loads the user data selector into the segment registers.\<close>

definition user_registers :: "'d sys \<Rightarrow> 'd sys" where
  "user_registers s = s\<lparr>segment_registers := 0x23\<rparr>"

definition task_page :: "'d sys \<Rightarrow> u32 \<times> 'd sys" where
  "task_page s = task_switch (current_task s) (user_registers s)"

text \<open>
  \<^verbatim>\<open>restore_gp_registers\<close> loads the general purpose registers. The frame \<^verbatim>\<open>task_return\<close> hands to
  \<^verbatim>\<open>iretd\<close> comes from the same copy of the registers: instruction pointer, code segment, the
  current flags with interrupts enabled, stack pointer and stack segment.
\<close>

record gp_registers =
  gp_edi :: u32
  gp_esi :: u32
  gp_ebp :: u32
  gp_ebx :: u32
  gp_edx :: u32
  gp_ecx :: u32
  gp_eax :: u32

definition restore_gp_registers :: "mem \<Rightarrow> addr \<Rightarrow> gp_registers" where
  "restore_gp_registers m regs =
     \<lparr>gp_edi = load32 m regs, gp_esi = load32 m (regs + 4), gp_ebp = load32 m (regs + 8), gp_ebx = load32 m (regs + 12),
      gp_edx = load32 m (regs + 16), gp_ecx = load32 m (regs + 20), gp_eax = load32 m (regs + 24)\<rparr>"

record iret_frame =
  iret_eip :: u32
  iret_cs :: u32
  iret_eflags :: u32
  iret_esp :: u32
  iret_ss :: u32
  iret_gp :: gp_registers

definition task_return :: "mem \<Rightarrow> addr \<Rightarrow> u32 \<Rightarrow> iret_frame" where
  "task_return m regs flags =
     \<lparr>iret_eip = load32 m (regs + 28), iret_cs = load32 m (regs + 32), iret_eflags = flags OR 0x200,
      iret_esp = load32 m (regs + 40), iret_ss = load32 m (regs + 44),
      iret_gp = restore_gp_registers m regs\<rparr>"

definition task_run_first_task :: "'d kenv \<Rightarrow> u32 \<Rightarrow> 'd sys \<Rightarrow> (iret_frame \<times> 'd sys) outcome" where
  "task_run_first_task env flags s =
     (if task_head s = NULL then Panic ''task_run_first_task: task_head is NULL''
      else
        let s = s\<lparr>current_task := task_head s\<rparr>;
            regs = local env ''task_run_first_task.regs'';
            s = set_ram (memcpy (sys_ram s) regs (task_head s + 4) 48) s;
            (_, s) = task_switch (task_head s) s;
            frame = task_return (sys_ram s) regs flags
        in Ret (frame, s\<lparr>segment_registers := ucast (iret_ss frame)\<rparr>))"

section \<open>The list\<close>

text \<open>
  The tasks \<open>ts\<close> are linked forward in their order; \<open>linked_back\<close> says the same of the \<^verbatim>\<open>prev\<close>
  pointers. Different tasks do not overlap.
\<close>

definition task_at :: "addr list \<Rightarrow> nat \<Rightarrow> addr" where
  "task_at ts i = (if i < length ts then ts ! i else NULL)"

definition linked :: "mem \<Rightarrow> addr list \<Rightarrow> bool" where
  "linked m ts \<longleftrightarrow> (\<forall>i < length ts. task_next m (ts ! i) = task_at ts (i + 1))"

definition linked_back :: "mem \<Rightarrow> addr list \<Rightarrow> bool" where
  "linked_back m ts \<longleftrightarrow> (\<forall>i < length ts. task_prev m (ts ! i) = (if i = 0 then NULL else ts ! (i - 1)))"

definition separate :: "addr list \<Rightarrow> bool" where
  "separate ts \<longleftrightarrow> NULL \<notin> set ts \<and> distinct ts
     \<and> (\<forall>i < length ts. \<forall>j < length ts. i \<noteq> j \<longrightarrow> disjoint_regions (ts ! i) 64 (ts ! j) 64)"

definition task_list :: "'d sys \<Rightarrow> addr list \<Rightarrow> bool" where
  "task_list s ts \<longleftrightarrow> linked (sys_ram s) ts \<and> linked_back (sys_ram s) ts \<and> separate ts
     \<and> (if ts = [] then task_head s = NULL
        else task_head s = hd ts \<and> task_tail s = last ts \<and> current_task s \<in> set ts)"


lemma sys_ram_set_ram [simp]: "sys_ram (set_ram m s) = m"
  by (simp add: sys_ram_def set_ram_def)

lemma set_ram_fields [simp]:
  "task_head (set_ram m s) = task_head s" "task_tail (set_ram m s) = task_tail s"
  "current_task (set_ram m s) = current_task s"
  by (simp_all add: set_ram_def)

lemma sys_ram_update [simp]:
  "sys_ram (s\<lparr>task_head := x\<rparr>) = sys_ram s" "sys_ram (s\<lparr>task_tail := x\<rparr>) = sys_ram s"
  "sys_ram (s\<lparr>current_task := x\<rparr>) = sys_ram s" "sys_ram (s\<lparr>paging := p\<rparr>) = sys_ram s"
  by (simp_all add: sys_ram_def)

text \<open>The fields of one task do not overlap, nor do those of two separate tasks.\<close>

lemma in_field_in_task:
  "in_region (t + 52) 4 a \<Longrightarrow> in_region t 64 a" "in_region (t + 56) 4 a \<Longrightarrow> in_region t 64 a"
  "in_region (t + 60) 4 a \<Longrightarrow> in_region t 64 a"
  using in_region_add [of t 52 4 a] in_region_add [of t 56 4 a] in_region_add [of t 60 4 a]
  by (auto simp: in_region_def)

lemma disjoint_task_fields:
  assumes "disjoint_regions t 64 u 64" "i \<in> {56, 60}" "j \<in> {56, 60}"
  shows "disjoint_regions (t + i) 4 (u + j) 4"
proof -
  have "in_region t 64 a" if "in_region (t + i) 4 a" "i \<in> {56, 60}" for a t i
    using that in_field_in_task [of t a] by auto
  then show ?thesis using assms by (meson disjoint_regions_def)
qed

lemma next_prev_disjoint: "disjoint_regions (t + 56) 4 (t + 60) 4" "disjoint_regions (t + 60) 4 (t + 56) 4"
proof -
  have "\<not> in_region (t + 60) 4 a" if i: "in_region (t + 56) 4 a" for a
  proof -
    obtain j where "j < 4" "a = t + 56 + of_nat j" using i by (rule in_regionE)
    moreover from this(1) have "j \<in> {0, 1, 2, 3}" by auto
    ultimately show ?thesis by (auto simp: in_region_def unsigned_minus_1_eq_mask mask_eq_exp_minus_1)
  qed
  then show "disjoint_regions (t + 56) 4 (t + 60) 4" by (auto simp: disjoint_regions_def)
  then show "disjoint_regions (t + 60) 4 (t + 56) 4" by (rule disjoint_regions_sym)
qed

lemma set_next_fields:
  "task_next (store32 m (t + 56) v) t = v"
  "task_prev (store32 m (t + 56) v) t = task_prev m t"
  "disjoint_regions t 64 u 64 \<Longrightarrow> task_next (store32 m (t + 56) v) u = task_next m u"
  "disjoint_regions t 64 u 64 \<Longrightarrow> task_prev (store32 m (t + 56) v) u = task_prev m u"
  by (simp_all add: task_next_def task_prev_def load32_store32_other disjoint_task_fields next_prev_disjoint)

lemma set_prev_fields:
  "task_prev (store32 m (t + 60) v) t = v"
  "task_next (store32 m (t + 60) v) t = task_next m t"
  "disjoint_regions t 64 u 64 \<Longrightarrow> task_next (store32 m (t + 60) v) u = task_next m u"
  "disjoint_regions t 64 u 64 \<Longrightarrow> task_prev (store32 m (t + 60) v) u = task_prev m u"
  by (simp_all add: task_next_def task_prev_def load32_store32_other disjoint_task_fields next_prev_disjoint)

lemmas task_field_simps = set_next_fields set_prev_fields

lemma separateD: "separate ts \<Longrightarrow> i < length ts \<Longrightarrow> j < length ts \<Longrightarrow> i \<noteq> j \<Longrightarrow> disjoint_regions (ts ! i) 64 (ts ! j) 64"
  by (simp add: separate_def)

lemma separate_nth_eq: "separate ts \<Longrightarrow> i < length ts \<Longrightarrow> j < length ts \<Longrightarrow> ts ! i = ts ! j \<longleftrightarrow> i = j"
  by (auto simp: separate_def nth_eq_iff_index_eq)

lemma separate_NULL: "separate ts \<Longrightarrow> i < length ts \<Longrightarrow> ts ! i \<noteq> NULL"
  by (metis nth_mem separate_def)

lemma separate_snoc:
  assumes "separate ts" "t \<noteq> NULL" "t \<notin> set ts" "\<And>u. u \<in> set ts \<Longrightarrow> disjoint_regions u 64 t 64"
  shows "separate (ts @ [t])"
proof -
  have "disjoint_regions ((ts @ [t]) ! i) 64 ((ts @ [t]) ! j) 64"
    if "i < Suc (length ts)" "j < Suc (length ts)" "i \<noteq> j" for i j
  proof (cases "i < length ts")
    case True
    then show ?thesis
      using that assms(1) assms(4) [of "ts ! i"] by (cases "j < length ts") (simp_all add: separateD nth_append less_Suc_eq)
  next
    case False
    with that have "i = length ts" "j < length ts" by auto
    then show ?thesis
      using assms(4) [of "ts ! j"] by (simp add: nth_append disjoint_regions_sym)
  qed
  then show ?thesis using assms(1-3) by (simp add: separate_def)
qed

lemma linked_task_next: "linked m ts \<Longrightarrow> i < length ts \<Longrightarrow> task_next m (ts ! i) = task_at ts (i + 1)"
  by (simp add: linked_def)

lemma linked_back_task_prev:
  "linked_back m ts \<Longrightarrow> i < length ts \<Longrightarrow> task_prev m (ts ! i) = (if i = 0 then NULL else ts ! (i - 1))"
  by (simp add: linked_back_def)

text \<open>The pointers after the two stores of \<^verbatim>\<open>task_new\<close>.\<close>

lemma append_pointers:
  assumes l: "linked m ts" and b: "linked_back m ts" and sep: "separate (ts @ [t])" and ne: "ts \<noteq> []"
    and n: "task_next m t = NULL"
  defines "m' \<equiv> store32 (store32 m (last ts + 56) t) (t + 60) (last ts)"
  shows "linked m' (ts @ [t])" "linked_back m' (ts @ [t])"
proof -
  define k where "k = length ts - 1"
  have k: "k < length ts" "last ts = ts ! k" "Suc k = length ts"
    using ne by (auto simp: k_def last_conv_nth)
  have d: "disjoint_regions t 64 (ts ! i) 64" "disjoint_regions (ts ! i) 64 t 64" if "i < length ts" for i
    using separateD [OF sep, of "length ts" i] separateD [OF sep, of i "length ts"] that
    by (simp_all add: nth_append)
  have e: "disjoint_regions (ts ! k) 64 (ts ! i) 64" if "i < length ts" "i \<noteq> k" for i
    using separateD [OF sep, of k i] that k by (simp add: nth_append)
  have "task_next m' ((ts @ [t]) ! i) = task_at (ts @ [t]) (i + 1)" if "i < length (ts @ [t])" for i
  proof (cases "i < length ts")
    case True
    then show ?thesis
      using linked_task_next [OF l True] d [OF True] e [OF True] k
      by (cases "i = k") (auto simp: m'_def task_field_simps nth_append task_at_def)
  next
    case False
    with that have "i = length ts" by simp
    then show ?thesis
      using n d [OF k(1)] k by (simp add: m'_def task_field_simps task_at_def)
  qed
  then show "linked m' (ts @ [t])" by (simp only: linked_def) blast
  have "task_prev m' ((ts @ [t]) ! i) = (if i = 0 then NULL else (ts @ [t]) ! (i - 1))"
    if "i < length (ts @ [t])" for i
  proof (cases "i < length ts")
    case True
    then show ?thesis
      using linked_back_task_prev [OF b True] d [OF True] e [OF True] k
      by (cases "i = k") (auto simp: m'_def task_field_simps nth_append)
  next
    case False
    with that have i: "i = length ts" by simp
    then have "(ts @ [t]) ! (i - 1) = last ts" using ne k by (simp add: nth_append k_def)
    then show ?thesis using ne i by (simp add: m'_def task_field_simps)
  qed
  then show "linked_back m' (ts @ [t])" by (simp only: linked_back_def) blast
qed

lemma task_append_keeps:
  assumes "task_list s ts" "separate (ts @ [t])"
    and "task_next (sys_ram s) t = NULL" "task_prev (sys_ram s) t = NULL"
  shows "task_list (task_append t s) (ts @ [t])"
proof (cases "ts = []")
  case True
  then show ?thesis
    using assms by (auto simp: task_list_def task_append_def linked_def linked_back_def task_at_def)
next
  case False
  with assms(1) have "hd ts \<noteq> NULL" by (metis hd_in_set separate_def task_list_def)
  with False assms(1) have "task_head s \<noteq> NULL" "task_tail s = last ts" "task_head s = hd ts" "current_task s \<in> set ts"
    by (auto simp: task_list_def)
  then show ?thesis
    using False assms append_pointers [of "sys_ram s" ts t]
    by (simp add: task_list_def task_append_def Let_def)
qed

text \<open>
  C22. The end of \<open>task_new\<close> appends to the list: a task whose pointers are still null (as
  \<open>task_init\<close> leaves them) and which overlaps no listed task becomes the last one, with both
  directions of links intact; on an empty list it becomes the current task.
\<close>
theorem task_append_list:
  assumes "task_list s ts" "separate (ts @ [t])"
    and "task_next (sys_ram s) t = NULL" "task_prev (sys_ram s) t = NULL"
  shows "task_list (task_append t s) (ts @ [t])"
  using assms by (rule task_append_keeps)

section \<open>Turns\<close>

text \<open>One turn: the next task becomes the current one.\<close>

definition task_turn :: "'d sys \<Rightarrow> 'd sys" where
  "task_turn s = snd (task_switch (task_get_next s) s)"

lemma task_turn_step:
  assumes l: "task_list s ts" and c: "current_task s = ts ! i" "i < length ts"
  shows "task_list (task_turn s) ts \<and> current_task (task_turn s) = ts ! (Suc i mod length ts)"
proof -
  have ne: "ts \<noteq> []" using c by auto
  have n: "task_next (sys_ram s) (ts ! i) = task_at ts (i + 1)"
    using l c(2) linked_task_next by (auto simp: task_list_def)
  have "task_get_next s = ts ! (Suc i mod length ts)"
  proof (cases "Suc i < length ts")
    case True
    then show ?thesis
      using l n c separate_NULL [of ts "Suc i"] by (simp add: task_get_next_def task_at_def task_list_def)
  next
    case False
    with c have "Suc i = length ts" by simp
    then show ?thesis
      using l ne n c by (simp add: task_get_next_def task_at_def task_list_def hd_conv_nth)
  qed
  moreover have "Suc i mod length ts < length ts" using ne by simp
  ultimately show ?thesis
    using l ne by (auto simp: task_turn_def task_switch_def task_list_def)
qed

text \<open>
  C21. Round robin: taking the next task again and again visits the list in order and starts over
  at its head, so every task is current after fewer turns than there are tasks.
\<close>
theorem task_turns_round_robin:
  assumes "task_list s ts" "current_task s = ts ! i" "i < length ts" "j < length ts"
  shows "current_task ((task_turn ^^ n) s) = ts ! ((i + n) mod length ts)
    \<and> (\<exists>k < length ts. current_task ((task_turn ^^ k) s) = ts ! j)"
proof -
  have turns: "task_list ((task_turn ^^ n) s) ts \<and> current_task ((task_turn ^^ n) s) = ts ! ((i + n) mod length ts)" for n
  proof (induction n)
    case 0
    then show ?case using assms by simp
  next
    case (Suc n)
    have "(i + n) mod length ts < length ts" using assms(3) by (intro mod_less_divisor) linarith
    then show ?case
      using task_turn_step [of "(task_turn ^^ n) s" ts "(i + n) mod length ts"] Suc
      by (simp add: mod_Suc_eq)
  qed
  define k where "k = (j + length ts - i) mod length ts"
  have "(i + k) mod length ts = j"
    using assms(3,4) by (simp add: k_def mod_add_right_eq)
  moreover have "k < length ts" unfolding k_def using assms(3) by (intro mod_less_divisor) linarith
  ultimately show ?thesis using turns [of n] turns [of k] by auto
qed


section \<open>Removal\<close>

abbreviation without :: "addr list \<Rightarrow> nat \<Rightarrow> addr list" where
  "without ts k \<equiv> take k ts @ drop (Suc k) ts"

lemma nth_without:
  "k < length ts \<Longrightarrow> i < length ts - 1 \<Longrightarrow> without ts k ! i = (if i < k then ts ! i else ts ! Suc i)"
  by (auto simp: nth_append)

lemma task_at_without:
  "k < length ts \<Longrightarrow> task_at (without ts k) i = (if i < k then ts ! i else task_at ts (Suc i))"
  by (auto simp: task_at_def nth_append)

text \<open>The links after the store of \<^verbatim>\<open>task_list_remove\<close>.\<close>

lemma unlink_forward:
  assumes l: "linked m ts" and sep: "separate ts" and k: "k < length ts"
  defines "m' \<equiv> if k = 0 then m else store32 m (ts ! (k - 1) + 56) (task_at ts (Suc k))"
  shows "linked m' (without ts k)"
proof -
  have "task_next m' (without ts k ! i) = task_at (without ts k) (i + 1)" if i: "i < length (without ts k)" for i
  proof -
    have il: "i < length ts - 1" using i k by auto
    consider "Suc i < k" | "Suc i = k" | "k \<le> i" by linarith
    then show ?thesis
    proof cases
      case 1
      then have "disjoint_regions (ts ! (k - 1)) 64 (ts ! i) 64" using separateD [OF sep, of "k - 1" i] k by simp
      then show ?thesis
        using 1 linked_task_next [OF l, of i] k
        by (simp add: m'_def nth_without [OF k il] task_at_without [OF k] task_field_simps) (simp add: task_at_def)
    next
      case 2
      have "without ts k ! i = ts ! i" using 2 by (simp only: nth_without [OF k il]) simp
      moreover have "task_at (without ts k) (i + 1) = task_at ts (Suc k)" using 2 by (simp only: task_at_without [OF k]) simp
      moreover have "m' = store32 m (ts ! i + 56) (task_at ts (Suc k))" using 2 by (auto simp: m'_def)
      ultimately show ?thesis by (simp only: task_field_simps)
    next
      case 3
      then have "k > 0 \<Longrightarrow> disjoint_regions (ts ! (k - 1)) 64 (ts ! Suc i) 64"
        using separateD [OF sep, of "k - 1" "Suc i"] k il by simp
      then show ?thesis
        using 3 linked_task_next [OF l, of "Suc i"] il
        by (simp add: m'_def nth_without [OF k il] task_at_without [OF k] task_field_simps)
    qed
  qed
  then show ?thesis by (simp only: linked_def) blast
qed

lemma unlink_prev:
  assumes "separate ts" "Suc k < length ts"
  shows "task_prev (if k = 0 then m else store32 m (ts ! (k - 1) + 56) v) (ts ! Suc k) = task_prev m (ts ! Suc k)"
  using separateD [OF assms(1), of "k - 1" "Suc k"] assms(2) by (simp add: task_field_simps)

lemma unlink_fields:
  assumes "separate ts" "k < length ts"
  shows "task_next (if k = 0 then m else store32 m (ts ! (k - 1) + 56) v) (ts ! k) = task_next m (ts ! k)"
    "task_prev (if k = 0 then m else store32 m (ts ! (k - 1) + 56) v) (ts ! k) = task_prev m (ts ! k)"
  using separateD [OF assms(1), of "k - 1" k] assms(2) by (simp_all add: task_field_simps)

lemma task_listD:
  assumes l: "task_list s ts" and k: "k < length ts"
  shows "separate ts" "linked (sys_ram s) ts" "linked_back (sys_ram s) ts" "current_task s \<in> set ts"
    "task_head s = ts ! 0" "task_tail s = ts ! (length ts - 1)"
    "task_next (sys_ram s) (ts ! k) = task_at ts (Suc k)"
    "task_prev (sys_ram s) (ts ! k) = (if k = 0 then NULL else ts ! (k - 1))"
proof -
  have ne: "ts \<noteq> []" using k by auto
  show "separate ts" "linked (sys_ram s) ts" "linked_back (sys_ram s) ts" using l by (simp_all add: task_list_def)
  then show "task_next (sys_ram s) (ts ! k) = task_at ts (Suc k)"
    "task_prev (sys_ram s) (ts ! k) = (if k = 0 then NULL else ts ! (k - 1))"
    using k by (simp_all add: linked_task_next linked_back_task_prev)
  show "current_task s \<in> set ts" "task_head s = ts ! 0" "task_tail s = ts ! (length ts - 1)"
    using l ne by (simp_all add: task_list_def hd_conv_nth last_conv_nth)
qed

text \<open>The state \<open>task_list_remove\<close> leaves, in terms of the list.\<close>

lemma task_list_remove_state:
  assumes l: "task_list s ts" and k: "k < length ts"
  defines "m' \<equiv> if k = 0 then sys_ram s else store32 (sys_ram s) (ts ! (k - 1) + 56) (task_at ts (Suc k))"
  defines "s' \<equiv> task_list_remove (ts ! k) s"
  shows "sys_ram s' = m'"
    "task_head s' = (if k = 0 then task_at ts 1 else task_head s)"
    "task_tail s' = (if Suc k = length ts then (if k = 0 then NULL else ts ! (k - 1)) else task_tail s)"
    "current_task s' = (if current_task s = ts ! k
       then (if Suc k < length ts then ts ! Suc k else task_head s') else current_task s)"
proof -
  have ne: "ts \<noteq> []" using k by auto
  note facts = task_listD [OF l k]
  note sep = facts(1) and ht = facts(5,6) and n = facts(7) and p = facts(8)
  have eq: "ts ! k = task_head s \<longleftrightarrow> k = 0" "ts ! k = task_tail s \<longleftrightarrow> Suc k = length ts"
    unfolding ht
    using separate_nth_eq [OF sep k, of 0] separate_nth_eq [OF sep k, of "length ts - 1"] k ne by (simp_all, linarith)
  have u: "task_next m' (ts ! k) = task_at ts (Suc k)" "task_prev m' (ts ! k) = (if k = 0 then NULL else ts ! (k - 1))"
    using unlink_fields [OF sep k, of "sys_ram s"] n p by (auto simp: m'_def)
  have nn: "k \<noteq> 0 \<Longrightarrow> ts ! (k - 1) \<noteq> NULL" "Suc k < length ts \<Longrightarrow> ts ! Suc k \<noteq> NULL"
    using separate_NULL [OF sep, of "k - 1"] separate_NULL [OF sep, of "Suc k"] k by auto
  define s1 where "s1 = (if task_prev (sys_ram s) (ts ! k) \<noteq> NULL
      then set_ram (store32 (sys_ram s) (task_prev (sys_ram s) (ts ! k) + 56) (task_next (sys_ram s) (ts ! k))) s else s)"
  have s1: "sys_ram s1 = m'" "task_head s1 = task_head s" "task_tail s1 = task_tail s" "current_task s1 = current_task s"
    using nn by (auto simp: s1_def p n m'_def)
  define s2 where "s2 = (if ts ! k = task_head s1 then s1\<lparr>task_head := task_next m' (ts ! k)\<rparr> else s1)"
  have s2: "sys_ram s2 = m'" "task_head s2 = (if k = 0 then task_at ts 1 else task_head s)"
    "task_tail s2 = task_tail s" "current_task s2 = current_task s"
    unfolding s2_def s1 eq u by (simp_all add: s1)
  define s3 where "s3 = (if ts ! k = task_tail s2 then s2\<lparr>task_tail := task_prev m' (ts ! k)\<rparr> else s2)"
  have s3: "sys_ram s3 = m'" "task_head s3 = task_head s2"
    "task_tail s3 = (if Suc k = length ts then (if k = 0 then NULL else ts ! (k - 1)) else task_tail s)"
    "current_task s3 = current_task s"
    unfolding s3_def s2 eq u by (simp_all add: s2)
  have s': "s' = (if ts ! k = current_task s3 then s3\<lparr>current_task := task_get_next s3\<rparr> else s3)"
    by (simp only: s'_def task_list_remove_def Let_def s1_def s2_def s3_def s1(1) [unfolded s1_def])
  show "sys_ram s' = m'" by (simp add: s' s3)
  show h: "task_head s' = (if k = 0 then task_at ts 1 else task_head s)" by (simp add: s' s3 s2)
  show "task_tail s' = (if Suc k = length ts then (if k = 0 then NULL else ts ! (k - 1)) else task_tail s)"
    by (simp add: s' s3)
  have at: "task_at ts (Suc k) = (if Suc k < length ts then ts ! Suc k else NULL)" by (simp add: task_at_def)
  show "current_task s' = (if current_task s = ts ! k
       then (if Suc k < length ts then ts ! Suc k else task_head s') else current_task s)"
  proof (cases "current_task s = ts ! k")
    case True
    then have c: "current_task s3 = ts ! k" by (simp add: s3)
    have "current_task s' = (if task_at ts (Suc k) = NULL then task_head s' else task_at ts (Suc k))"
      by (simp add: s' task_get_next_def c s3 u)
    then show ?thesis using True nn(2) by (auto simp: at)
  qed (auto simp: s' s3)
qed

text \<open>
  C23. Removing a task relinks the list forward: following the \<^verbatim>\<open>next\<close> pointers from the new head
  visits the remaining tasks in order, head and tail are right, and a current task that was
  removed is replaced by the one whose turn was next. The \<^verbatim>\<open>prev\<close> pointer of the task after
  the removed one is not updated: it still points to the removed task, which \<open>task_free\<close> then
  gives back to the heap.
\<close>
theorem task_list_remove_links:
  assumes "task_list s ts" "k < length ts"
  defines "us \<equiv> without ts k" and "s' \<equiv> task_list_remove (ts ! k) s"
  shows "linked (sys_ram s') us \<and> task_head s' = task_at us 0
    \<and> task_tail s' = (if us = [] then NULL else last us)
    \<and> (us \<noteq> [] \<longrightarrow> current_task s' \<in> set us)
    \<and> (Suc k < length ts \<longrightarrow> task_prev (sys_ram s') (ts ! Suc k) = ts ! k)"
proof -
  note st = task_list_remove_state [OF assms(1,2), folded s'_def]
  note facts = task_listD [OF assms(1,2)]
  note sep = facts(1) and lk = facts(2,3) and ht = facts(5,6,4)
  have ne: "ts \<noteq> []" using assms(2) by auto
  have one: "linked (sys_ram s') us"
    using unlink_forward [OF lk(1) sep assms(2)] by (simp only: st(1) us_def)
  have two: "task_head s' = task_at us 0"
    using ht assms(2) by (simp add: st(2) us_def task_at_without)
  have three: "task_tail s' = (if us = [] then NULL else last us)"
  proof (cases "Suc k = length ts")
    case True
    then have "us = take k ts" by (simp add: us_def)
    then show ?thesis using True by (auto simp: st(3) last_conv_nth min_def)
  next
    case False
    with assms(2) have "Suc k < length ts" by simp
    then have "us \<noteq> [] \<and> last us = last ts" by (simp add: us_def)
    then show ?thesis using False ht ne by (simp add: st(3) last_conv_nth)
  qed
  have four: "current_task s' \<in> set us" if "us \<noteq> []"
  proof (cases "current_task s = ts ! k")
    case True
    have "Suc k < length ts \<Longrightarrow> ts ! Suc k \<in> set us"
      by (simp add: us_def) (metis Cons_nth_drop_Suc list.set_intros(1))
    moreover have "task_head s' \<in> set us" using two that by (simp add: task_at_def)
    ultimately show ?thesis using True by (simp add: st(4))
  next
    case False
    have "set ts = insert (ts ! k) (set us)"
      using id_take_nth_drop [OF assms(2)] by (metis insert_is_Un list.set(2) set_append sup_left_commute us_def)
    then show ?thesis using False ht(3) by (auto simp: st(4))
  qed
  have five: "task_prev (sys_ram s') (ts ! Suc k) = ts ! k" if "Suc k < length ts"
    using unlink_prev [OF sep that] linked_back_task_prev [OF lk(2) that] by (simp add: st(1))
  from one two three four five show ?thesis by blast
qed


section \<open>Witnesses\<close>

text \<open>Three tasks of 64 bytes at \<open>0x1000\<close>, \<open>0x1040\<close> and \<open>0x2000\<close>, linked by \<open>task_append\<close>.\<close>

definition no_tasks :: "ata sys" where
  "no_tasks = \<lparr>base = \<lparr>ram = \<lambda>_. 0, hw = undefined, olds = 0, console = undefined, fs_root = 0\<rparr>,
     frames = undefined, paging = \<lparr>cr0 = 0, cr3 = 0, current_directory = 0\<rparr>,
     current_task = 0, task_tail = 0, task_head = 0, kernel_page_directory = 0, current_process = 0, processes = [], segment_registers = 0\<rparr>"

definition two_tasks :: "ata sys" where
  "two_tasks = task_append 0x1040 (task_append 0x1000 no_tasks)"

definition three_tasks :: "ata sys" where
  "three_tasks = task_append 0x2000 two_tasks"

lemma demo_separate: "separate [0x1000, 0x1040, 0x2000]" "separate [0x1000, 0x1040]" "separate [0x1000]"
proof -
  have "disjoint_regions ([0x1000, 0x1040, 0x2000] ! i) 64 ([0x1000, 0x1040, 0x2000] ! j) 64"
    if "i < 3" "j < 3" "i \<noteq> j" for i j :: nat
  proof -
    have "i \<in> {0, 1, 2}" "j \<in> {0, 1, 2}" using that by auto
    with that show ?thesis by (auto intro: disjoint_regions_nat)
  qed
  then show "separate [0x1000, 0x1040, 0x2000]" by (simp add: separate_def NULL_def)
  have "disjoint_regions ([0x1000, 0x1040] ! i) 64 ([0x1000, 0x1040] ! j) 64"
    if "i < 2" "j < 2" "i \<noteq> j" for i j :: nat
  proof -
    have "i \<in> {0, 1}" "j \<in> {0, 1}" using that by auto
    with that show ?thesis by (auto intro: disjoint_regions_nat)
  qed
  then show "separate [0x1000, 0x1040]" by (simp add: separate_def NULL_def)
  show "separate [0x1000]" by (simp add: separate_def NULL_def)
qed

lemma no_tasks_list: "task_list no_tasks []"
  by (simp add: task_list_def linked_def linked_back_def separate_def) (simp add: no_tasks_def NULL_def)

lemma no_tasks_fields: "task_next (sys_ram no_tasks) t = NULL" "task_prev (sys_ram no_tasks) t = NULL"
  by (simp_all add: no_tasks_def sys_ram_def task_next_def task_prev_def load32_def NULL_def)

lemma one_task: "sys_ram (task_append 0x1000 no_tasks) = sys_ram no_tasks"
  by (simp add: task_append_def sys_ram_def no_tasks_def NULL_def)

lemma two_tasks_list: "task_list two_tasks [0x1000, 0x1040]"
proof -
  have "task_list (task_append 0x1000 no_tasks) [0x1000]"
    using task_append_keeps [of no_tasks "[]" "0x1000"] no_tasks_list demo_separate by (simp add: no_tasks_fields)
  from task_append_keeps [OF this, of "0x1040"] demo_separate show ?thesis
    by (simp add: two_tasks_def one_task no_tasks_fields)
qed

lemma two_tasks_fields: "task_next (sys_ram two_tasks) 0x2000 = NULL" "task_prev (sys_ram two_tasks) 0x2000 = NULL"
proof -
  have d: "disjoint_regions 0x1000 64 0x2000 64" "disjoint_regions 0x1040 64 0x2000 64"
    by (auto intro: disjoint_regions_nat)
  have "sys_ram two_tasks = store32 (store32 (sys_ram no_tasks) (0x1000 + 56) 0x1040) (0x1040 + 60) 0x1000"
    by (simp add: two_tasks_def task_append_def no_tasks_def NULL_def sys_ram_def set_ram_def)
  then show "task_next (sys_ram two_tasks) 0x2000 = NULL" "task_prev (sys_ram two_tasks) 0x2000 = NULL"
    by (simp_all only: task_field_simps d no_tasks_fields)
qed

lemma three_tasks_list: "task_list three_tasks [0x1000, 0x1040, 0x2000]"
  using task_append_keeps [OF two_tasks_list, of "0x2000"] demo_separate by (simp add: three_tasks_def two_tasks_fields)

theorem task_append_list_witness: "task_list (task_append 0x2000 two_tasks) [0x1000, 0x1040, 0x2000]"
  using task_append_list [OF two_tasks_list, of "0x2000"] demo_separate by (simp add: two_tasks_fields)

lemma three_tasks_current: "current_task three_tasks = 0x1000"
  by (simp add: three_tasks_def two_tasks_def task_append_def no_tasks_def NULL_def set_ram_def sys_ram_def)

theorem task_turns_round_robin_witness:
  "current_task ((task_turn ^^ 4) three_tasks) = 0x1040 \<and> (\<exists>k < 3. current_task ((task_turn ^^ k) three_tasks) = 0x2000)"
proof -
  have "length [0x1000, 0x1040, 0x2000 :: addr] = 3" by simp
  from task_turns_round_robin [OF three_tasks_list, unfolded this, of 0 2 4] show ?thesis
    by (simp add: three_tasks_current)
qed

theorem task_list_remove_links_witness:
  "task_head (task_list_remove 0x1040 three_tasks) = 0x1000
     \<and> task_prev (sys_ram (task_list_remove 0x1040 three_tasks)) 0x2000 = 0x1040"
  using task_list_remove_links [OF three_tasks_list, of 1] by (simp add: task_at_def)

end
