(* ===== verification/Vfs.thy ===== *)
theory Vfs
  imports Initrd
begin

text \<open>
  \<^verbatim>\<open>kernel/src/fs/vfs.c\<close>: every operation of the virtual file system goes through a function pointer
  of the node. A pointer is the address of a function in the linked kernel; the functions whose
  address the kernel stores in a node are those of \<^verbatim>\<open>fat32.c\<close> and \<^verbatim>\<open>initrd.c\<close>. A call through any other
  address is \<open>Fault\<close>. \<open>g\<close> is the state of the initial ram disk.
\<close>

section \<open>Calls through a pointer\<close>

definition call_read ::
  "'d kenv \<Rightarrow> initrd_globals \<Rightarrow> addr \<Rightarrow> addr \<Rightarrow> u32 \<Rightarrow> u32 \<Rightarrow> addr \<Rightarrow> 'd kstate \<Rightarrow> (u32 \<times> 'd kstate) run" where
  "call_read env g f node offset sz buffer s =
     (if f = link env ''read_fat32'' then read_fat32 env node offset sz buffer s
      else if f = link env ''initrd_read'' then
        (let (r, m) = initrd_read g node offset sz buffer (ram s) in Some (Ret (r, s\<lparr>ram := m\<rparr>)))
      else Some Fault)"

definition call_write ::
  "'d kenv \<Rightarrow> addr \<Rightarrow> addr \<Rightarrow> u32 \<Rightarrow> u32 \<Rightarrow> addr \<Rightarrow> 'd kstate \<Rightarrow> (u32 \<times> 'd kstate) run" where
  "call_write env f node offset sz buffer s =
     (if f = link env ''write_fat32'' then write_fat32 node offset sz buffer s else Some Fault)"

definition call_open :: "'d kenv \<Rightarrow> addr \<Rightarrow> addr \<Rightarrow> 'd kstate \<Rightarrow> (addr \<times> 'd kstate) run" where
  "call_open env f path s = (if f = link env ''open_fat32'' then open_fat32 env path s else Some Fault)"

definition call_close :: "'d kenv \<Rightarrow> addr \<Rightarrow> addr \<Rightarrow> 'd kstate \<Rightarrow> 'd kstate run" where
  "call_close env f node s = (if f = link env ''close_fat32'' then Some (Ret (close_fat32 node s)) else Some Fault)"

definition call_readdir ::
  "'d kenv \<Rightarrow> initrd_globals \<Rightarrow> addr \<Rightarrow> addr \<Rightarrow> u32 \<Rightarrow> 'd kstate \<Rightarrow> (addr \<times> 'd kstate) run" where
  "call_readdir env g f node index s =
     (if f = link env ''readdir_fat32'' then readdir_fat32 env node index s
      else if f = link env ''initrd_readdir'' then
        rbind (initrd_readdir env g node index (ram s)) (\<lambda>(r, m). Some (Ret (r, s\<lparr>ram := m\<rparr>)))
      else Some Fault)"

definition call_finddir ::
  "'d kenv \<Rightarrow> initrd_globals \<Rightarrow> addr \<Rightarrow> addr \<Rightarrow> addr \<Rightarrow> 'd kstate \<Rightarrow> (addr \<times> 'd kstate) run" where
  "call_finddir env g f node name s =
     (if f = link env ''finddir_fat32'' then finddir_fat32 env node name s
      else if f = link env ''initrd_finddir'' then initrd_finddir env g node name s
      else Some Fault)"

section \<open>Operations\<close>

definition read_fs ::
  "'d kenv \<Rightarrow> initrd_globals \<Rightarrow> addr \<Rightarrow> u32 \<Rightarrow> u32 \<Rightarrow> addr \<Rightarrow> 'd kstate \<Rightarrow> (u32 \<times> 'd kstate) run" where
  "read_fs env g node offset sz buffer s =
     (if node_read (ram s) node \<noteq> 0 then call_read env g (node_read (ram s) node) node offset sz buffer s
      else Some (Ret (0, s)))"

definition write_fs ::
  "'d kenv \<Rightarrow> addr \<Rightarrow> u32 \<Rightarrow> u32 \<Rightarrow> addr \<Rightarrow> 'd kstate \<Rightarrow> (u32 \<times> 'd kstate) run" where
  "write_fs env node offset sz buffer s =
     (if node_write (ram s) node \<noteq> 0 then call_write env (node_write (ram s) node) node offset sz buffer s
      else Some (Ret (0, s)))"

definition open_fs :: "'d kenv \<Rightarrow> addr \<Rightarrow> 'd kstate \<Rightarrow> (addr \<times> 'd kstate) run" where
  "open_fs env path s =
     (if node_open (ram s) (fs_root s) \<noteq> 0 then call_open env (node_open (ram s) (fs_root s)) path s
      else Some (Ret (0, s)))"

definition close_fs :: "'d kenv \<Rightarrow> addr \<Rightarrow> 'd kstate \<Rightarrow> 'd kstate run" where
  "close_fs env node s =
     (if node_close (ram s) node \<noteq> 0 then call_close env (node_close (ram s) node) node s
      else Some (Panic ''close_fs failed because node->close is NULL''))"

definition readdir_fs ::
  "'d kenv \<Rightarrow> initrd_globals \<Rightarrow> addr \<Rightarrow> u32 \<Rightarrow> 'd kstate \<Rightarrow> (addr \<times> 'd kstate) run" where
  "readdir_fs env g node index s =
     (if node_flags (ram s) node AND 7 = FS_DIRECTORY \<and> node_readdir (ram s) node \<noteq> 0
      then call_readdir env g (node_readdir (ram s) node) node index s
      else Some (Ret (0, s)))"

definition finddir_fs ::
  "'d kenv \<Rightarrow> initrd_globals \<Rightarrow> addr \<Rightarrow> addr \<Rightarrow> 'd kstate \<Rightarrow> (addr \<times> 'd kstate) run" where
  "finddir_fs env g node name s =
     (if node_flags (ram s) node AND 7 = FS_DIRECTORY \<and> node_finddir (ram s) node \<noteq> 0
      then call_finddir env g (node_finddir (ram s) node) node name s
      else Some (Ret (0, s)))"

section \<open>Nodes of the two file systems\<close>

text \<open>Each accessor of a node reads what was stored for its own field.\<close>

lemma load32_store32_apart:
  assumes "4 \<le> unat (b - a)" "4 \<le> unat (a - b)"
  shows "load32 (store32 m a v) b = load32 m b"
proof (rule load32_store32_other, unfold disjoint_regions_def, intro allI notI)
  fix x assume x: "in_region a 4 x \<and> in_region b 4 x"
  define p q where "p = x - a" and "q = x - b"
  have "unat p < 4" "unat q < 4" using x by (simp_all add: in_region_def p_def q_def)
  moreover have "b - a = p - q" "a - b = q - p" by (simp_all add: p_def q_def)
  ultimately show False
    using assms by (cases "q \<le> p") (auto simp: unat_sub word_le_nat_alt)
qed

lemmas node_fields = node_filesize_def node_mask_def node_flags_def node_read_def node_write_def
  node_open_def node_close_def node_readdir_def node_finddir_def node_lbdev_def node_private_def

lemma initrd_file_node_fields:
  "node_flags (initrd_file_node env node e m) node = FS_FILE"
  "node_read (initrd_file_node env node e m) node = link env ''initrd_read''"
  "node_write (initrd_file_node env node e m) node = 0"
  "node_close (initrd_file_node env node e m) node = 0"
  by (simp_all add: initrd_file_node_def node_fields Let_def load32_store32_apart)


lemma load32_store16_apart:
  assumes "2 \<le> unat (b - a)" "4 \<le> unat (a - b)"
  shows "load32 (store16 m a v) b = load32 m b"
proof (rule load32_cong, rule store16_outside, rule notI)
  fix x assume x: "in_region b 4 x" "in_region a 2 x"
  define p q where "p = x - a" and "q = x - b"
  have "unat p < 2" "unat q < 4" using x by (simp_all add: in_region_def p_def q_def)
  moreover have "b - a = p - q" "a - b = q - p" by (simp_all add: p_def q_def)
  ultimately show False
    using assms by (cases "q \<le> p") (auto simp: unat_sub word_le_nat_alt)
qed

lemma node_attributes_fields:
  "node_flags (node_attributes node is_dir d m) node = node_flags m node OR (if is_dir then FS_DIRECTORY else FS_FILE)"
  "node_read (node_attributes node is_dir d m) node = node_read m node"
  "node_write (node_attributes node is_dir d m) node = node_write m node"
  "node_close (node_attributes node is_dir d m) node = node_close m node"
  "node_readdir (node_attributes node is_dir d m) node = node_readdir m node"
  "node_finddir (node_attributes node is_dir d m) node = node_finddir m node"
  by (simp_all add: node_attributes_def node_fields Let_def load32_store32_apart load32_store16_apart)

lemma node_functions_fields:
  "node_flags (node_functions env node is_dir lb bs m) node = node_flags m node"
  "node_read (node_functions env node is_dir lb bs m) node = (if is_dir then node_read m node else link env ''read_fat32'')"
  "node_write (node_functions env node is_dir lb bs m) node = (if is_dir then node_write m node else link env ''write_fat32'')"
  "node_close (node_functions env node is_dir lb bs m) node = link env ''close_fat32''"
  "node_readdir (node_functions env node is_dir lb bs m) node = (if is_dir then link env ''readdir_fat32'' else node_readdir m node)"
  "node_finddir (node_functions env node is_dir lb bs m) node = (if is_dir then link env ''finddir_fat32'' else node_finddir m node)"
  by (simp_all add: node_functions_def node_fields Let_def load32_store32_apart)

lemma zeroed_load32:
  assumes "\<forall>k < 184. m (node + of_nat k) = 0" "i + 3 < 184"
  shows "load32 m (node + of_nat i) = 0"
proof -
  have "m (node + of_nat (i + j)) = 0" if "j < 4" for j
    using assms(1) [rule_format, of "i + j"] assms(2) that by simp
  from this [of 0] this [of 1] this [of 2] this [of 3] show ?thesis by (simp add: load32_def algebra_simps)
qed

text \<open>
  A node of the ram disk reached through the virtual file system: reads go to the table lookup of
  \<open>initrd_read\<close>, writing does nothing, a file is not a directory to list or to search, and closing it
  panics, because \<open>initrd_finddir\<close> stores a null \<^verbatim>\<open>close\<close> pointer.
\<close>
theorem initrd_file_through_vfs:
  assumes "link env ''initrd_read'' \<noteq> 0" "link env ''initrd_read'' \<noteq> link env ''read_fat32''"
    and "ram s = initrd_file_node env node e m"
  shows "read_fs env g node offset sz buffer s =
      (let (r, m') = initrd_read_loop (initrd_header g) node offset sz buffer 0 (ram s) in Some (Ret (r, s\<lparr>ram := m'\<rparr>)))
    \<and> write_fs env node offset sz buffer s = Some (Ret (0, s))
    \<and> readdir_fs env g node index s = Some (Ret (0, s)) \<and> finddir_fs env g node name s = Some (Ret (0, s))
    \<and> close_fs env node s = Some (Panic ''close_fs failed because node->close is NULL'')"
  using assms
  by (simp add: read_fs_def write_fs_def readdir_fs_def finddir_fs_def close_fs_def call_read_def initrd_read_def
      initrd_file_node_fields FS_FILE_def FS_DIRECTORY_def)

text \<open>
  A node \<open>open_fat32\<close> fills, reached through the virtual file system: a directory is listed and
  searched by the FAT32 code and cannot be read, a file is read by it and cannot be listed or
  searched, writing changes nothing, and closing frees every node but the root.
\<close>
theorem fat_node_through_vfs:
  assumes "link env ''read_fat32'' \<noteq> 0" "link env ''write_fat32'' \<noteq> 0" "link env ''close_fat32'' \<noteq> 0"
      "link env ''readdir_fat32'' \<noteq> 0" "link env ''finddir_fat32'' \<noteq> 0"
    and "\<forall>i < 184. m (node + of_nat i) = 0"
    and "ram s = node_attributes node is_dir direntry (node_functions env node is_dir lb bs m)"
  shows "read_fs env g node offset sz buffer s = (if is_dir then Some (Ret (0, s)) else read_fat32 env node offset sz buffer s)
    \<and> write_fs env node offset sz buffer s = Some (Ret (0, s))
    \<and> readdir_fs env g node index s = (if is_dir then readdir_fat32 env node index s else Some (Ret (0, s)))
    \<and> finddir_fs env g node name s = (if is_dir then finddir_fat32 env node name s else Some (Ret (0, s)))
    \<and> close_fs env node s = Some (Ret (if node = fs_root s then s else release node s))"
proof -
  have z: "load32 m (node + of_nat i) = 0" if "i + 3 < 184" for i
    using zeroed_load32 [OF assms(6) that] .
  have "node_flags m node = 0" "node_read m node = 0" "node_write m node = 0"
    using z [of 148] z [of 152] z [of 156] by (simp_all add: node_fields)
  then show ?thesis
    using assms(1-5)
    by (simp add: assms(7) read_fs_def write_fs_def readdir_fs_def finddir_fs_def close_fs_def call_read_def
        call_write_def call_readdir_def call_finddir_def call_close_def close_fat32_def write_fat32_def
        node_attributes_fields node_functions_fields FS_FILE_def FS_DIRECTORY_def)
qed


section \<open>Witnesses\<close>

definition vfs_env :: "ata kenv" where
  "vfs_env = demo_env\<lparr>link := (\<lambda>str. if str = ''initrd_read'' then 0x100200 else 0x100000 + of_nat (size str))\<rparr>"

definition no_initrd :: initrd_globals where
  "no_initrd = \<lparr>initrd_header = 0, initrd_root = 0, initrd_dev = 0\<rparr>"

definition vfs_state :: "mem \<Rightarrow> ata kstate" where
  "vfs_state m = \<lparr>ram = m, hw = undefined, olds = 0, console = undefined, fs_root = 0x9000\<rparr>"

theorem initrd_file_through_vfs_witness:
  "close_fs vfs_env 0x1000 (vfs_state (initrd_file_node vfs_env 0x1000 0x2000 (\<lambda>_. 0)))
     = Some (Panic ''close_fs failed because node->close is NULL'')"
  using initrd_file_through_vfs [of vfs_env "vfs_state (initrd_file_node vfs_env 0x1000 0x2000 (\<lambda>_. 0))" "0x1000" "0x2000" "\<lambda>_. 0"]
  by (simp add: vfs_env_def vfs_state_def)

theorem fat_node_through_vfs_witness:
  "readdir_fs vfs_env no_initrd 0x1000 0
      (vfs_state (node_attributes 0x1000 False 0x2000 (node_functions vfs_env 0x1000 False 0x3000 0x4000 (\<lambda>_. 0))))
     = Some (Ret (0, vfs_state (node_attributes 0x1000 False 0x2000 (node_functions vfs_env 0x1000 False 0x3000 0x4000 (\<lambda>_. 0)))))"
  using fat_node_through_vfs [of vfs_env "\<lambda>_. 0" "0x1000"
      "vfs_state (node_attributes 0x1000 False 0x2000 (node_functions vfs_env 0x1000 False 0x3000 0x4000 (\<lambda>_. 0)))"
      False "0x2000" "0x3000" "0x4000" no_initrd]
  by (simp add: vfs_env_def vfs_state_def)

end
