(* ===== verification/Process.thy ===== *)
theory Process
  imports Task Vfs
begin

text \<open>
  \<^verbatim>\<open>kernel/src/sys/process.c\<close>: the table of processes, loading a program file into the heap, creating
  its task and mapping the program at \<open>KERNEL_TASK_VADDR\<close> of the task's directory. A process is a
  packed structure of 4244 bytes in memory.
\<close>

definition KERNEL_MAX_PROCESSES :: u32 where "KERNEL_MAX_PROCESSES = 128"

text \<open>Fields of the process at \<open>p\<close>; the path is the 128 bytes at \<open>p + 4\<close>.\<close>

definition process_id :: "mem \<Rightarrow> addr \<Rightarrow> u32" where "process_id m p = load32 m p"
definition process_task :: "mem \<Rightarrow> addr \<Rightarrow> addr" where "process_task m p = load32 m (p + 132)"
definition process_data :: "mem \<Rightarrow> addr \<Rightarrow> addr" where "process_data m p = load32 m (p + 4232)"
definition process_stack :: "mem \<Rightarrow> addr \<Rightarrow> addr" where "process_stack m p = load32 m (p + 4236)"
definition process_size :: "mem \<Rightarrow> addr \<Rightarrow> u32" where "process_size m p = load32 m (p + 4240)"

definition sizeof_process :: u32 where "sizeof_process = 4244"

definition process_init :: "addr \<Rightarrow> mem \<Rightarrow> mem" where
  "process_init process m = memset m process 0 sizeof_process"

section \<open>The table\<close>

definition process_get :: "u32 \<Rightarrow> 'd sys \<Rightarrow> addr outcome" where
  "process_get index s =
     (if index \<ge> KERNEL_MAX_PROCESSES then Panic ''process_get: Invalid argument''
      else Ret (processes s ! unat index))"

primrec free_slot_loop :: "addr list \<Rightarrow> u32 \<Rightarrow> nat \<Rightarrow> u32" where
  "free_slot_loop ps i 0 = -1"
| "free_slot_loop ps i (Suc n) = (if ps ! unat i = NULL then i else free_slot_loop ps (i + 1) n)"

definition process_get_free_slot :: "'d sys \<Rightarrow> u32" where
  "process_get_free_slot s = free_slot_loop (processes s) 0 (unat KERNEL_MAX_PROCESSES)"

section \<open>Loading\<close>

definition alloc_aligned :: "'d kenv \<Rightarrow> u32 \<Rightarrow> 'd kstate \<Rightarrow> (addr \<times> 'd kstate) run" where
  "alloc_aligned env n b =
     rbind (kmalloc_aligned (ram b) (heap_of env) PAGE_SIZE n) (\<lambda>(p, m). Some (Ret (p, b\<lparr>ram := m\<rparr>)))"

definition close_file :: "'d kenv \<Rightarrow> addr \<Rightarrow> u32 \<Rightarrow> 'd sys \<Rightarrow> (u32 \<times> 'd sys) run" where
  "close_file env node res = on_base (\<lambda>b. rbind (close_fs env node b) (\<lambda>b. Some (Ret (res, b))))"

definition process_load_binary ::
  "'d kenv \<Rightarrow> initrd_globals \<Rightarrow> addr \<Rightarrow> addr \<Rightarrow> 'd sys \<Rightarrow> (u32 \<times> 'd sys) run" where
  "process_load_binary env g path process s =
     rbind (on_base (open_fs env path) s) (\<lambda>(node, s).
       if node = NULL then Some (Ret (EIO, s))
       else rbind (on_base (alloc_aligned env (node_filesize (sys_ram s) node)) s) (\<lambda>(ptr, s).
         if ptr = NULL then close_file env node ENOMEM s
         else rbind (on_base (read_fs env g node 0 (node_filesize (sys_ram s) node) ptr) s) (\<lambda>(res, s).
           if res \<noteq> EOK then close_file env node res s
           else
             let m = store32 (sys_ram s) (process + 4232) ptr;
                 m = store32 m (process + 4240) (node_filesize m node)
             in close_file env node res (set_ram m s))))"

definition process_load_data ::
  "'d kenv \<Rightarrow> initrd_globals \<Rightarrow> addr \<Rightarrow> addr \<Rightarrow> 'd sys \<Rightarrow> (u32 \<times> 'd sys) run" where
  "process_load_data env g path process s = process_load_binary env g path process s"

definition process_map_binary :: "addr \<Rightarrow> 'd sys \<Rightarrow> u32 \<times> 'd sys" where
  "process_map_binary process s =
     (let m = sys_ram s;
          data_phys_addr = paging_get_phys_address m (kernel_page_directory s) (process_data m process);
          (res, m) = paging_map_to m (task_page_directory m (process_task m process)) KERNEL_TASK_VADDR data_phys_addr
            (paging_align_address (data_phys_addr + process_size m process))
            (ucast (PAGING_IS_PRESENT OR PAGING_ACCESS_FROM_ALL OR PAGING_IS_WRITEABLE))
      in (res, set_ram m s))"

definition process_map_memory :: "addr \<Rightarrow> 'd sys \<Rightarrow> u32 \<times> 'd sys" where
  "process_map_memory process s = process_map_binary process s"

text \<open>\<open>out\<close> is the address the new process is stored to, \<^verbatim>\<open>process_t **process\<close> in the source.\<close>

definition process_load_for_slot ::
  "'d kenv \<Rightarrow> initrd_globals \<Rightarrow> addr \<Rightarrow> addr \<Rightarrow> u32 \<Rightarrow> 'd sys \<Rightarrow> (u32 \<times> 'd sys) run" where
  "process_load_for_slot env g path out process_slot s =
     rbind (Some (process_get process_slot s)) (\<lambda>old.
       if old \<noteq> NULL then Some (Ret (EINVARG, s))
       else rbind (on_base (alloc env sizeof_process) s) (\<lambda>(process, s).
         if process = NULL then Some (Ret (ENOMEM, s))
         else rbind (process_load_data env g path process (set_ram (process_init process (sys_ram s)) s)) (\<lambda>(res, s).
           if res \<noteq> EOK then Some (Ret (res, set_ram (kfree (sys_ram s) process) s))
           else rbind (on_base (alloc_aligned env KERNEL_TASK_STACK_SIZE) s) (\<lambda>(stack, s).
             if stack = NULL then Some (Ret (- ENOMEM, s))
             else
               let m = store32 (sys_ram s) (process + 4236) stack;
                   (m, _) = strncpy m (process + 4) path 128;
                   m = store32 m process process_slot
               in rbind (task_new env process (set_ram m s)) (\<lambda>(task, s).
                    if task = NULL then Some (Ret (ENOMEM, s))
                    else
                      let (res, s) = process_map_memory process (set_ram (store32 (sys_ram s) (process + 132) task) s)
                      in if res \<noteq> EOK then Some (Ret (res, task_free task s))
                         else Some (Ret (res, (set_ram (store32 (sys_ram s) out process) s)
                                \<lparr>processes := (processes s)[unat process_slot := process]\<rparr>)))))))"

definition process_load ::
  "'d kenv \<Rightarrow> initrd_globals \<Rightarrow> addr \<Rightarrow> addr \<Rightarrow> 'd sys \<Rightarrow> (u32 \<times> 'd sys) run" where
  "process_load env g path out s =
     (let process_slot = process_get_free_slot s in
      if sint process_slot < 0 then Some (Ret (ENOMEM, s))
      else process_load_for_slot env g path out process_slot s)"


section \<open>The table of processes\<close>

lemma free_slot_loop_spec:
  "(\<exists>j. i \<le> j \<and> j < i + n \<and> ps ! j = NULL \<and> (\<forall>k. i \<le> k \<and> k < j \<longrightarrow> ps ! k \<noteq> NULL) \<and> free_slot_loop ps (of_nat i) n = of_nat j)
    \<or> ((\<forall>j. i \<le> j \<and> j < i + n \<longrightarrow> ps ! j \<noteq> NULL) \<and> free_slot_loop ps (of_nat i) n = -1)"
  if "i + n < 2 ^ 31"
  using that
proof (induction n arbitrary: i)
  case 0
  then show ?case by auto
next
  case (Suc n)
  have i: "unat (of_nat i :: u32) = i" using Suc.prems by (intro unat_of_nat32) simp
  show ?case
  proof (cases "ps ! i = NULL")
    case True
    then show ?thesis using i by (intro disjI1 exI [of _ i]) auto
  next
    case False
    have r: "free_slot_loop ps (of_nat i) (Suc n) = free_slot_loop ps (of_nat (Suc i)) n"
      using False i by (simp add: add.commute)
    have lt: "Suc i + n < 2 ^ 31" using Suc.prems by simp
    show ?thesis
      using Suc.IH [OF lt]
    proof (elim disjE exE conjE)
      fix j assume j: "Suc i \<le> j" "j < Suc i + n" "ps ! j = NULL" "\<forall>k. Suc i \<le> k \<and> k < j \<longrightarrow> ps ! k \<noteq> NULL"
        "free_slot_loop ps (of_nat (Suc i)) n = of_nat j"
      have "\<forall>k. i \<le> k \<and> k < j \<longrightarrow> ps ! k \<noteq> NULL" using j(4) False by (metis Suc_leI le_neq_implies_less)
      with j show ?thesis
        unfolding r by (intro disjI1 exI [of _ j]) (auto simp del: of_nat_Suc)
    next
      assume "\<forall>j. Suc i \<le> j \<and> j < Suc i + n \<longrightarrow> ps ! j \<noteq> NULL" "free_slot_loop ps (of_nat (Suc i)) n = - 1"
      with False show ?thesis unfolding r by (intro disjI2) (metis Suc_leI add_Suc_shift le_neq_implies_less)
    qed
  qed
qed

lemma process_get_free_slot_cases:
  obtains (slot) j where "j < 128" "processes s ! j = NULL" "\<forall>k < j. processes s ! k \<noteq> NULL"
      "process_get_free_slot s = of_nat j"
    | (full) "\<forall>j < 128. processes s ! j \<noteq> NULL" "process_get_free_slot s = -1"
  using free_slot_loop_spec [of 0 128 "processes s"]
  by (auto simp: process_get_free_slot_def KERNEL_MAX_PROCESSES_def)

lemma slot_sint: "j < 128 \<Longrightarrow> sint (of_nat j :: u32) = int j"
  by (simp add: signed_of_nat signed_take_bit_int_eq_self)

text \<open>
  \<open>ends_in r P\<close>: if \<open>r\<close> returns, the value and state satisfy \<open>P\<close>. The rules decompose a
  routine along its calls.
\<close>

definition ends_in :: "('a \<times> 's) run \<Rightarrow> ('a \<Rightarrow> 's \<Rightarrow> bool) \<Rightarrow> bool" where
  "ends_in r P \<longleftrightarrow> (\<forall>x s. r = Some (Ret (x, s)) \<longrightarrow> P x s)"

lemma ends_in_Ret [simp]: "ends_in (Some (Ret (x, s))) P \<longleftrightarrow> P x s"
  by (simp add: ends_in_def)

lemma ends_in_if: "(c \<Longrightarrow> ends_in r P) \<Longrightarrow> (\<not> c \<Longrightarrow> ends_in r' P) \<Longrightarrow> ends_in (if c then r else r') P"
  by simp

lemma ends_in_bind:
  assumes "ends_in r Q" "\<And>x s. Q x s \<Longrightarrow> ends_in (f x s) P"
  shows "ends_in (rbind r (\<lambda>(x, s). f x s)) P"
  using assms by (fastforce simp: ends_in_def rbind_Ret_iff)

text \<open>What the other operations leave of the table.\<close>

abbreviation table_is :: "addr list \<Rightarrow> 'a \<Rightarrow> 'd sys \<Rightarrow> bool" where
  "table_is ps x s \<equiv> processes s = ps"

lemma on_base_table: "processes s = ps \<Longrightarrow> ends_in (on_base f s) (table_is ps)"
  by (auto simp: ends_in_def on_base_def rbind_Ret_iff)

lemma processes_frame [simp]:
  "processes (set_ram m s) = processes s" "processes (task_append t s) = processes s"
  by (simp_all add: set_ram_def task_append_def Let_def)

lemma processes_if: "processes (if c then s else s') = (if c then processes s else processes s')"
  by simp

lemma processes_update:
  "processes (s\<lparr>task_head := t\<rparr>) = processes s" "processes (s\<lparr>task_tail := t\<rparr>) = processes s"
  "processes (s\<lparr>current_task := t\<rparr>) = processes s"
  by simp_all

lemma task_list_remove_table [simp]: "processes (task_list_remove t s) = processes s"
  by (simp only: task_list_remove_def Let_def processes_if processes_update processes_frame if_cancel)

lemma task_free_table [simp]: "processes (task_free t s) = processes s"
  by (simp add: task_free_def Let_def split: prod.splits)

lemma process_map_memory_table: "processes (snd (process_map_memory p s)) = processes s"
  by (simp add: process_map_memory_def process_map_binary_def Let_def split: prod.splits)

lemma task_init_table: "ends_in (Some (task_init task process s)) (table_is (processes s))"
  by (auto simp: ends_in_def task_init_def obind_Ret_iff Let_def split: if_splits)

lemma task_new_table: "processes s = ps \<Longrightarrow> ends_in (task_new env process s) (table_is ps)"
  unfolding task_new_def
  by (rule ends_in_bind [OF on_base_table], assumption)
     (auto intro!: ends_in_if ends_in_bind [OF task_init_table])

lemma close_file_table: "processes s = ps \<Longrightarrow> ends_in (close_file env node res s) (table_is ps)"
  unfolding close_file_def by (rule on_base_table)

lemma process_load_data_table:
  "processes s = ps \<Longrightarrow> ends_in (process_load_data env g path process s) (table_is ps)"
  unfolding process_load_data_def process_load_binary_def Let_def
  by (auto intro!: ends_in_if ends_in_bind [OF on_base_table] close_file_table)


definition slot_taken :: "addr list \<Rightarrow> nat \<Rightarrow> u32 \<Rightarrow> 'd sys \<Rightarrow> bool" where
  "slot_taken ps j res s \<longleftrightarrow>
     (if res = EOK then ps ! j = NULL \<and> (\<exists>p. p \<noteq> NULL \<and> processes s = ps[j := p]) else processes s = ps)"

lemma process_load_for_slot_table:
  assumes "unat slot < 128" "processes s = ps"
  shows "ends_in (process_load_for_slot env g path out slot s) (slot_taken ps (unat slot))"
proof -
  have e: "ENOMEM \<noteq> EOK" "- ENOMEM \<noteq> EOK" "EINVARG \<noteq> EOK" by (simp_all add: status_defs)
  have get: "process_get slot s = Ret (ps ! unat slot)"
    using assms by (simp add: process_get_def KERNEL_MAX_PROCESSES_def word_le_nat_alt)
  have mapped: "processes t' = processes t" if "process_map_memory p t = (res, t')" for p t res t'
    using process_map_memory_table [of p t] that by simp
  show ?thesis
    unfolding process_load_for_slot_def Let_def get rbind.simps
    using assms(2)
    by (auto intro!: ends_in_if ends_in_bind [OF on_base_table [where ps = ps]]
        ends_in_bind [OF process_load_data_table [where ps = ps]]
        ends_in_bind [OF task_new_table [where ps = ps]] simp: e slot_taken_def dest!: mapped split: prod.splits) blast
qed


text \<open>
  C25. Loading a program takes the first free slot of the process table exactly when it returns \<open>EOK\<close>;
  every failure leaves the table as it was, and with all 128 slots taken nothing is changed at all.
\<close>
theorem process_load_table:
  assumes "process_load env g path out s = Some (Ret (res, s'))"
  shows "(res = EOK \<and> (\<exists>j < 128. \<exists>p. processes s ! j = NULL \<and> (\<forall>k < j. processes s ! k \<noteq> NULL) \<and> p \<noteq> NULL
        \<and> processes s' = (processes s)[j := p]))
    \<or> (res \<noteq> EOK \<and> processes s' = processes s \<and> ((\<forall>k < 128. processes s ! k \<noteq> NULL) \<longrightarrow> res = ENOMEM \<and> s' = s))"
proof (cases rule: process_get_free_slot_cases [of s])
  case (slot j)
  then have "sint (process_get_free_slot s) \<ge> 0" by (simp add: slot_sint)
  with assms have load: "process_load_for_slot env g path out (of_nat j) s = Some (Ret (res, s'))"
    by (simp add: process_load_def slot(4) Let_def)
  have "unat (of_nat j :: u32) = j" using slot(1) by (intro unat_of_nat32) simp
  with process_load_for_slot_table [of "of_nat j" s "processes s" env g path out] load slot
  show ?thesis by (auto simp: ends_in_def slot_taken_def split: if_splits)
next
  case full
  then show ?thesis using assms by (auto simp: process_load_def status_defs)
qed

theorem process_load_table_witness:
  "\<exists>res s'. process_load demo_env no_initrd 0x100 0x200 (no_tasks\<lparr>processes := replicate 128 0x1000\<rparr>) = Some (Ret (res, s'))
     \<and> res = ENOMEM \<and> s' = no_tasks\<lparr>processes := replicate 128 0x1000\<rparr>"
proof -
  let ?s = "no_tasks\<lparr>processes := replicate 128 0x1000\<rparr>"
  have full: "\<forall>k < 128. processes ?s ! k \<noteq> NULL" by (simp add: NULL_def)
  then have "process_get_free_slot ?s = -1"
    by (cases rule: process_get_free_slot_cases [of ?s]) (auto simp del: nth_replicate)
  then have run: "process_load demo_env no_initrd 0x100 0x200 ?s = Some (Ret (ENOMEM, ?s))"
    by (simp add: process_load_def)
  from process_load_table [OF run] full run show ?thesis by (auto simp: status_defs)
qed

section \<open>Mapping\<close>

lemma get_phys_aligned: "paging_is_aligned (paging_get_phys_address m d v)"
proof -
  have "(x AND 0xFFFFF000) mod PAGE_SIZE = 0" for x :: u32
    unfolding aligned_bits by (rule bit_word_eqI) (auto simp: bit_simps bit_numeral_rec)
  then show ?thesis
    by (auto simp: paging_get_phys_address_def paging_is_aligned_def Let_def NULL_def split: sum.splits)
qed



text \<open>
  A page directory at page 16 whose entries are the pages from 17 on, present and writable for all,
  with empty tables; a process at \<open>0x800000\<close> with 5000 bytes of program, its task and the kernel's
  directory.
\<close>

definition directory_entry :: "u32 \<Rightarrow> u32" where
  "directory_entry d = (17 + d) * PAGE_SIZE OR 7"

definition demo_directory :: mem where
  "demo_directory a =
     (if a div PAGE_SIZE = 16 then ucast (drop_bit (8 * unat (a mod 4)) (directory_entry ((a mod PAGE_SIZE) div 4))) else 0)"

lemma load32_bytes:
  assumes "\<And>i. i < 4 \<Longrightarrow> m (a + of_nat i) = ucast (drop_bit (8 * i) (v :: u32))"
  shows "load32 m a = v"
proof (rule bit_word_eqI)
  fix k assume "k < LENGTH(32)"
  then have k: "k < 32" by simp
  then have "k div 8 < 4" by simp
  with k assms show "bit (load32 m a) k = bit v k" by (simp add: bit_load32 bit_simps)
qed

lemma demo_directory_entry:
  assumes "d < 1024"
  shows "load32 demo_directory (16 * PAGE_SIZE + 4 * d) = directory_entry d"
proof (rule load32_bytes)
  fix i :: nat assume i: "i < 4"
  define n where "n = 4 * unat d + i"
  have d: "unat d < 1024" using assms by (simp add: word_less_nat_alt)
  have n: "n < 4096" using d i by (simp add: n_def)
  have u: "unat (16 * PAGE_SIZE + 4 * d + of_nat i) = 65536 + n"
    using d i by (simp add: PAGE_SIZE_def unat_word_ariths unat_of_nat n_def)
  have "(16 * PAGE_SIZE + 4 * d + of_nat i) div PAGE_SIZE = 16"
    using n by (simp add: word_unat_eq_iff unat_div u) (simp add: PAGE_SIZE_def)
  moreover have "unat ((16 * PAGE_SIZE + 4 * d + of_nat i) mod 4) = i"
    using i by (simp add: unat_mod u n_def) presburger
  moreover have "((16 * PAGE_SIZE + 4 * d + of_nat i) mod PAGE_SIZE) div 4 = d"
  proof -
    have "(65536 + n) mod 4096 = n" using n by (simp add: mod_add_eq [of 65536 4096 n, symmetric])
    moreover have "n div 4 = unat d" using i by (simp add: n_def)
    ultimately show ?thesis by (simp add: word_unat_eq_iff unat_div unat_mod u) (simp add: PAGE_SIZE_def)
  qed
  ultimately show "demo_directory (16 * PAGE_SIZE + 4 * d + of_nat i) = ucast (drop_bit (8 * i) (directory_entry d))"
    by (simp add: demo_directory_def)
qed

lemma directory_entry_parts:
  assumes "d < 1024"
  shows "directory_entry d AND 0xFFFFF000 = (17 + d) * PAGE_SIZE" "directory_entry d AND PAGING_IS_PRESENT \<noteq> 0"
proof -
  have "take_bit 12 ((17 + d) * PAGE_SIZE) = 0"
    using aligned_mult [of "17 + d"] assms
    by (simp add: paging_is_aligned_def aligned_bits word_less_nat_alt unat_word_ariths)
  from arg_cong [OF this, of bit] have low: "\<not> (n < 12 \<and> bit ((17 + d) * PAGE_SIZE) n)" for n
    by (auto simp: fun_eq_iff bit_take_bit_iff)
  have "(17 + d) * PAGE_SIZE AND 0xFFFFF000 = (17 + d) * PAGE_SIZE"
    unfolding page_mask_bits using low by (intro bit_word_eqI) (auto simp: bit_simps)
  then show "directory_entry d AND 0xFFFFF000 = (17 + d) * PAGE_SIZE"
    by (simp add: directory_entry_def bit.conj_disj_distrib2)
  show "directory_entry d AND PAGING_IS_PRESENT \<noteq> 0"
  proof
    assume "directory_entry d AND PAGING_IS_PRESENT = 0"
    then have "\<not> bit (directory_entry d AND PAGING_IS_PRESENT) 0" by simp
    then show False by (simp add: directory_entry_def PAGING_IS_PRESENT_def bit_simps)
  qed
qed

lemma demo_directory_wf: "directory_wf demo_directory 16 (\<lambda>d. 17 + d)"
proof -
  have "17 + d < 2 ^ 20 \<and> 17 + d \<noteq> 16" if "d < 1024" for d :: u32
    using that by (simp add: word_less_nat_alt word_unat_eq_iff unat_word_ariths)
  then show ?thesis
    using demo_directory_entry directory_entry_parts by (simp add: directory_wf_def)
qed

definition demo_process :: "ata sys" where
  "demo_process = (set_ram (store32 (store32 (store32 demo_directory (0x800000 + 132) 0x900000) (0x800000 + 4240) 5000)
     0x900000 (16 * PAGE_SIZE)) no_tasks)\<lparr>kernel_page_directory := 16 * PAGE_SIZE\<rparr>"


lemma demo_process_ram:
  defines "m \<equiv> sys_ram demo_process"
  shows "directory_wf m 16 (\<lambda>d. 17 + d)" "process_task m 0x800000 = 0x900000" "process_size m 0x800000 = 5000"
    "task_page_directory m 0x900000 = 16 * PAGE_SIZE" "process_data m 0x800000 = 0"
    "paging_get_phys_address m (16 * PAGE_SIZE) 0 = 0"
proof -
  have m: "m = store32 (store32 (store32 demo_directory (0x800000 + 132) 0x900000) (0x800000 + 4240) 5000)
     0x900000 (16 * PAGE_SIZE)"
    by (simp add: m_def demo_process_def sys_ram_def set_ram_def)
  show "process_task m 0x800000 = 0x900000" "process_size m 0x800000 = 5000"
    "task_page_directory m 0x900000 = 16 * PAGE_SIZE"
    by (simp_all add: m process_task_def process_size_def task_page_directory_def load32_store32_apart)
  show "process_data m 0x800000 = 0"
    by (simp add: m process_data_def load32_store32_apart) (simp add: load32_def demo_directory_def PAGE_SIZE_def)
  have low: "m a = demo_directory a" if "a < 0x800000" for a
    using that by (simp add: m store32_outside in_region_nat word_less_nat_alt)
  have "a < 0x800000" if "a div PAGE_SIZE = 16 \<or> (\<exists>d < 1024. a div PAGE_SIZE = 17 + d)" for a
  proof -
    have "\<And>d. d < 1024 \<Longrightarrow> unat (17 + d :: u32) < 1041" "unat (16 :: u32) < 1041"
      by (simp_all add: word_less_nat_alt unat_word_ariths)
    with that have "unat (a div PAGE_SIZE) < 1041" by metis
    then show ?thesis by (simp add: unat_div PAGE_SIZE_def word_less_nat_alt)
  qed
  with low show wf: "directory_wf m 16 (\<lambda>d. 17 + d)"
    by (intro directory_wf_cong(1) [OF demo_directory_wf]) blast
  have "load32 m 0x11000 = 0"
    by (simp add: load32_def low) (simp add: demo_directory_def PAGE_SIZE_def)
  then show "paging_get_phys_address m (16 * PAGE_SIZE) 0 = 0"
    using get_phys_entry [OF wf, of 0]
    by (simp add: paging_is_aligned_def PAGE_SIZE_def NULL_def Let_def)
qed


end
