(* ===== verification/Irq.thy ===== *)
theory Irq
  imports Keyboard Process
begin

text \<open>
  The state of the whole kernel, and the two C functions of \<^verbatim>\<open>kernel/src/arch/i686/isr.c\<close> the assembly
  stubs call: \<open>isr_handler\<close> for exceptions, \<open>irq_handler\<close> for device interrupts.
\<close>

section \<open>The machine\<close>

record 'd machine =
  kernel :: "'d sys"
  kbd :: keyboard
  interrupt_handlers :: "addr list"
  input_devices :: "(keyboard \<times> mem) input_device list"
  char_devices :: "char_device list"
  disks :: "'d device_registry"
  gdt :: "gdt_entry list"
  idt :: "idt_gate list"

definition kbase :: "'d machine \<Rightarrow> 'd kstate" where "kbase s = base (kernel s)"

definition set_base :: "'d kstate \<Rightarrow> 'd machine \<Rightarrow> 'd machine" where
  "set_base b s = s\<lparr>kernel := (kernel s)\<lparr>base := b\<rparr>\<rparr>"

definition in_base :: "('d kstate \<Rightarrow> ('a \<times> 'd kstate) run) \<Rightarrow> 'd machine \<Rightarrow> ('a \<times> 'd machine) run" where
  "in_base f s = rbind (f (kbase s)) (\<lambda>(x, b). Some (Ret (x, set_base b s)))"

definition say :: "'d kenv \<Rightarrow> addr \<Rightarrow> u32 list \<Rightarrow> 'd machine \<Rightarrow> 'd machine run" where
  "say env fmt args s = rbind (print env fmt args (kbase s)) (\<lambda>b. Some (Ret (set_base b s)))"

lemma kbase_set_base [simp]: "kbase (set_base b s) = b" "set_base b (set_base b' s) = set_base b s"
  by (simp_all add: kbase_def set_base_def)

text \<open>A string literal that ends with a newline.\<close>

definition nl :: "string \<Rightarrow> string" where "nl str = str @ [CHR 0x0A]"

section \<open>Exceptions\<close>

record int_registers =
  reg_ds :: u32
  reg_edi :: u32
  reg_esi :: u32
  reg_ebp :: u32
  reg_esp :: u32
  reg_ebx :: u32
  reg_edx :: u32
  reg_ecx :: u32
  reg_eax :: u32
  reg_int_no :: u32
  reg_err_code :: u32
  reg_eip :: u32
  reg_cs :: u32
  reg_eflags :: u32
  reg_useresp :: u32
  reg_ss :: u32

definition exception_messages :: "string list" where
  "exception_messages =
     [''division by zero'', ''debug'', ''non maskable interrupt'', ''breakpoint'', ''into detected overflow'',
      ''out of bounds'', ''invalid opcode'', ''no coprocessor'',
      ''double fault'', ''coprocessor segment overrun'', ''bad TSS'', ''segment not present'', ''stack fault'',
      ''General protection fault'', ''page fault'', ''Unknown interrupt'',
      ''coprocessor fault'', ''alignment check'', ''machine check'', ''reserved'', ''reserved'', ''reserved'',
      ''reserved'', ''reserved'', ''reserved'', ''reserved'', ''reserved'', ''reserved'', ''reserved'', ''reserved'',
      ''reserved'', ''reserved'']"

definition exception_report :: string where
  "exception_report = nl ''received interrupt: %i'' @ nl ''%s exception'' @ nl ''error code: %i'' @ nl ''EIP: 0x%x'' @
     nl ''ESP: 0x%x'' @ nl ''SS: 0x%x'' @ nl ''CS: 0x%x'' @ nl ''EFLAGS: 0x%x'' @ ''DS: 0x%x''"

definition enter_kernel :: "'d machine \<Rightarrow> 'd machine" where
  "enter_kernel s = s\<lparr>kernel := (kernel s)\<lparr>paging :=
     paging_switch_directory (paging (kernel s)) (kernel_page_directory (kernel s))\<rparr>\<rparr>"

text \<open>The report is printed and the kernel stops; a vector of 32 or more reads behind the table of messages.\<close>

definition isr_handler :: "'d kenv \<Rightarrow> int_registers \<Rightarrow> 'd machine \<Rightarrow> 'd machine run" where
  "isr_handler env r s =
     (let s = enter_kernel s in
      if unat (reg_int_no r) \<ge> length exception_messages then Some Fault
      else rbind (say env (literal env exception_report)
             [reg_int_no r, literal env (exception_messages ! unat (reg_int_no r)), reg_err_code r, reg_eip r, reg_esp r,
              reg_ss r, reg_cs r, reg_eflags r, reg_ds r] s)
        (\<lambda>s. Some (Panic (exception_messages ! unat (reg_int_no r)))))"

section \<open>Interrupts\<close>

text \<open>
  The handler is called through its address; the only function the kernel registers is that of the
  keyboard. \<open>out_port\<close> is a port write on the machine.
\<close>

definition out_port :: "'d kenv \<Rightarrow> u16 \<Rightarrow> u8 \<Rightarrow> 'd machine \<Rightarrow> 'd machine" where
  "out_port env port x s = set_base ((kbase s)\<lparr>hw := port_byte_out (ports env) port x (hw (kbase s))\<rparr>) s"

definition call_handler :: "'d kenv \<Rightarrow> addr \<Rightarrow> int_registers \<Rightarrow> 'd machine \<Rightarrow> 'd machine outcome" where
  "call_handler env handler r s =
     (if handler = link env ''keyboard_irq'' then
        let (kb, m, d) = keyboard_irq (ports env) (kbd s) (ram (kbase s)) (hw (kbase s))
        in Ret (set_base ((kbase s)\<lparr>ram := m, hw := d\<rparr>) (s\<lparr>kbd := kb\<rparr>))
      else Fault)"

definition irq_handler :: "'d kenv \<Rightarrow> int_registers \<Rightarrow> 'd machine \<Rightarrow> 'd machine outcome" where
  "irq_handler env r s =
     (let s = enter_kernel s; n = unat (reg_int_no r) in
      if n \<ge> length (interrupt_handlers s) then Fault
      else
        obind (if interrupt_handlers s ! n \<noteq> 0 then call_handler env (interrupt_handlers s ! n) r s else Ret s) (\<lambda>s.
          let s = (if reg_int_no r \<ge> 40 then out_port env 0xA0 0x20 s else s)
          in Ret (out_port env 0x20 0x20 s)))"

lemma keyboard_irq_put:
  assumes "port_byte_in io 0x60 d = (b, d')"
  shows "keyboard_irq io kb m d = (fst (keyboard_put b (kb, m)), snd (keyboard_put b (kb, m)),
     if key_loc kb < 255 then d' else d)"
proof (cases "key_loc kb < 255")
  case True
  then have "\<not> key_loc kb \<ge> 255" by simp
  then show ?thesis using True assms by (simp add: keyboard_irq_def keyboard_put_def scan_port_def port_byte_in_def)
next
  case False
  then have "key_loc kb \<ge> 255" by simp
  then show ?thesis using False by (simp add: keyboard_irq_def keyboard_put_def)
qed

lemma irq_handler_calls_keyboard:
  assumes "reg_int_no r = 33" "length (interrupt_handlers s) = 256" "interrupt_handlers s ! 33 = link env ''keyboard_irq''"
    and "link env ''keyboard_irq'' \<noteq> 0" and "port_byte_in (ports env) 0x60 (hw (kbase s)) = (b, d')"
  defines "p \<equiv> keyboard_put b (kbd s, ram (kbase s))"
  defines "d \<equiv> if key_loc (kbd s) < 255 then d' else hw (kbase s)"
  shows "irq_handler env r s = Ret (set_base ((kbase s)\<lparr>ram := snd p, hw := port_byte_out (ports env) 0x20 0x20 d\<rparr>)
     ((enter_kernel s)\<lparr>kbd := fst p\<rparr>))"
proof -
  have e: "kbase (enter_kernel s) = kbase s" "interrupt_handlers (enter_kernel s) = interrupt_handlers s"
    "kbd (enter_kernel s) = kbd s"
    by (simp_all add: enter_kernel_def kbase_def)
  have k: "keyboard_irq (ports env) (kbd s) (ram (kbase s)) (hw (kbase s)) = (fst p, snd p, d)"
    using keyboard_irq_put [OF assms(5)] by (simp add: p_def d_def)
  show ?thesis
    using assms(1-4) by (simp add: irq_handler_def call_handler_def out_port_def e k Let_def)
qed

lemma in_set_base [simp]:
  "kbd (set_base b s) = kbd s" "paging (kernel (set_base b s)) = paging (kernel s)"
  by (simp_all add: set_base_def)

text \<open>
  C34. A keyboard interrupt whose handler is registered puts the byte the controller offers behind the
  pending ones, when fewer than 255 are, and acknowledges the interrupt at the first controller,
  once and last. The paging registers are left on the kernel's directory, not on the one of the
  task that was interrupted.
\<close>
theorem irq_handler_keyboard:
  assumes "reg_int_no r = 33" "length (interrupt_handlers s) = 256" "interrupt_handlers s ! 33 = link env ''keyboard_irq''"
    and "link env ''keyboard_irq'' \<noteq> 0" and "key_loc (kbd s) \<le> 255"
    and "\<And>d. port_byte_in (ports env) 0x60 d = (scan d, next d)"
  shows "\<exists>s'. irq_handler env r s = Ret s'
    \<and> keyboard_pending (kbd s', ram (kbase s')) =
        (if key_loc (kbd s) < 255 then keyboard_pending (kbd s, ram (kbase s)) @ [scan (hw (kbase s))]
         else keyboard_pending (kbd s, ram (kbase s)))
    \<and> hw (kbase s') = port_byte_out (ports env) 0x20 0x20
        (if key_loc (kbd s) < 255 then next (hw (kbase s)) else hw (kbase s))
    \<and> cr3 (paging (kernel s')) = kernel_page_directory (kernel s)"
proof -
  let ?d = "hw (kbase s)" and ?p = "keyboard_put (scan (hw (kbase s))) (kbd s, ram (kbase s))"
  have ok: "keyboard_ok (kbd s, ram (kbase s))" using assms(5) by (simp add: keyboard_ok_def)
  have "length (keyboard_pending (kbd s, ram (kbase s))) < 255 \<longleftrightarrow> key_loc (kbd s) < 255"
    by (simp add: keyboard_pending_def word_less_nat_alt)
  with keyboard_put_pending(2) [OF ok] irq_handler_calls_keyboard [OF assms(1-4,6)] show ?thesis
    by (simp add: enter_kernel_def paging_switch_directory_def paging_load_directory_def kbase_def [symmetric])
qed

text \<open>A machine whose only handler is that of the keyboard; the device state is the byte at port 0x60.\<close>

definition scan_env :: "u8 kenv" where
  "scan_env = \<lparr>heap_of = \<lparr>virtual_address = 0, heap_size = 0\<rparr>, literal = (\<lambda>_. 0), local = (\<lambda>_. 0),
     link = (\<lambda>_. 0x104000), ports = scan_port, lbdev_at = undefined\<rparr>"

definition scan_machine :: "u8 machine" where
  "scan_machine = \<lparr>
     kernel = \<lparr>base = \<lparr>ram = \<lambda>_. 0, hw = 0x1E, olds = 0, console = undefined, fs_root = 0\<rparr>,
       frames = undefined, paging = \<lparr>cr0 = 0, cr3 = 0x5000, current_directory = 0x5000\<rparr>,
       current_task = 0, task_tail = 0, task_head = 0, kernel_page_directory = 0x9000, current_process = 0,
       processes = [], segment_registers = 0\<rparr>,
     kbd = \<lparr>keycache = 0x1000, key_loc = 0, key_char = 0\<rparr>,
     interrupt_handlers = (replicate 256 0)[33 := 0x104000], input_devices = [], char_devices = [],
     disks = \<lparr>block_devices = [], logical_block_devices = []\<rparr>, gdt = [], idt = []\<rparr>"

definition keyboard_registers :: int_registers where
  "keyboard_registers = \<lparr>reg_ds = 0, reg_edi = 0, reg_esi = 0, reg_ebp = 0, reg_esp = 0, reg_ebx = 0, reg_edx = 0,
     reg_ecx = 0, reg_eax = 0, reg_int_no = 33, reg_err_code = 0, reg_eip = 0, reg_cs = 0, reg_eflags = 0,
     reg_useresp = 0, reg_ss = 0\<rparr>"

theorem irq_handler_keyboard_witness:
  "\<exists>s'. irq_handler scan_env keyboard_registers scan_machine = Ret s'
     \<and> keyboard_pending (kbd s', ram (kbase s')) = [0x1E] \<and> cr3 (paging (kernel s')) = 0x9000"
proof -
  have h: "reg_int_no keyboard_registers = 33" "length (interrupt_handlers scan_machine) = 256"
    "interrupt_handlers scan_machine ! 33 = link scan_env ''keyboard_irq''" "link scan_env ''keyboard_irq'' \<noteq> 0"
    "key_loc (kbd scan_machine) \<le> 255"
    by (simp_all add: keyboard_registers_def scan_machine_def scan_env_def)
  have p: "port_byte_in (ports scan_env) 0x60 d = (d, d)" for d
    by (simp add: scan_env_def scan_port_def port_byte_in_def)
  have "keyboard_pending (kbd scan_machine, ram (kbase scan_machine)) = []" "hw (kbase scan_machine) = 0x1E"
    "key_loc (kbd scan_machine) < 255" "kernel_page_directory (kernel scan_machine) = 0x9000"
    by (simp_all add: scan_machine_def kbase_def keyboard_pending_def bytes_at_def)
  with irq_handler_keyboard [OF h p] show ?thesis by auto
qed

end
