(* ===== verification/Boot.thy ===== *)
theory Boot
  imports Irq
begin

text \<open>
  \<^verbatim>\<open>kernel_main\<close> of \<^verbatim>\<open>kernel/src/sys/kernel.c\<close>: reading the boot information, bringing up the components in
  order, and the entry into the first user program.
\<close>

section \<open>The boot information\<close>

definition MULTIBOOT2_BOOTLOADER_MAGIC :: u32 where "MULTIBOOT2_BOOTLOADER_MAGIC = 0x36d76289"
definition MULTIBOOT_TAG_TYPE_END :: u32 where "MULTIBOOT_TAG_TYPE_END = 0"
definition MULTIBOOT_TAG_TYPE_BOOT_LOADER_NAME :: u32 where "MULTIBOOT_TAG_TYPE_BOOT_LOADER_NAME = 2"
definition MULTIBOOT_TAG_TYPE_MODULE :: u32 where "MULTIBOOT_TAG_TYPE_MODULE = 3"
definition MULTIBOOT_TAG_TYPE_MMAP :: u32 where "MULTIBOOT_TAG_TYPE_MMAP = 6"
definition MULTIBOOT_TAG_TYPE_FRAMEBUFFER :: u32 where "MULTIBOOT_TAG_TYPE_FRAMEBUFFER = 8"

lemmas tag_type_defs = MULTIBOOT_TAG_TYPE_END_def MULTIBOOT_TAG_TYPE_BOOT_LOADER_NAME_def
  MULTIBOOT_TAG_TYPE_MODULE_def MULTIBOOT_TAG_TYPE_MMAP_def MULTIBOOT_TAG_TYPE_FRAMEBUFFER_def

text \<open>Fields of the tag at \<open>t\<close>; the string and the entries of a tag are addresses.\<close>

definition tag_type :: "mem \<Rightarrow> addr \<Rightarrow> u32" where "tag_type m t = load32 m t"
definition tag_size :: "mem \<Rightarrow> addr \<Rightarrow> u32" where "tag_size m t = load32 m (t + 4)"
definition tag_string :: "addr \<Rightarrow> addr" where "tag_string t = t + 8"
definition tag_mod_start :: "mem \<Rightarrow> addr \<Rightarrow> u32" where "tag_mod_start m t = load32 m (t + 8)"
definition tag_entry_size :: "mem \<Rightarrow> addr \<Rightarrow> u32" where "tag_entry_size m t = load32 m (t + 8)"
definition tag_entries :: "addr \<Rightarrow> addr" where "tag_entries t = t + 16"

record boot_info =
  bi_framebuffer :: addr
  bi_mmap :: addr
  bi_mmap_size :: u32
  bi_bootloader_name :: addr
  bi_initrd_start :: u32

definition take_tag :: "mem \<Rightarrow> addr \<Rightarrow> boot_info \<Rightarrow> boot_info" where
  "take_tag m tag bi =
     (if tag_type m tag = MULTIBOOT_TAG_TYPE_BOOT_LOADER_NAME then bi\<lparr>bi_bootloader_name := tag_string tag\<rparr>
      else if tag_type m tag = MULTIBOOT_TAG_TYPE_FRAMEBUFFER then bi\<lparr>bi_framebuffer := tag\<rparr>
      else if tag_type m tag = MULTIBOOT_TAG_TYPE_MMAP then bi\<lparr>bi_mmap := tag, bi_mmap_size := tag_size m tag\<rparr>
      else if tag_type m tag = MULTIBOOT_TAG_TYPE_MODULE then bi\<lparr>bi_initrd_start := tag_mod_start m tag\<rparr>
      else bi)"

definition next_tag :: "mem \<Rightarrow> addr \<Rightarrow> addr" where
  "next_tag m tag = tag + ((tag_size m tag + 7) AND NOT 7)"

partial_function (option) scan_tags :: "mem \<Rightarrow> addr \<Rightarrow> boot_info \<Rightarrow> boot_info option" where
  "scan_tags m tag bi =
     (if tag_type m tag \<noteq> MULTIBOOT_TAG_TYPE_END then scan_tags m (next_tag m tag) (take_tag m tag bi) else Some bi)"

text \<open>The entries of the memory map, as the loops of \<^verbatim>\<open>page_alloc_init\<close> walk over them.\<close>

definition load64 :: "mem \<Rightarrow> addr \<Rightarrow> u64" where
  "load64 m a = ucast (load32 m a) OR push_bit 32 (ucast (load32 m (a + 4)))"

definition mmap_entry_at :: "mem \<Rightarrow> addr \<Rightarrow> mmap_entry" where
  "mmap_entry_at m e = \<lparr>entry_addr = load64 m e, entry_len = load64 m (e + 8), entry_type = load32 m (e + 16)\<rparr>"

partial_function (option) mmap_entries :: "mem \<Rightarrow> addr \<Rightarrow> addr \<Rightarrow> u32 \<Rightarrow> mmap_entry list option" where
  "mmap_entries m e bound step =
     (if e < bound then Option.bind (mmap_entries m (e + step) bound step) (\<lambda>es. Some (mmap_entry_at m e # es))
      else Some [])"

section \<open>The parts of the start\<close>

text \<open>Pages \<open>lo\<close> to \<open>hi\<close>, both included, are reserved one by one.\<close>

definition reserve_pages :: "u32 \<Rightarrow> u32 \<Rightarrow> page_allocator_info \<times> mem \<Rightarrow> page_allocator_info \<times> mem" where
  "reserve_pages lo hi =
     fold (\<lambda>i (pa, m). page_reserve m pa (of_nat i * PAGE_SIZE)) [unat lo ..< Suc (unat hi)]"

text \<open>
  What the linker, the assembly and the stack supply: the bounds of the kernel image, the stubs and
  tables, the frame pointer and the flags, the address of the first logical device, and what the
  stack holds where \<^verbatim>\<open>kernel_main\<close> and the partition scan leave variables uninitialised. \<open>walk_of\<close> is
  the translation of the memory management unit.
\<close>

record 'd boot_env =
  kernel_start :: addr
  kernel_end :: addr
  isr_stub :: "nat \<Rightarrow> addr"
  irq_stub :: "nat \<Rightarrow> addr"
  gdt_addr :: addr
  idt_addr :: addr
  tss_addr :: addr
  ebp_value :: u32
  flags_value :: u32
  first_lbdev :: addr
  stack_info :: boot_info
  stack_lbdevs :: "'d logical_block_device list"
  walk_of :: "mem \<Rightarrow> addr \<Rightarrow> addr \<Rightarrow> addr"

definition KERNEL_ALLOCATOR_VADDR :: addr where "KERNEL_ALLOCATOR_VADDR = 0xFFFC0000"
definition KERNEL_ALLOCATOR_SIZE :: u32 where "KERNEL_ALLOCATOR_SIZE = 0x40000"

text \<open>\<open>PANIC_CODE(kprintf(...))\<close> with an error string, when \<open>result\<close> is not \<open>EOK\<close>.\<close>

definition check :: "'d kenv \<Rightarrow> string \<Rightarrow> u32 \<Rightarrow> 'd machine \<Rightarrow> 'b run \<Rightarrow> 'b run" where
  "check env msg result s k =
     (if result \<noteq> EOK
      then rbind (Some (string_error result)) (\<lambda>str.
           rbind (say env (literal env (nl msg)) [literal env str] s) (\<lambda>_. Some (Panic msg)))
      else k)"

definition with_ram :: "mem \<Rightarrow> 'd machine \<Rightarrow> 'd machine" where
  "with_ram m s = set_base ((kbase s)\<lparr>ram := m\<rparr>) s"

text \<open>Screen, segments and interrupt tables.\<close>

definition boot_console :: "'d kenv \<Rightarrow> 'd boot_env \<Rightarrow> boot_info \<Rightarrow> 'd machine \<Rightarrow> 'd machine run" where
  "boot_console env be bi s =
     (let (result, dev) = ega_driver_init (bi_framebuffer bi) in
      check env ''failed to initialize ega driver. error: %s'' result s (
      rbind (Some (register_char_device (char_devices s) dev)) (\<lambda>devs.
      let s = s\<lparr>char_devices := devs\<rparr> in
      rbind (returning (clear_tty (init_tty (console (kbase s)) dev) (ram (kbase s)))) (\<lambda>(t, m).
      let s = set_base ((kbase s)\<lparr>console := t, ram := m\<rparr>) s;
          (result, _, es) = segmentation_init (gdt_addr be) (tss_addr be) (gdt s) in
      check env ''failed to initialize segmentation. error: %s'' result s (
      let s = s\<lparr>gdt := es\<rparr> in
      rbind (say env (literal env (nl ''kernel booted from %s'')) [bi_bootloader_name bi] s) (\<lambda>s.
      let m = memset (ram (kbase s)) (tss_addr be) 0 sizeof_tss;
          m = store32 m (tss_addr be + 4) (ebp_value be);
          m = store32 m (tss_addr be + 8) (ucast KERNEL_DATA_SELECTOR);
          s = with_ram m s;
          (result, _, gates, d) = interrupts_init (isr_stub be) (irq_stub be) (idt_addr be) (ports env) (idt s) (hw (kbase s));
          s = set_base ((kbase s)\<lparr>hw := d\<rparr>) (s\<lparr>idt := gates\<rparr>) in
      check env ''failed to initialize interrupts. error: %s'' result s (Some (Ret s))))))))"

text \<open>
  Pages, paging and the heap. Afterwards the machine addresses memory through the kernel's
  directory, which is the identity except for the pages of the heap: the memory of the result is
  the one seen through the translation.
\<close>

definition boot_memory :: "'d kenv \<Rightarrow> 'd boot_env \<Rightarrow> addr \<Rightarrow> boot_info \<Rightarrow> 'd machine \<Rightarrow> (heap_allocator \<times> 'd machine) run" where
  "boot_memory env be info bi s =
     rbind (returning (mmap_entries (ram (kbase s)) (tag_entries (bi_mmap bi)) (bi_mmap bi + bi_mmap_size bi)
              (tag_entry_size (ram (kbase s)) (bi_mmap bi)))) (\<lambda>entries.
     rbind (page_alloc_init (ram (kbase s)) entries) (\<lambda>(result, pa, m).
     let s = with_ram m s in
     check env ''failed to initialize page allocator. error: %s'' result s (
     let start = bi_initrd_start bi;
         (pa, m) = reserve_pages (kernel_start be div PAGE_SIZE) (kernel_end be div PAGE_SIZE) (pa, m);
         (pa, m) = reserve_pages (start div PAGE_SIZE) (start div PAGE_SIZE + load32 m start div PAGE_SIZE) (pa, m);
         (pa, m) = reserve_pages (info div PAGE_SIZE) ((info + load32 m info) div PAGE_SIZE) (pa, m) in
     rbind (Some (page_directory_create m pa (ucast (PAGING_IS_PRESENT OR PAGING_IS_WRITEABLE OR PAGING_ACCESS_FROM_ALL))))
       (\<lambda>(directory, pa, m).
     let ps = paging_enable (paging_switch_directory (paging (kernel s)) directory) in
     rbind (Some (heap_init (walk_of be) ps m pa (heap_of env) KERNEL_ALLOCATOR_VADDR (KERNEL_ALLOCATOR_SIZE div PAGE_SIZE) directory))
       (\<lambda>(_, h, pa, m).
     let s = s\<lparr>kernel := (kernel s)\<lparr>frames := pa, paging := ps, kernel_page_directory := directory\<rparr>\<rparr>
     in Some (Ret (h, with_ram (\<lambda>a. m (walk_of be m directory a)) s)))))))"

text \<open>Disks, partitions and the keyboard.\<close>

definition boot_devices :: "'d kenv \<Rightarrow> 'd boot_env \<Rightarrow> 'd machine \<Rightarrow> 'd machine run" where
  "boot_devices env be s =
     check env ''failed to initialize ide driver. error: %s'' ide_driver_init s (
     rbind (ide_driver_scan_disks (ports env) (heap_of env) (disks s) (ram (kbase s)) (hw (kbase s))) (\<lambda>(result, reg, m, d).
     let s = set_base ((kbase s)\<lparr>ram := m, hw := d\<rparr>) (s\<lparr>disks := reg\<rparr>) in
     check env ''failed to scan ide disks. error: %s'' result s (
     rbind (scan_logical_block_devices_mbr (heap_of env) (stack_lbdevs be) (local env ''parse_block_device.mbr'') (disks s)
              (ram (kbase s)) (hw (kbase s))) (\<lambda>(result, reg, m, d).
     let s = set_base ((kbase s)\<lparr>ram := m, hw := d\<rparr>) (s\<lparr>disks := reg\<rparr>) in
     check env ''failed to scan mbrs. error: %s'' result s (
     rbind (keyboard_ps2_init env (interrupt_handlers s) (kbd s) (ram (kbase s))) (\<lambda>(dev, result, handlers, kb, m).
     let s = with_ram m (s\<lparr>kbd := kb, interrupt_handlers := handlers\<rparr>) in
     check env ''failed to initialize ps2 keyboard. error: %s'' result s (
     rbind (Some (register_input_device (input_devices s) dev)) (\<lambda>devs.
     Some (Ret (s\<lparr>input_devices := devs\<rparr>))))))))))"

definition quoted :: "string \<Rightarrow> string" where "quoted str = CHR 0x27 # str @ [CHR 0x27]"

text \<open>The file system on the first partition, the first program, and the jump into it.\<close>

definition boot_program ::
  "'d kenv \<Rightarrow> 'd boot_env \<Rightarrow> initrd_globals \<Rightarrow> boot_info \<Rightarrow> 'd machine \<Rightarrow> (iret_frame \<times> 'd machine) run" where
  "boot_program env be g bi s =
     (if bi_initrd_start bi = 0 then Some (Panic ''initrd module not loaded'')
      else if get_num_logical_block_devices (disks s) < 1 then Some (Panic ''no logical block device found'')
      else
        let env = env\<lparr>lbdev_at := (\<lambda>_. logical_block_devices (disks s) ! 0)\<rparr>; out = local env ''kernel_main.proc'' in
        rbind (in_base (initialise_fat32 env (first_lbdev be)) s) (\<lambda>(root, s).
        let s = set_base ((kbase s)\<lparr>fs_root := root\<rparr>) s in
        rbind (say env (literal env (nl (''running user program '' @ quoted ''/bin/blank.bin''))) [] s) (\<lambda>s.
        let s = with_ram (store32 (ram (kbase s)) out NULL) s in
        rbind (process_load env g (literal env ''/bin/blank.bin'') out (kernel s)) (\<lambda>(result, k).
        let s = s\<lparr>kernel := k\<rparr> in
        if result \<noteq> EOK
        then rbind (say env (literal env (nl (''failed to load user program '' @ quoted ''/bin/blank.bin'') @ nl ''error code: %d'')) [result] s) (\<lambda>_. Some (Panic ''failed to load user program''))
        else rbind (Some (task_run_first_task env (flags_value be) (kernel s))) (\<lambda>(frame, k).
             Some (Ret (frame, s\<lparr>kernel := k\<rparr>)))))))"

text \<open>
  \<open>None\<close> for the frame: \<^verbatim>\<open>kernel_main\<close> returned to the boot code. Otherwise the processor continues
  in user mode with the frame; the calls after \<^verbatim>\<open>task_run_first_task\<close> are not reached.
\<close>

definition kernel_main ::
  "'d kenv \<Rightarrow> 'd boot_env \<Rightarrow> initrd_globals \<Rightarrow> u32 \<Rightarrow> addr \<Rightarrow> 'd machine \<Rightarrow> (iret_frame option \<times> 'd machine) run" where
  "kernel_main env be g magic info s =
     (if magic \<noteq> MULTIBOOT2_BOOTLOADER_MAGIC then Some (Ret (None, s))
      else if info AND 7 \<noteq> 0 then Some (Ret (None, s))
      else
        rbind (returning (scan_tags (ram (kbase s)) (info + 8)
          ((stack_info be)\<lparr>bi_framebuffer := NULL, bi_mmap := NULL, bi_mmap_size := 0\<rparr>))) (\<lambda>bi.
        if bi_framebuffer bi = NULL then Some (Ret (None, s))
        else
          rbind (boot_console env be bi s) (\<lambda>s.
          rbind (boot_memory env be info bi s) (\<lambda>(h, s).
          let env = env\<lparr>heap_of := h\<rparr> in
          rbind (boot_devices env be s) (\<lambda>s.
          rbind (boot_program env be g bi s) (\<lambda>(frame, s). Some (Ret (Some frame, s))))))))"


section \<open>The tags are read in order\<close>

text \<open>\<open>boot_tags m a ts\<close>: the tags from \<open>a\<close> on are those at the addresses \<open>ts\<close>, then comes the end tag.\<close>

primrec boot_tags :: "mem \<Rightarrow> addr \<Rightarrow> addr list \<Rightarrow> bool" where
  "boot_tags m a [] \<longleftrightarrow> tag_type m a = MULTIBOOT_TAG_TYPE_END"
| "boot_tags m a (t # ts) \<longleftrightarrow> t = a \<and> tag_type m a \<noteq> MULTIBOOT_TAG_TYPE_END \<and> boot_tags m (next_tag m a) ts"

definition last_tag :: "mem \<Rightarrow> u32 \<Rightarrow> addr list \<Rightarrow> addr option" where
  "last_tag m ty ts = (let xs = filter (\<lambda>t. tag_type m t = ty) ts in if xs = [] then None else Some (last xs))"

lemma last_tag_Cons:
  "last_tag m ty (t # ts) =
     (case last_tag m ty ts of None \<Rightarrow> if tag_type m t = ty then Some t else None | Some u \<Rightarrow> Some u)"
  by (auto simp: last_tag_def Let_def)

lemma last_tag_Nil [simp]: "last_tag m ty [] = None"
  by (simp add: last_tag_def)

lemma scan_tags_fold: "boot_tags m a ts \<Longrightarrow> scan_tags m a bi = Some (fold (take_tag m) ts bi)"
  by (induction ts arbitrary: a bi) (simp_all add: scan_tags.simps [of m _ bi] scan_tags.simps [of m])

lemma fold_take_tag:
  "bi_framebuffer (fold (take_tag m) ts bi) =
     (case last_tag m MULTIBOOT_TAG_TYPE_FRAMEBUFFER ts of None \<Rightarrow> bi_framebuffer bi | Some t \<Rightarrow> t)"
  "bi_mmap (fold (take_tag m) ts bi) =
     (case last_tag m MULTIBOOT_TAG_TYPE_MMAP ts of None \<Rightarrow> bi_mmap bi | Some t \<Rightarrow> t)"
  "bi_mmap_size (fold (take_tag m) ts bi) =
     (case last_tag m MULTIBOOT_TAG_TYPE_MMAP ts of None \<Rightarrow> bi_mmap_size bi | Some t \<Rightarrow> tag_size m t)"
  "bi_bootloader_name (fold (take_tag m) ts bi) =
     (case last_tag m MULTIBOOT_TAG_TYPE_BOOT_LOADER_NAME ts of None \<Rightarrow> bi_bootloader_name bi | Some t \<Rightarrow> tag_string t)"
  "bi_initrd_start (fold (take_tag m) ts bi) =
     (case last_tag m MULTIBOOT_TAG_TYPE_MODULE ts of None \<Rightarrow> bi_initrd_start bi | Some t \<Rightarrow> tag_mod_start m t)"
  by (induction ts arbitrary: bi) (auto simp: last_tag_Cons take_tag_def tag_type_defs split: option.splits)

text \<open>
  C35. When the boot information is a sequence of tags with an end tag, the loop over it ends, and each
  item is taken from the last tag of its type. An item without a tag keeps its initial value,
  which for the name of the boot loader and the start of the ram disk is whatever the stack held.
\<close>
theorem scan_tags_takes_last:
  assumes "boot_tags m a ts"
  shows "\<exists>bi'. scan_tags m a bi = Some bi'
    \<and> bi_framebuffer bi' = (case last_tag m MULTIBOOT_TAG_TYPE_FRAMEBUFFER ts of None \<Rightarrow> bi_framebuffer bi | Some t \<Rightarrow> t)
    \<and> bi_mmap bi' = (case last_tag m MULTIBOOT_TAG_TYPE_MMAP ts of None \<Rightarrow> bi_mmap bi | Some t \<Rightarrow> t)
    \<and> bi_mmap_size bi' = (case last_tag m MULTIBOOT_TAG_TYPE_MMAP ts of None \<Rightarrow> bi_mmap_size bi | Some t \<Rightarrow> tag_size m t)
    \<and> bi_bootloader_name bi' =
        (case last_tag m MULTIBOOT_TAG_TYPE_BOOT_LOADER_NAME ts of None \<Rightarrow> bi_bootloader_name bi | Some t \<Rightarrow> tag_string t)
    \<and> bi_initrd_start bi' =
        (case last_tag m MULTIBOOT_TAG_TYPE_MODULE ts of None \<Rightarrow> bi_initrd_start bi | Some t \<Rightarrow> tag_mod_start m t)"
  using scan_tags_fold [OF assms, of bi] by (simp add: fold_take_tag)

text \<open>A tag whose size is 0 is visited for ever.\<close>

lemma scan_tags_stuck:
  assumes "tag_type m a \<noteq> MULTIBOOT_TAG_TYPE_END" "tag_size m a = 0"
  shows "scan_tags m a bi = None"
proof -
  have "\<not> (m' = m \<and> a' = a)" if "scan_tags m' a' bi' = Some r" for m' a' bi' r
  proof (rule scan_tags.raw_induct [where P = "\<lambda>m' a' bi' r. \<not> (m' = m \<and> a' = a)", OF _ that])
    fix f m' a' bi' r
    assume ih: "\<And>m' a' bi' y. f m' a' bi' = Some y \<Longrightarrow> \<not> (m' = m \<and> a' = a)"
      "(if tag_type m' a' \<noteq> MULTIBOOT_TAG_TYPE_END then f m' (next_tag m' a') (take_tag m' a' bi') else Some bi') = Some r"
    have "next_tag m a = a" using assms(2) by (simp add: next_tag_def)
    with ih assms show "\<not> (m' = m \<and> a' = a)" by (auto split: if_splits)
  qed
  then show ?thesis by (cases "scan_tags m a bi") auto
qed

section \<open>Reserved pages\<close>

lemma page_reserve_free:
  assumes "k < 2 ^ 20" "page_reserve m pa (k * PAGE_SIZE) = (pa', m')"
  shows "pa' = pa\<lparr>last_index := k\<rparr>" "page_free_at m' pa' j \<longleftrightarrow> page_free_at m pa j \<and> j \<noteq> k"
  using assms page_number [OF assms(1)] by (auto simp: page_reserve_def Let_def page_free_at_def bit_get_set)

lemma reserve_pages_upto:
  assumes "unat lo + n \<le> 2 ^ 20"
  shows "case fold (\<lambda>i (pa, m). page_reserve m pa (of_nat i * PAGE_SIZE)) [unat lo ..< unat lo + n] (pa, m) of (pa', m') \<Rightarrow>
    bitmap pa' = bitmap pa \<and> num_pages pa' = num_pages pa
    \<and> last_index pa' = (if n = 0 then last_index pa else of_nat (unat lo + n - 1))
    \<and> (\<forall>k. page_free_at m' pa' k \<longleftrightarrow> page_free_at m pa k \<and> \<not> (unat lo \<le> unat k \<and> unat k < unat lo + n))"
  using assms
proof (induction n)
  case 0
  then show ?case by simp
next
  case (Suc n)
  obtain pa1 m1 where one: "fold (\<lambda>i (pa, m). page_reserve m pa (of_nat i * PAGE_SIZE)) [unat lo ..< unat lo + n] (pa, m) = (pa1, m1)"
    by fastforce
  define k :: u32 where "k = of_nat (unat lo + n)"
  have uk: "unat k = unat lo + n" unfolding k_def using Suc.prems by (intro unat_of_nat32) simp
  then have kb: "k < 2 ^ 20" using Suc.prems by (simp add: word_less_nat_alt)
  obtain pa2 m2 where two: "page_reserve m1 pa1 (k * PAGE_SIZE) = (pa2, m2)" by fastforce
  have k_eq: "j = k \<longleftrightarrow> unat j = unat lo + n" for j using uk by (metis word_unat_eq_iff)
  have "[unat lo ..< unat lo + Suc n] = [unat lo ..< unat lo + n] @ [unat lo + n]" by simp
  then have step: "fold (\<lambda>i (pa, m). page_reserve m pa (of_nat i * PAGE_SIZE)) [unat lo ..< unat lo + Suc n] (pa, m) = (pa2, m2)"
    by (simp only: fold_append fold.simps comp_apply id_apply one prod.case k_def [symmetric] two)
  from Suc.IH Suc.prems one have ih: "bitmap pa1 = bitmap pa" "num_pages pa1 = num_pages pa"
    "\<And>k. page_free_at m1 pa1 k \<longleftrightarrow> page_free_at m pa k \<and> \<not> (unat lo \<le> unat k \<and> unat k < unat lo + n)" by simp_all
  note last = page_reserve_free [OF kb two]
  have "page_free_at m2 pa2 j \<longleftrightarrow> page_free_at m pa j \<and> \<not> (unat lo \<le> unat j \<and> unat j < unat lo + Suc n)" for j
    unfolding last(2) ih(3) k_eq by auto
  then show ?case unfolding step prod.case using last(1) ih(1,2) by (simp add: k_def)
qed

text \<open>
  C36. Reserving a range takes exactly its pages from the allocator, whatever their state was, and leaves
  the cursor on the last one, so that free pages below it are not found any more.
\<close>
theorem reserve_pages_exactly:
  assumes "lo \<le> hi" "hi < 2 ^ 20"
  shows "\<exists>pa' m'. reserve_pages lo hi (pa, m) = (pa', m') \<and> last_index pa' = hi \<and> num_pages pa' = num_pages pa
    \<and> (\<forall>k. page_free_at m' pa' k \<longleftrightarrow> page_free_at m pa k \<and> \<not> (lo \<le> k \<and> k \<le> hi))"
proof -
  define n where "n = Suc (unat hi) - unat lo"
  have le: "unat lo \<le> unat hi" "unat hi < 2 ^ 20" using assms by (simp_all add: word_le_nat_alt word_less_nat_alt)
  then have n: "unat lo + n = Suc (unat hi)" "n \<noteq> 0" by (simp_all add: n_def)
  from reserve_pages_upto [of lo n pa m] n le show ?thesis
    by (auto simp: reserve_pages_def word_le_nat_alt less_Suc_eq_le split: prod.splits)
qed

section \<open>Early returns\<close>

text \<open>
  Without the magic number, an aligned address and a framebuffer tag the kernel returns to the boot
  code and has changed nothing.
\<close>
theorem kernel_main_refuses:
  assumes "magic \<noteq> MULTIBOOT2_BOOTLOADER_MAGIC \<or> info AND 7 \<noteq> 0
    \<or> boot_tags (ram (kbase s)) (info + 8) ts \<and> (\<forall>t \<in> set ts. tag_type (ram (kbase s)) t \<noteq> MULTIBOOT_TAG_TYPE_FRAMEBUFFER)"
  shows "kernel_main env be g magic info s = Some (Ret (None, s))"
proof (cases "magic = MULTIBOOT2_BOOTLOADER_MAGIC \<and> info AND 7 = 0")
  case True
  with assms have t: "boot_tags (ram (kbase s)) (info + 8) ts"
    and "last_tag (ram (kbase s)) MULTIBOOT_TAG_TYPE_FRAMEBUFFER ts = None"
    by (auto simp: last_tag_def Let_def filter_empty_conv)
  then show ?thesis
    using True scan_tags_fold [OF t, of "(stack_info be)\<lparr>bi_framebuffer := NULL, bi_mmap := NULL, bi_mmap_size := 0\<rparr>"]
    by (simp add: kernel_main_def fold_take_tag returning_def)
qed (auto simp: kernel_main_def)

section \<open>Entering user mode\<close>

lemma load32_memcpy_block:
  assumes "disjoint_regions dest 48 src 48" "unat k + 4 \<le> 48"
  shows "load32 (memcpy m dest src 48) (dest + k) = load32 m (src + k)"
proof -
  have "memcpy m dest src 48 (dest + (k + j)) = m (src + (k + j))" if "unat j < 4" for j
  proof -
    have "unat (k + j) < 48" using that assms(2) by (simp add: unat_word_ariths)
    then show ?thesis using assms(1) by (simp add: memcpy_disjoint word_less_nat_alt)
  qed
  from this [of 0] this [of 1] this [of 2] this [of 3] show ?thesis
    by (simp add: load32_def add.assoc)
qed

text \<open>
  C37. The first return to user mode of a task that \<open>task_init\<close> prepared: execution starts at
  \<open>0x400000\<close> in the user code segment, on the stack pointer \<open>0x3FF000\<close> in the user data segment, with
  interrupts enabled, in the page directory of the task.
\<close>
theorem task_first_frame:
  assumes "task_init task process s = Ret (EOK, s')" "task \<noteq> NULL"
    and "disjoint_regions (local env ''task_run_first_task.regs'') 48 task 64"
  shows "\<exists>frame s''. task_run_first_task env flags (s'\<lparr>task_head := task\<rparr>) = Ret (frame, s'')
    \<and> iret_eip frame = 0x400000 \<and> iret_cs frame = 0x1B \<and> iret_esp frame = 0x3FF000 \<and> iret_ss frame = 0x23
    \<and> bit (iret_eflags frame) 9 \<and> segment_registers s'' = 0x23 \<and> current_task s'' = task
    \<and> cr3 (paging s'') = task_page_directory (sys_ram s') task"
proof -
  let ?regs = "local env ''task_run_first_task.regs''"
  define m where "m = sys_ram s'"
  obtain d m0 where m: "m = store32 (store32 (store32 (store32 (store32 (store32 m0 task d) (task + 32) KERNEL_TASK_VADDR)
      (task + 48) USER_DATA_SELECTOR) (task + 36) USER_CODE_SELECTOR) (task + 44) KERNEL_TASK_STACK_VADDR) (task + 52) process"
    using assms(1) by (auto simp: task_init_def obind_Ret_iff Let_def m_def status_defs split: if_splits)
  have f: "load32 m (task + 32) = KERNEL_TASK_VADDR" "load32 m (task + 36) = USER_CODE_SELECTOR"
    "load32 m (task + 44) = KERNEL_TASK_STACK_VADDR" "load32 m (task + 48) = USER_DATA_SELECTOR"
    "load32 m task = d"
    by (simp_all add: m load32_store32_apart)
  have inside: "in_region (task + 4) 48 a \<Longrightarrow> in_region task 64 a" for a
    using in_region_add [of task 4 48 a] by (auto simp: in_region_def)
  then have dj: "disjoint_regions ?regs 48 (task + 4) 48"
    using assms(3) by (simp add: disjoint_regions_def in_region_def) (meson order.strict_trans2)
  have copied: "load32 (memcpy m ?regs (task + 4) 48) (?regs + k) = load32 m (task + (k + 4))" if "unat k + 4 \<le> 48" for k
    using load32_memcpy_block [OF dj that, of m] by (simp add: algebra_simps)
  have c: "load32 (memcpy m ?regs (task + 4) 48) (?regs + 28) = KERNEL_TASK_VADDR"
    "load32 (memcpy m ?regs (task + 4) 48) (?regs + 32) = USER_CODE_SELECTOR"
    "load32 (memcpy m ?regs (task + 4) 48) (?regs + 40) = KERNEL_TASK_STACK_VADDR"
    "load32 (memcpy m ?regs (task + 4) 48) (?regs + 44) = USER_DATA_SELECTOR"
    using copied [of 28] copied [of 32] copied [of 40] copied [of 44] f by simp_all
  let ?M = "memcpy m ?regs (task + 4) 48"
  have "?M a = m a" if "in_region task 4 a" for a
  proof -
    have "in_region task 64 a" using that by (auto simp: in_region_def)
    then have "\<not> in_region ?regs 48 a" using assms(3) by (auto simp: disjoint_regions_def)
    then show ?thesis using memcpy_disjoint [of ?regs 48 "task + 4" m a] dj by (simp add: in_region_def word_less_nat_alt)
  qed
  then have pd: "task_page_directory ?M task = task_page_directory m task"
    unfolding task_page_directory_def by (rule load32_cong)
  have run: "task_run_first_task env flags (s'\<lparr>task_head := task\<rparr>) =
    Ret (task_return ?M ?regs flags, (snd (task_switch task (set_ram ?M (s'\<lparr>task_head := task, current_task := task\<rparr>))))
      \<lparr>segment_registers := ucast (load32 ?M (?regs + 44))\<rparr>)"
    using assms(2) by (simp add: task_run_first_task_def Let_def task_switch_def task_return_def m_def)
  have "bit (flags OR 0x200) 9" by (simp add: bit_simps)
  with run c pd show ?thesis
    by (simp add: task_return_def task_switch_def KERNEL_TASK_VADDR_def USER_CODE_SELECTOR_def KERNEL_TASK_STACK_VADDR_def
        USER_DATA_SELECTOR_def paging_switch_directory_def paging_load_directory_def m_def)
qed

section \<open>Witnesses\<close>

definition fb_boot_mem :: mem where
  "fb_boot_mem = store32 (store32 (\<lambda>_. 0) 0x1008 8) 0x100C 32"

theorem scan_tags_takes_last_witness:
  "\<exists>bi'. scan_tags fb_boot_mem 0x1008 \<lparr>bi_framebuffer = 0, bi_mmap = 0, bi_mmap_size = 0, bi_bootloader_name = 7, bi_initrd_start = 9\<rparr>
     = Some bi' \<and> bi_framebuffer bi' = 0x1008 \<and> bi_initrd_start bi' = 9"
proof -
  have z: "load32 (\<lambda>_. 0) a = 0" for a by (simp add: load32_def)
  have t: "tag_type fb_boot_mem 0x1008 = 8" "tag_size fb_boot_mem 0x1008 = 32" "tag_type fb_boot_mem 0x1028 = 0"
    by (simp_all add: tag_type_def tag_size_def fb_boot_mem_def load32_store32_apart z)
  have "boot_tags fb_boot_mem 0x1008 [0x1008]" by (simp add: t next_tag_def tag_type_defs)
  from scan_tags_takes_last [OF this, of "\<lparr>bi_framebuffer = 0, bi_mmap = 0, bi_mmap_size = 0, bi_bootloader_name = 7, bi_initrd_start = 9\<rparr>"]
  show ?thesis by (auto simp: last_tag_def t tag_type_defs)
qed

theorem reserve_pages_exactly_witness:
  "\<exists>pa' m'. reserve_pages 3 5 (\<lparr>bitmap = 0x8000, num_pages = 16, last_index = 0\<rparr>, \<lambda>_. 0) = (pa', m')
     \<and> \<not> page_free_at m' pa' 4 \<and> last_index pa' = 5"
  using reserve_pages_exactly [of 3 5 "\<lparr>bitmap = 0x8000, num_pages = 16, last_index = 0\<rparr>" "\<lambda>_. 0"] by auto

theorem kernel_main_refuses_witness:
  "kernel_main scan_env undefined no_initrd MULTIBOOT2_BOOTLOADER_MAGIC 0x1000 scan_machine = Some (Ret (None, scan_machine))"
proof -
  have "boot_tags (ram (kbase scan_machine)) (0x1000 + 8) []"
    by (simp add: scan_machine_def kbase_def tag_type_def load32_def tag_type_defs)
  then show ?thesis by (intro kernel_main_refuses [of _ _ _ "[]"]) simp
qed


definition empty_sys :: "ata sys" where
  "empty_sys = (set_ram empty_mem no_tasks)\<lparr>frames := small_allocator\<rparr>"

lemma empty_sys_task_init: "\<exists>s'. task_init 0xB00000 0xB10000 empty_sys = Ret (EOK, s')"
proof -
  have m: "memset empty_mem 0xB00000 0 64 = empty_mem" by (auto simp: memset_eq empty_mem_def)
  have "num_pages small_allocator \<le> 2 ^ 20" "1025 + 0x40 \<le> card (free_above empty_mem small_allocator)"
    "\<forall>k \<in> free_above empty_mem small_allocator. off_bitmap small_allocator k"
    "bit (ucast (PAGING_IS_PRESENT OR PAGING_ACCESS_FROM_ALL) :: u8) 0"
    using small_allocator_off
    by (simp_all add: small_allocator_free card_words_below PAGING_IS_PRESENT_def PAGING_ACCESS_FROM_ALL_def)
      (simp add: small_allocator_def)
  from page_directory_create_reserved [OF this] obtain d pa' m' where
    c: "page_directory_create empty_mem small_allocator (ucast (PAGING_IS_PRESENT OR PAGING_ACCESS_FROM_ALL)) = Ret (d, pa', m')"
    by blast
  have "\<not> bit_get empty_mem 0xA00000 1" by (simp add: bit_get_byte empty_mem_def)
  then have "page_alloc empty_mem small_allocator = Ret (1 * PAGE_SIZE, small_allocator, bit_set empty_mem 0xA00000 1)"
    by (simp add: page_alloc_def page_alloc_loop.simps [of empty_mem "\<lparr>bitmap = 0xA00000, num_pages = 0x800, last_index = 1\<rparr>" 1] small_allocator_def)
  with c have "d = PAGE_SIZE" by (auto simp: page_directory_create_def obind_Ret_iff)
  then have "d \<noteq> NULL" by (simp add: PAGE_SIZE_def NULL_def)
  then show ?thesis
    using c by (simp add: task_init_def empty_sys_def sizeof_task_def sys_ram_def set_ram_def m Let_def)
qed

theorem task_first_frame_witness:
  "\<exists>frame s' s''. task_run_first_task demo_env 2 (s'\<lparr>task_head := 0xB00000\<rparr>) = Ret (frame, s'') \<and> iret_eip frame = 0x400000
     \<and> task_init 0xB00000 0xB10000 empty_sys = Ret (EOK, s')"
proof -
  obtain s' where i: "task_init 0xB00000 0xB10000 empty_sys = Ret (EOK, s')" using empty_sys_task_init by blast
  have "(0xB00000 :: addr) \<noteq> NULL" by (simp add: NULL_def)
  moreover have "disjoint_regions (local demo_env ''task_run_first_task.regs'') 48 0xB00000 64"
    by (rule disjoint_regions_nat) (simp_all add: demo_env_def)
  ultimately show ?thesis using task_first_frame [OF i] i by blast
qed

end
