(* ===== verification/Shell.thy ===== *)
theory Shell
  imports Boot
begin

text \<open>
  \<^verbatim>\<open>kernel/src/sys/shell.c\<close>: splitting a line into a command and its arguments, the commands, and the
  loop that collects the keys of a line. The lines, the commands and their arguments are strings in
  the kernel's memory.
\<close>

section \<open>Parsing a line\<close>

record command_info =
  command :: addr
  arguments :: addr
  num_arguments :: u32

definition blanks :: string where "blanks = [CHR '' '', CHR 0x09, CHR 0x0A]"

definition dup_prefix :: "'d kenv \<Rightarrow> addr \<Rightarrow> u32 \<Rightarrow> 'd kstate \<Rightarrow> (addr \<times> 'd kstate) run" where
  "dup_prefix env p n s = rbind (strndup (ram s) (heap_of env) p n) (\<lambda>(q, m). Some (Ret (q, s\<lparr>ram := m\<rparr>)))"

text \<open>The loop ends when the array is full, but only after a token has been stored.\<close>

partial_function (option) token_loop ::
  "'d kenv \<Rightarrow> u32 \<Rightarrow> addr \<Rightarrow> addr \<Rightarrow> u32 \<Rightarrow> 'd kstate \<Rightarrow> (u32 \<times> 'd kstate) run" where
  "token_loop env max_arguments args token arg_index s =
     (if token \<noteq> NULL then
        rbind (dup_string env token s) (\<lambda>(p, s).
          let s = s\<lparr>ram := store32 (ram s) (args + 4 * arg_index) p\<rparr>; arg_index = arg_index + 1 in
          if arg_index \<ge> max_arguments then Some (Ret (arg_index, s))
          else rbind (next_token NULL (literal env blanks) s) (\<lambda>(token, s).
                 token_loop env max_arguments args token arg_index s))
      else Some (Ret (arg_index, s)))"

definition parse_command :: "'d kenv \<Rightarrow> addr \<Rightarrow> u32 \<Rightarrow> 'd kstate \<Rightarrow> (command_info \<times> 'd kstate) run" where
  "parse_command env line len s =
     (if len = 0 \<or> line = NULL then Some (Ret (\<lparr>command = NULL, arguments = NULL, num_arguments = 0\<rparr>, s))
      else
        rbind (returning (strcspn (ram s) line (literal env blanks))) (\<lambda>command_end.
        rbind (dup_prefix env line command_end s) (\<lambda>(cmd, s).
        let max_arguments = len div 2 in
        rbind (alloc env (4 * max_arguments) s) (\<lambda>(args, s).
        if args = NULL then Some (Ret (\<lparr>command = NULL, arguments = args, num_arguments = 0\<rparr>, release cmd s))
        else
          rbind (dup_string env line s) (\<lambda>(line_copy, s).
          rbind (next_token line_copy (literal env blanks) s) (\<lambda>(token, s).
          rbind (token_loop env max_arguments args token 0 s) (\<lambda>(arg_index, s).
          Some (Ret (\<lparr>command = cmd, arguments = args, num_arguments = arg_index\<rparr>, release line_copy s)))))))))"

definition argument :: "mem \<Rightarrow> command_info \<Rightarrow> u32 \<Rightarrow> addr" where
  "argument m info i = load32 m (arguments info + 4 * i)"

definition free_command_info :: "command_info \<Rightarrow> 'd kstate \<Rightarrow> 'd kstate" where
  "free_command_info info s =
     (let s = release (command info) s;
          s = fold (\<lambda>i s. release (argument (ram s) info (of_nat i)) s) [0 ..< unat (num_arguments info)] s
      in release (arguments info) s)"

section \<open>Commands\<close>

definition str_equal :: "mem \<Rightarrow> addr \<Rightarrow> addr \<Rightarrow> bool run" where
  "str_equal m p q = rbind (returning (strcmp m p q)) (\<lambda>r. Some (Ret (r = 0)))"

definition dot_entry :: "'d kenv \<Rightarrow> mem \<Rightarrow> addr \<Rightarrow> bool run" where
  "dot_entry env m name =
     rbind (str_equal m name (literal env ''.'')) (\<lambda>e.
       if e then Some (Ret True) else str_equal m name (literal env ''..''))"

definition close_node :: "'d kenv \<Rightarrow> addr \<Rightarrow> 'd machine \<Rightarrow> 'd machine run" where
  "close_node env node s = rbind (close_fs env node (kbase s)) (\<lambda>b. Some (Ret (set_base b s)))"

definition say_if :: "bool \<Rightarrow> 'd kenv \<Rightarrow> string \<Rightarrow> 'd machine \<Rightarrow> 'd machine run" where
  "say_if c env str s = (if c then say env (literal env str) [] s else Some (Ret s))"

text \<open>A name is at the start of its directory entry. The node that is looked up is not checked.\<close>

partial_function (option) ls_loop ::
  "'d kenv \<Rightarrow> initrd_globals \<Rightarrow> addr \<Rightarrow> u32 \<Rightarrow> u32 \<Rightarrow> 'd machine \<Rightarrow> 'd machine run" where
  "ls_loop env g path_node i limit s =
     rbind (in_base (readdir_fs env g path_node i) s) (\<lambda>(node, s).
     if node = 0 then Some (Ret s)
     else
       rbind (dot_entry env (ram (kbase s)) node) (\<lambda>dot.
       if dot then ls_loop env g path_node (i + 1) (limit + 1) s
       else
         rbind (say_if (limit <s i) env '', '' s) (\<lambda>s.
         rbind (say env (literal env ''%s'') [node] s) (\<lambda>s.
         rbind (in_base (finddir_fs env g path_node node) s) (\<lambda>(fsnode, s).
         rbind (say_if (node_flags (ram (kbase s)) fsnode AND 7 = FS_DIRECTORY) env '' (d)'' s) (\<lambda>s.
         rbind (close_node env fsnode s) (\<lambda>s.
         ls_loop env g path_node (i + 1) limit s)))))))"

text \<open>Each command returns with \<open>True\<close> where the code goes on to the end of \<^verbatim>\<open>process_command\<close>.\<close>

definition shell_ls :: "'d kenv \<Rightarrow> initrd_globals \<Rightarrow> command_info \<Rightarrow> 'd machine \<Rightarrow> 'd machine run" where
  "shell_ls env g info s =
     (if num_arguments info < 2 then say env (literal env (nl ''error: no directory specified'')) [] s
      else
        let path = argument (ram (kbase s)) info 1 in
        rbind (in_base (open_fs env path) s) (\<lambda>(path_node, s).
        if path_node = 0 then say env (literal env (nl ''error: file or directory does not exist'')) [] s
        else
          rbind (say env (literal env (nl (''listing contents of directory '' @ quoted ''%s''))) [path] s) (\<lambda>s.
          rbind (ls_loop env g path_node 0 0 s) (\<lambda>s.
          rbind (say env (literal env (nl '''')) [] s) (\<lambda>s. close_node env path_node s)))))"

definition shell_print :: "'d kenv \<Rightarrow> initrd_globals \<Rightarrow> command_info \<Rightarrow> 'd machine \<Rightarrow> 'd machine run" where
  "shell_print env g info s =
     (if num_arguments info < 2 then say env (literal env (nl ''error: no file specified'')) [] s
      else
        rbind (in_base (open_fs env (argument (ram (kbase s)) info 1)) s) (\<lambda>(path_node, s).
        if path_node = 0 then say env (literal env (nl ''error: file or directory does not exist'')) [] s
        else
          rbind (in_base (alloc env (node_filesize (ram (kbase s)) path_node + 1)) s) (\<lambda>(buf, s).
          rbind (in_base (read_fs env g path_node 0 (node_filesize (ram (kbase s)) path_node) buf) s) (\<lambda>(_, s).
          let m = ram (kbase s); s = with_ram (m(buf + node_filesize m path_node := 0)) s in
          rbind (say env (literal env (nl ''%s'')) [buf] s) (\<lambda>s.
          close_node env path_node (set_base (release buf (kbase s)) s))))))"

definition shell_page :: "'d kenv \<Rightarrow> 'd machine \<Rightarrow> 'd machine run" where
  "shell_page env s =
     rbind (Some (page_alloc (ram (kbase s)) (frames (kernel s)))) (\<lambda>(ptr, pa, m).
       say env (literal env (nl ''new page allocated at 0x%p'')) [ptr]
         (with_ram m (s\<lparr>kernel := (kernel s)\<lparr>frames := pa\<rparr>\<rparr>)))"

text \<open>The names of the registered devices are strings in memory; \<open>name_at\<close> gives their addresses.\<close>

fun dump_disks :: "'d kenv \<Rightarrow> (nat \<Rightarrow> addr) \<Rightarrow> nat \<Rightarrow> 'd block_device list \<Rightarrow> 'd machine \<Rightarrow> 'd machine run" where
  "dump_disks env name_at i [] s = Some (Ret s)"
| "dump_disks env name_at i (bd # bds) s =
     rbind (say env (literal env (CHR 0x09 # nl ''%s: id %d, block size %d, num blocks %d''))
       [name_at i, bdev_device_id bd, block_size bd, total_blocks bd] s) (dump_disks env name_at (i + 1) bds)"

fun dump_partitions ::
  "'d kenv \<Rightarrow> (nat \<Rightarrow> addr) \<Rightarrow> nat \<Rightarrow> 'd logical_block_device list \<Rightarrow> 'd machine \<Rightarrow> 'd machine run" where
  "dump_partitions env name_at i [] s = Some (Ret s)"
| "dump_partitions env name_at i (lb # lbs) s =
     rbind (say env (literal env (CHR 0x09 # nl ''%s: id %d, offset %d, num blocks %d, type %d''))
       [name_at i, lb_device_id lb, lba_offset lb, lb_num_blocks lb, ucast (lb_type lb)] s)
       (dump_partitions env name_at (i + 1) lbs)"

definition shell_dumpdisks :: "'d kenv \<Rightarrow> (nat \<Rightarrow> addr) \<Rightarrow> (nat \<Rightarrow> addr) \<Rightarrow> 'd machine \<Rightarrow> 'd machine run" where
  "shell_dumpdisks env disk_name partition_name s =
     rbind (say env (literal env (nl ''scanned disks:'')) [] s) (\<lambda>s.
     rbind (dump_disks env disk_name 0 (block_devices (disks s)) s) (\<lambda>s.
     rbind (say env (literal env (nl ''scanned parititons:'')) [] s) (\<lambda>s.
     dump_partitions env partition_name 0 (logical_block_devices (disks s)) s)))"

primrec echo_loop :: "'d kenv \<Rightarrow> command_info \<Rightarrow> nat list \<Rightarrow> 'd machine \<Rightarrow> 'd machine run" where
  "echo_loop env info [] s = Some (Ret s)"
| "echo_loop env info (i # xs) s =
     rbind (say env (literal env (nl ''%s'')) [argument (ram (kbase s)) info (of_nat i)] s) (echo_loop env info xs)"

definition shell_echo :: "'d kenv \<Rightarrow> command_info \<Rightarrow> 'd machine \<Rightarrow> 'd machine run" where
  "shell_echo env info s = echo_loop env info [1 ..< unat (num_arguments info)] s"

definition help_text :: string where
  "help_text =
     nl ''list of commands:'' @
     nl '' - help: prints this message'' @
     nl '' - sysinfo: gives you info about the kernel version'' @
     nl '' - ls: list files in directory'' @
     nl '' - print: prints the content of the specified file'' @
     nl '' - page: dynamicly allocates a page and prints it'' @
     nl '' - dumpdisks: prints information about scanned block devices'' @
     nl '' - echo: echoes arguments''"

definition sysinfo_text :: string where
  "sysinfo_text = nl ''LuhOS 32Bit - i386'' @ nl ''kernel version 0.1'' @ nl ''copyright Nico Grundei 2023''"

text \<open>The names are compared one after the other until one is equal.\<close>

primrec find_command :: "'d kenv \<Rightarrow> mem \<Rightarrow> addr \<Rightarrow> string list \<Rightarrow> string option run" where
  "find_command env m cmd [] = Some (Ret None)"
| "find_command env m cmd (name # names) =
     rbind (str_equal m cmd (literal env name)) (\<lambda>e.
       if e then Some (Ret (Some name)) else find_command env m cmd names)"

definition shell_commands :: "string list" where
  "shell_commands = [''help'', ''sysinfo'', ''ls'', ''print'', ''page'', ''dumpdisks'', ''echo'']"

record names =
  disk_name :: "nat \<Rightarrow> addr"
  partition_name :: "nat \<Rightarrow> addr"

definition run_command ::
  "'d kenv \<Rightarrow> initrd_globals \<Rightarrow> names \<Rightarrow> addr \<Rightarrow> command_info \<Rightarrow> string option \<Rightarrow> 'd machine \<Rightarrow> 'd machine run" where
  "run_command env g nm line info which s =
     (if which = Some ''help'' then say env (literal env help_text) [] s
      else if which = Some ''sysinfo'' then say env (literal env sysinfo_text) [] s
      else if which = Some ''ls'' then shell_ls env g info s
      else if which = Some ''print'' then shell_print env g info s
      else if which = Some ''page'' then shell_page env s
      else if which = Some ''dumpdisks'' then shell_dumpdisks env (disk_name nm) (partition_name nm) s
      else if which = Some ''echo'' then shell_echo env info s
      else say env (literal env (nl (''unknown command: '' @ CHR 0x22 # ''%s'' @ [CHR 0x22]))) [line] s)"

definition process_command ::
  "'d kenv \<Rightarrow> initrd_globals \<Rightarrow> names \<Rightarrow> addr \<Rightarrow> u32 \<Rightarrow> 'd machine \<Rightarrow> 'd machine run" where
  "process_command env g nm line len s =
     (if len = 0 then Some (Ret s)
      else
        rbind (in_base (parse_command env line len) s) (\<lambda>(info, s).
        rbind (find_command env (ram (kbase s)) (command info) shell_commands) (\<lambda>which.
        rbind (run_command env g nm line info which s) (\<lambda>s.
        Some (Ret (set_base (free_command_info info (kbase s)) s))))))"

section \<open>The keys of a line\<close>

definition sgr :: "string \<Rightarrow> string" where "sgr code = [CHR 0x1B, CHR ''[''] @ code @ ''m''"

definition shell_welcome :: string where
  "shell_welcome = nl (sgr ''32'' @
     ''Welcome to LuhOS. This is a work in progress kernel shell. Have fun!'' @ sgr ''0'')"

definition shell_prompt :: string where
  "shell_prompt = ''<'' @ sgr ''31'' @ ''luh32'' @ sgr ''0'' @ ''@'' @ sgr ''34;1'' @ ''kernel'' @ sgr ''0'' @ ''>$ ''"

text \<open>One key: the length of the line and the machine afterwards. \<open>line\<close> is the address of the line.\<close>

definition shell_key ::
  "'d kenv \<Rightarrow> initrd_globals \<Rightarrow> names \<Rightarrow> addr \<Rightarrow> u32 \<Rightarrow> u32 \<times> 'd machine \<Rightarrow> (u32 \<times> 'd machine) run" where
  "shell_key env g nm line key = (\<lambda>(line_len, s).
     rbind (Some (key_code_to_ascii key)) (\<lambda>ascii_key.
     if ascii_key = 0 \<or> line_len \<ge> 256 then Some (Ret (line_len, s))
     else if ascii_key = 10 then
       rbind (say env (literal env (nl '''')) [] s) (\<lambda>s.
       rbind (process_command env g nm line line_len s) (\<lambda>s.
       rbind (say env (literal env shell_prompt) [] s) (\<lambda>s.
       Some (Ret (0, with_ram (memset (ram (kbase s)) line 0 256) s)))))
     else if ascii_key = 8 then
       (if line_len = 0 then Some (Ret (line_len, s))
        else rbind (say env (literal env [CHR 0x08]) [] (with_ram ((ram (kbase s))(line + line_len := 0)) s)) (\<lambda>s.
             Some (Ret (line_len - 1, s))))
     else
       rbind (say env (literal env ''%c'') [ucast ascii_key] s) (\<lambda>s.
       Some (Ret (line_len + 1, with_ram ((ram (kbase s))(line + line_len := ascii_key)) s)))))"

text \<open>One device is asked for an event; then all devices once, which is a round of the endless loop.\<close>

definition shell_poll ::
  "'d kenv \<Rightarrow> initrd_globals \<Rightarrow> names \<Rightarrow> addr \<Rightarrow> (keyboard \<times> mem) input_device \<Rightarrow> u32 \<times> 'd machine \<Rightarrow> (u32 \<times> 'd machine) run" where
  "shell_poll env g nm line dev = (\<lambda>(line_len, s).
     (let (_, event, kb, m) = input_device_get_event dev no_event (kbd s, ram (kbase s));
          s = with_ram m (s\<lparr>kbd := kb\<rparr>) in
      if ev_type event \<noteq> INPUT_EVENT_KEY then Some (Ret (line_len, s))
      else shell_key env g nm line (ev_data event ! 0) (line_len, s)))"

primrec shell_devices ::
  "'d kenv \<Rightarrow> initrd_globals \<Rightarrow> names \<Rightarrow> addr \<Rightarrow> (keyboard \<times> mem) input_device list \<Rightarrow> u32 \<times> 'd machine \<Rightarrow> (u32 \<times> 'd machine) run" where
  "shell_devices env g nm line [] x = Some (Ret x)"
| "shell_devices env g nm line (dev # devs) x = rbind (shell_poll env g nm line dev x) (shell_devices env g nm line devs)"

definition shell_round ::
  "'d kenv \<Rightarrow> initrd_globals \<Rightarrow> names \<Rightarrow> addr \<Rightarrow> u32 \<times> 'd machine \<Rightarrow> (u32 \<times> 'd machine) run" where
  "shell_round env g nm line x = shell_devices env g nm line (input_devices (snd x)) x"

definition shell_start :: "'d kenv \<Rightarrow> 'd machine \<Rightarrow> (addr \<times> 'd machine) run" where
  "shell_start env s =
     rbind (say env (literal env shell_welcome) [] s) (\<lambda>s.
     rbind (say env (literal env shell_prompt) [] s) (\<lambda>s.
     rbind (in_base (alloc env 256) s) (\<lambda>(line, s).
     Some (Ret (line, with_ram (memset (ram (kbase s)) line 0 256) s)))))"

text \<open>\<^verbatim>\<open>run_kernel_shell\<close> never returns: it is the start followed by any number of rounds, between which the
  keyboard interrupts.\<close>

inductive shell_step :: "'d kenv \<Rightarrow> initrd_globals \<Rightarrow> names \<Rightarrow> addr \<Rightarrow> u32 \<times> 'd machine \<Rightarrow> u32 \<times> 'd machine \<Rightarrow> bool"
  for env g nm line where
  a_round: "shell_round env g nm line x = Some (Ret y) \<Longrightarrow> shell_step env g nm line x y"
| an_interrupt: "irq_handler env r s = Ret s' \<Longrightarrow> shell_step env g nm line (n, s) (n, s')"

inductive run_kernel_shell :: "'d kenv \<Rightarrow> initrd_globals \<Rightarrow> names \<Rightarrow> 'd machine \<Rightarrow> addr \<Rightarrow> u32 \<times> 'd machine \<Rightarrow> bool"
  for env g nm s where
  starts: "shell_start env s = Some (Ret (line, s')) \<Longrightarrow> run_kernel_shell env g nm s line (0, s')"
| goes_on: "run_kernel_shell env g nm s line x \<Longrightarrow> shell_step env g nm line x y \<Longrightarrow> run_kernel_shell env g nm s line y"

inductive_cases shell_stepE: "shell_step env g nm line x y"

section \<open>The length of the line\<close>

lemma pred_le: "n \<le> b \<Longrightarrow> n \<noteq> 0 \<Longrightarrow> n - 1 \<le> b" for n b :: u32
  by (simp add: word_le_nat_alt unat_minus_one)

lemma shell_key_len:
  assumes "shell_key env g nm line key (n, s) = Some (Ret (n', s'))" "n \<le> 256"
  shows "n' \<le> 256"
  using assms by (auto simp: shell_key_def rbind_Ret_iff not_le inc_le pred_le split: if_splits)

lemma shell_key_full:
  assumes "shell_key env g nm line key (n, s) = Some (Ret (n', s'))" "256 \<le> n"
  shows "n' = n \<and> s' = s"
  using assms by (auto simp: shell_key_def rbind_Ret_iff)

lemma shell_poll_len:
  assumes "shell_poll env g nm line dev (n, s) = Some (Ret (n', s'))"
  shows "n \<le> 256 \<Longrightarrow> n' \<le> 256" "256 \<le> n \<Longrightarrow> n' = n \<and> console (kbase s') = console (kbase s)"
proof -
  obtain res event kb m where e: "input_device_get_event dev no_event (kbd s, ram (kbase s)) = (res, event, kb, m)"
    by (metis prod_cases4)
  let ?s = "with_ram m (s\<lparr>kbd := kb\<rparr>)"
  have c: "console (kbase ?s) = console (kbase s)" by (simp add: with_ram_def kbase_def set_base_def)
  from assms have "n' = n \<and> s' = ?s \<or> shell_key env g nm line (ev_data event ! 0) (n, ?s) = Some (Ret (n', s'))"
    by (auto simp: shell_poll_def e Let_def split: if_splits)
  with c show "n \<le> 256 \<Longrightarrow> n' \<le> 256" "256 \<le> n \<Longrightarrow> n' = n \<and> console (kbase s') = console (kbase s)"
    by (auto dest: shell_key_len shell_key_full)
qed

lemma shell_devices_len:
  "shell_devices env g nm line devs x = Some (Ret y) \<Longrightarrow> fst x \<le> 256 \<Longrightarrow> fst y \<le> 256"
  "shell_devices env g nm line devs x = Some (Ret y) \<Longrightarrow> 256 \<le> fst x \<Longrightarrow>
     fst y = fst x \<and> console (kbase (snd y)) = console (kbase (snd x))"
  by (induction devs arbitrary: x) (fastforce simp: rbind_Ret_iff dest: shell_poll_len)+

lemma irq_handler_console:
  assumes "irq_handler env r s = Ret s'"
  shows "console (kbase s') = console (kbase s)"
  using assms by (auto simp: irq_handler_def call_handler_def enter_kernel_def out_port_def kbase_def set_base_def Let_def
      obind_Ret_iff split: if_splits prod.splits)
 
lemma shell_step_len:
  assumes "shell_step env g nm line x y"
  shows "fst x \<le> 256 \<Longrightarrow> fst y \<le> 256" "256 \<le> fst x \<Longrightarrow> fst y = fst x \<and> console (kbase (snd y)) = console (kbase (snd x))"
  using assms by (auto elim!: shell_stepE simp: shell_round_def irq_handler_console dest: shell_devices_len)

text \<open>
  C39. However the rounds of the shell and the interrupts interleave, the line never has more than the
  256 characters it has room for.
\<close>
theorem shell_line_bounded:
  assumes "run_kernel_shell env g nm s line x"
  shows "fst x \<le> 256"
  using assms by induction (auto dest: shell_step_len)

text \<open>
  C40. After 256 characters the shell is deaf: whatever is typed then, the newline and the backspace
  included, neither the line nor the terminal changes any more.
\<close>
theorem shell_full_line_is_final:
  assumes "(shell_step env g nm line)\<^sup>*\<^sup>* (256, s) y"
  shows "fst y = 256 \<and> console (kbase (snd y)) = console (kbase s)"
  using assms by (induction rule: rtranclp_induct) (auto dest: shell_step_len(2))

section \<open>The arguments of a command\<close>

text \<open>
  The number of arguments is at most the room in the array, except that the first one is stored
  even when there is none: a line of one character makes an array of no entries.
\<close>
theorem token_loop_count:
  assumes "token_loop env max_arguments args token 0 s = Some (Ret (n, s'))" "max_arguments < 2 ^ 31"
  shows "n \<le> max 1 max_arguments \<and> (token \<noteq> NULL \<longrightarrow> 0 < n)"
proof -
  let ?P = "\<lambda>n i token mx. i \<le> n \<and> n \<le> max 1 mx \<and> (token \<noteq> NULL \<longrightarrow> i < n)"
  have "(i = 0 \<or> i < mx) \<and> mx < 2 ^ 31 \<longrightarrow> (\<forall>n s'. r = Ret (n, s') \<longrightarrow> ?P n i token mx)"
    if "token_loop env mx args token i s = Some r" for env mx args token i s r
  proof (rule token_loop.raw_induct [where P = "\<lambda>env mx args token i s r.
        (i = 0 \<or> i < mx) \<and> mx < 2 ^ 31 \<longrightarrow> (\<forall>n s'. r = Ret (n, s') \<longrightarrow> ?P n i token mx)", OF _ that])
    fix f env mx args token i s r
    assume ih: "\<And>env mx args token i s y. f env mx args token i s = Some y \<Longrightarrow>
        (i = 0 \<or> i < mx) \<and> mx < 2 ^ 31 \<longrightarrow> (\<forall>n s'. y = Ret (n, s') \<longrightarrow> ?P n i token mx)"
      and run: "(if token \<noteq> NULL then
        rbind (dup_string env token s) (\<lambda>(p, s).
          let s = s\<lparr>ram := store32 (ram s) (args + 4 * i) p\<rparr>; i = i + 1 in
          if i \<ge> mx then Some (Ret (i, s))
          else rbind (next_token NULL (literal env blanks) s) (\<lambda>(token, s). f env mx args token i s))
      else Some (Ret (i, s))) = Some r"
    show "(i = 0 \<or> i < mx) \<and> mx < 2 ^ 31 \<longrightarrow> (\<forall>n s'. r = Ret (n, s') \<longrightarrow> ?P n i token mx)"
    proof (intro impI allI, elim conjE)
      fix n s' assume i: "i = 0 \<or> i < mx" "mx < 2 ^ 31" and r: "r = Ret (n, s')"
      have un: "unat (i + 1) = Suc (unat i)" using i by (auto simp: unat_word_ariths word_less_nat_alt)
      then have lt: "i < i + 1" by (simp add: word_less_nat_alt)
      show "?P n i token mx"
      proof (cases "token = NULL")
        case True
        with run r i show ?thesis by (auto simp: max_def)
      next
        case False
        with run r obtain p s1 where "mx \<le> i + 1 \<and> n = i + 1
            \<or> \<not> mx \<le> i + 1 \<and> (\<exists>token s. f env mx args token (i + 1) s = Some (Ret (n, s')))"
          by (auto simp: rbind_Ret_iff Let_def split: if_splits)
        then show ?thesis
        proof (elim disjE exE conjE)
          assume *: "mx \<le> i + 1" "n = i + 1"
          then have "n \<le> max 1 mx"
            using i un by (auto simp: max_def word_le_nat_alt word_less_nat_alt split: if_splits)
          with * lt show ?thesis by simp
        next
          fix token s assume "\<not> mx \<le> i + 1" "f env mx args token (i + 1) s = Some (Ret (n, s'))"
          with ih [OF this(2)] i lt have "i + 1 \<le> n" "n \<le> max 1 mx" by simp_all
          with lt show ?thesis by auto
        qed
      qed
    qed
  qed
  with assms show ?thesis by blast
qed

section \<open>Witnesses\<close>

text \<open>A machine whose heap is one free chunk, and whose string literals are all empty.\<close>

definition shell_env :: "u8 kenv" where
  "shell_env = scan_env\<lparr>heap_of := small_heap_allocator\<rparr>"

definition shell_machine :: "u8 machine" where
  "shell_machine = with_ram (small_heap False) scan_machine"

definition no_names :: names where
  "no_names = \<lparr>disk_name = \<lambda>_. 0, partition_name = \<lambda>_. 0\<rparr>"

lemma say_empty: "ram (kbase s) (literal env str) = 0 \<Longrightarrow> say env (literal env str) args s = Some (Ret s)"
  by (simp add: say_def print_def kprintf_def kprintf_loop.simps kbase_def set_base_def)

lemma small_heap_any:
  assumes "n < 0xF00"
  shows "\<exists>m'. kmalloc (small_heap False) small_heap_allocator n = Some (Ret (0x1010, m'))"
  using allocate_first_fit [OF small_heap_wf [of False], of n] assms
  by (auto simp: kmalloc_def small_heap_simps NULL_def word_less_nat_alt)

lemma small_heap_low: "unat a < 0x1000 \<Longrightarrow> small_heap al a = 0"
  by (auto simp: small_heap_def set_size_def set_next_def set_prev_def set_allocated_def empty_mem_def store32_def
      word_less_nat_alt)

theorem shell_line_bounded_witness:
  "\<exists>s'. run_kernel_shell shell_env no_initrd no_names shell_machine 0x1010 (0, s') \<and> (0 :: u32) \<le> 256"
proof -
  have r: "ram (kbase shell_machine) = small_heap False" by (simp add: shell_machine_def with_ram_def)
  have l: "literal shell_env str = 0" "heap_of shell_env = small_heap_allocator" for str
    by (simp_all add: shell_env_def scan_env_def)
  obtain m' where "kmalloc (small_heap False) small_heap_allocator 256 = Some (Ret (0x1010, m'))"
    using small_heap_any [of 256] by auto
  then obtain s' where "shell_start shell_env shell_machine = Some (Ret (0x1010, s'))"
    using say_empty [of shell_machine shell_env] by (simp add: shell_start_def r l small_heap_low in_base_def alloc_def)
  then have "run_kernel_shell shell_env no_initrd no_names shell_machine 0x1010 (0, s')" by (rule starts)
  with shell_line_bounded [OF this] show ?thesis by auto
qed

theorem shell_full_line_is_final_witness:
  "\<exists>y. (shell_step scan_env no_initrd no_names 0x2000)\<^sup>*\<^sup>* (256, scan_machine) y
     \<and> key_loc (kbd (snd y)) = 1 \<and> fst y = 256"
proof -
  have p: "port_byte_in (ports scan_env) 0x60 (hw (kbase scan_machine)) = (0x1E, 0x1E)"
    by (simp add: scan_env_def scan_port_def port_byte_in_def scan_machine_def kbase_def)
  have h: "reg_int_no keyboard_registers = 33" "length (interrupt_handlers scan_machine) = 256"
    "interrupt_handlers scan_machine ! 33 = link scan_env ''keyboard_irq''" "link scan_env ''keyboard_irq'' \<noteq> 0"
    by (simp_all add: keyboard_registers_def scan_machine_def scan_env_def)
  from irq_handler_calls_keyboard [OF h p] obtain s' where s':
    "irq_handler scan_env keyboard_registers scan_machine = Ret s'" "kbd s' = fst (keyboard_put 0x1E (kbd scan_machine, ram (kbase scan_machine)))"
    by simp
  have "key_loc (kbd s') = 1"
    by (simp add: s'(2) keyboard_put_def keyboard_irq_def scan_machine_def kbase_def scan_port_def port_byte_in_def)
  moreover from s' have "(shell_step scan_env no_initrd no_names 0x2000)\<^sup>*\<^sup>* (256, scan_machine) (256, s')"
    by (intro r_into_rtranclp an_interrupt)
  moreover from shell_full_line_is_final [OF this] have "fst (256 :: u32, s') = 256" by simp
  ultimately show ?thesis by auto
qed

text \<open>A line of one character: no room for arguments, and the pointer to the first one is stored all the same.\<close>

theorem token_loop_count_witness:
  "\<exists>s'. token_loop shell_env 0 0x800 0x500 0 (kbase shell_machine) = Some (Ret (1, s')) \<and> (1 :: u32) \<le> max 1 0"
proof -
  have r: "ram (kbase shell_machine) = small_heap False" by (simp add: shell_machine_def with_ram_def)
  have h: "heap_of shell_env = small_heap_allocator" by (simp add: shell_env_def)
  obtain m' where m': "kmalloc (small_heap False) small_heap_allocator 1 = Some (Ret (0x1010, m'))"
    using small_heap_any [of 1] by auto
  have "m' 0x500 = 0"
    using kmalloc_below [OF small_heap_inv(2) m', of "0x500"] small_heap_low by (simp add: small_heap_allocator_def)
  then have "strdup (small_heap False) small_heap_allocator 0x500 = Some (Ret (0x1010, m'(0x1010 := 0)))"
    using m' by (simp add: strdup_def strlen_cstr [where bs = "[]"] small_heap_low copy_string.simps NULL_def)
  then obtain s' where "token_loop shell_env 0 0x800 0x500 0 (kbase shell_machine) = Some (Ret (1, s'))"
    by (simp add: token_loop.simps r h dup_string_def NULL_def Let_def)
  with token_loop_count [OF this] show ?thesis by auto
qed

end
