(* ===== verification/Heap_Frame.thy ===== *)
theory Heap_Frame
  imports Kernel_State
begin

text \<open>
  Following the memory through the routines of the heap and of \<^verbatim>\<open>strtok\<close>: \<open>unchanged h L m m'\<close> says that the
  allocations \<open>L\<close> and everything below the heap are as before, \<open>text_in m C p bs\<close> that the string \<open>bs\<close> lies at \<open>p\<close>
  inside the allocation \<open>C\<close>. \<open>yields\<close> is the outcome of a routine that allocates: it panics, or it returns and
  its result satisfies a postcondition. The panics that are possible are named. The users are the parser of the shell and the FAT32 file system.
\<close>

section \<open>Outcomes of routines that allocate\<close>

definition yields_or :: "string set \<Rightarrow> 'a run \<Rightarrow> ('a \<Rightarrow> bool) \<Rightarrow> bool" where
  "yields_or E r P \<longleftrightarrow> (\<exists>msg \<in> E. r = Some (Panic msg)) \<or> (\<exists>x. r = Some (Ret x) \<and> P x)"

lemma yields_Ret [simp]: "yields_or E (Some (Ret x)) P \<longleftrightarrow> P x"
  by (simp add: yields_or_def)

lemma yields_Panic [simp]: "yields_or E (Some (Panic msg)) P \<longleftrightarrow> msg \<in> E"
  by (simp add: yields_or_def)

lemma yields_bind: "yields_or E r Q \<Longrightarrow> (\<And>x. Q x \<Longrightarrow> yields_or E (f x) P) \<Longrightarrow> yields_or E (rbind r f) P"
  unfolding yields_or_def by (elim disjE exE conjE bexE) simp_all

lemma yields_mono: "yields_or E r Q \<Longrightarrow> (\<And>x. Q x \<Longrightarrow> P x) \<Longrightarrow> yields_or E r P"
  by (auto simp: yields_or_def)

text \<open>The panics of the routines below: the heap is exhausted, or a short name in a directory starts with a blank.\<close>

abbreviation heap_panic :: string where "heap_panic \<equiv> ''out of kernel heap memory''"
abbreviation name_panic :: string where "name_panic \<equiv> ''invalid nameext in fat32 filesystem''"

abbreviation allocates :: "'a run \<Rightarrow> ('a \<Rightarrow> bool) \<Rightarrow> bool" where
  "allocates \<equiv> yields_or {heap_panic}"

abbreviation yields :: "'a run \<Rightarrow> ('a \<Rightarrow> bool) \<Rightarrow> bool" where
  "yields \<equiv> yields_or {heap_panic, name_panic}"

section \<open>The words of a text\<close>

lemma next_token_shorter: "CString.next_token ds bs = Some (t, rest) \<Longrightarrow> length rest < length bs"
proof -
  assume n: "CString.next_token ds bs = Some (t, rest)"
  let ?r = "skip_delims ds bs"
  have r: "?r \<noteq> []" and rest: "rest = drop 1 (dropWhile (\<lambda>b. b \<notin> set ds) ?r)"
    using n by (auto simp: Let_def split: if_splits)
  have "length (dropWhile (\<lambda>b. b \<notin> set ds) ?r) \<le> length ?r" by (rule length_dropWhile_le)
  moreover have "length ?r \<le> length bs" unfolding skip_delims_def by (rule length_dropWhile_le)
  moreover have "0 < length ?r" using r by simp
  ultimately show ?thesis unfolding rest length_drop by linarith
qed

function words :: "u8 list \<Rightarrow> u8 list \<Rightarrow> u8 list list" where
  "words ds bs = (case CString.next_token ds bs of None \<Rightarrow> [] | Some (t, rest) \<Rightarrow> t # words ds rest)"
  by pat_completeness auto
termination
  by (relation "measure (\<lambda>(ds, bs). length bs)") (auto dest: next_token_shorter simp del: next_token.simps)

declare words.simps [simp del] next_token.simps [simp del]

text \<open>The words are the maximal runs of characters that are no delimiters.\<close>

lemma next_token_parts:
  assumes "CString.next_token ds bs = Some (t, rest)"
  shows "t \<noteq> []" "set t \<inter> set ds = {}" "filter (\<lambda>b. b \<notin> set ds) bs = t @ filter (\<lambda>b. b \<notin> set ds) rest"
proof -
  let ?P = "\<lambda>b. b \<notin> set ds" and ?r = "skip_delims ds bs"
  have r: "?r \<noteq> []" and t: "t = takeWhile ?P ?r" and rest: "rest = drop 1 (dropWhile ?P ?r)"
    using assms by (auto simp: next_token.simps Let_def split: if_splits)
  have hd: "hd ?r \<notin> set ds" using r unfolding skip_delims_def by (rule hd_dropWhile)
  then show "t \<noteq> []" using r unfolding t by (cases ?r) auto
  show "set t \<inter> set ds = {}" unfolding t by (auto dest: set_takeWhileD)
  have f1: "filter ?P bs = filter ?P ?r"
    unfolding skip_delims_def by (induction bs) auto
  have "filter ?P xs = takeWhile ?P xs @ filter ?P (dropWhile ?P xs)" for xs by (induction xs) auto
  then have f2: "filter ?P ?r = t @ filter ?P (dropWhile ?P ?r)" unfolding t .
  have f3: "filter ?P (dropWhile ?P ?r) = filter ?P rest"
  proof (cases "dropWhile ?P ?r")
    case (Cons b xs)
    then have "b \<in> set ds" using hd_dropWhile [of ?P ?r] by simp
    then show ?thesis unfolding rest Cons by simp
  qed (simp only: rest drop_Nil)
  show "filter ?P bs = t @ filter ?P rest" unfolding f1 f2 f3 ..
qed

lemma words_spec:
  "concat (words ds bs) = filter (\<lambda>b. b \<notin> set ds) bs"
  "w \<in> set (words ds bs) \<Longrightarrow> w \<noteq> [] \<and> set w \<inter> set ds = {}"
proof (induction ds bs rule: words.induct)
  case (1 ds bs)
  { case 1
    show ?case
    proof (cases "CString.next_token ds bs")
      case None
      then have "skip_delims ds bs = []" by (auto simp: next_token.simps Let_def split: if_splits)
      then have "\<forall>b \<in> set bs. b \<in> set ds" by (simp add: skip_delims_def dropWhile_eq_Nil_conv)
      then show ?thesis using None by (simp add: words.simps [of ds bs] filter_empty_conv)
    next
      case (Some r)
      obtain t rest where r: "r = (t, rest)" by (cases r)
      with Some "1.IH"(1) [OF Some r [symmetric]] next_token_parts(3) [of ds bs t rest] show ?thesis
        by (simp add: words.simps [of ds bs])
    qed
  next
    case 2
    show ?case
    proof (cases "CString.next_token ds bs")
      case None
      with 2 show ?thesis by (simp add: words.simps [of ds bs])
    next
      case (Some r)
      obtain t rest where r: "r = (t, rest)" by (cases r)
      with Some 2 "1.IH"(2) [OF Some r [symmetric]] next_token_parts(1,2) [of ds bs t rest] show ?thesis
        by (auto simp: words.simps [of ds bs])
    qed
  }
qed

section \<open>Memory that is not touched\<close>

definition unchanged :: "heap_allocator \<Rightarrow> (nat \<times> nat) set \<Rightarrow> mem \<Rightarrow> mem \<Rightarrow> bool" where
  "unchanged h L m m' \<longleftrightarrow> (\<forall>b \<in> L. \<forall>x. unat x \<in> payload b \<longrightarrow> m' x = m x)
     \<and> (\<forall>x. unat x < unat (virtual_address h) \<longrightarrow> m' x = m x)"

lemma unchanged_trans: "unchanged h L m m' \<Longrightarrow> unchanged h L' m' m'' \<Longrightarrow> unchanged h (L \<inter> L') m m''"
  by (auto simp: unchanged_def)

lemma unchanged_mono: "unchanged h L m m' \<Longrightarrow> L' \<subseteq> L \<Longrightarrow> unchanged h L' m m'"
  by (auto simp: unchanged_def)

lemma payload_above:
  assumes "heap_inv h m L" "b \<in> L" "x \<in> payload b"
  shows "unat (virtual_address h) \<le> x"
  using assms live_range [of "fst b" "snd b" "unat (virtual_address h)"] by (fastforce simp: heap_inv_def payload_def)

lemma string_in_block:
  assumes "cstr m p w" "(unat p, k) \<in> L" "length w < k" "heap_inv h m0 L" "\<And>x. unat x \<in> payload (unat p, k) \<Longrightarrow> m' x = m x"
  shows "cstr m' p w"
proof (rule cstr_cong [OF assms(1)])
  fix i assume i: "i \<le> length w"
  have "unat p + k \<le> 2 ^ 32" using heap_inv_bound(1) [OF assms(4,2)] .
  then have "unat (p + of_nat i) = unat p + i" using i assms(3) by (simp add: unat_word_ariths unat_of_nat32)
  then show "m' (p + of_nat i) = m (p + of_nat i)" using i assms(3) by (intro assms(5)) (simp add: payload_def)
qed

lemma delimiters_keep:
  assumes "cstring m d ds" "unat d + length ds < unat (virtual_address h)" "unchanged h L m m'"
  shows "cstring m' d ds"
proof (rule cstring_cong [OF assms(1)])
  fix a assume a: "in_region d (Suc (length ds)) a"
  have "unat d + Suc (length ds) \<le> 2 ^ 32" using assms(1) by (simp add: cstring_def)
  from a in_region_nat [OF this, of a] have "unat a < unat (virtual_address h)" using assms(2) by simp
  then show "m' a = m a" using assms(3) by (simp add: unchanged_def)
qed

definition text_in :: "mem \<Rightarrow> nat \<times> nat \<Rightarrow> addr \<Rightarrow> u8 list \<Rightarrow> bool" where
  "text_in m C p bs \<longleftrightarrow> cstring m p bs \<and> {unat p .. unat p + length bs} \<subseteq> payload C"

lemma text_in_keep:
  assumes "text_in m C p bs" "unchanged h {C} m m'"
  shows "text_in m' C p bs"
proof -
  have t: "cstring m p bs" "{unat p .. unat p + length bs} \<subseteq> payload C" using assms(1) by (simp_all add: text_in_def)
  have b: "unat p + Suc (length bs) \<le> 2 ^ 32" using t(1) by (simp add: cstring_def)
  have "cstring m' p bs"
  proof (rule cstring_cong [OF t(1)])
    fix a assume "in_region p (Suc (length bs)) a"
    then have "unat a \<in> payload C" using t(2) by (auto simp: in_region_nat [OF b])
    then show "m' a = m a" using assms(2) by (simp add: unchanged_def)
  qed
  with t(2) show ?thesis by (simp add: text_in_def)
qed

lemma text_in_part:
  assumes "text_in m C p bs" "cstring m' (p + of_nat i) w" "i + length w \<le> length bs"
  shows "text_in m' C (p + of_nat i) w"
proof -
  have "unat p + length bs < 2 ^ 32" using assms(1) by (simp add: text_in_def cstring_def)
  then have "unat (p + of_nat i) = unat p + i" using assms(3) by (simp add: unat_word_ariths unat_of_nat32)
  then show ?thesis using assms by (auto simp: text_in_def)
qed

lemma strtok_resume: "q \<noteq> NULL \<Longrightarrow> p = NULL \<and> x = q \<or> p = q \<Longrightarrow> strtok m x p d = strtok m q q d"
  by (auto simp: strtok_def)

lemma kfree_unchanged:
  assumes "heap_inv h m L" "(unat p, k) \<in> L"
  shows "heap_inv h (kfree m p) (L - {(unat p, k)})" "unchanged h (L - {(unat p, k)}) m (kfree m p)"
proof -
  have p: "of_nat (unat p) = p" by simp
  show "heap_inv h (kfree m p) (L - {(unat p, k)})" using kfree_live(1) [OF assms] by simp
  from assms obtain bs where bs: "heap_wf m (unat (virtual_address h)) bs" "no_free_pair bs"
    "live (unat (virtual_address h)) bs = L" by (auto simp: heap_inv_def)
  have "kfree m p x = m x" if "unat x < unat (virtual_address h)" for x
    using kfree_coalesces [OF bs(1,2), of "unat p" k] assms(2) bs(3) that
      header_bytes_range [of "unat x" "unat (virtual_address h)" bs] by fastforce
  then show "unchanged h (L - {(unat p, k)}) m (kfree m p)"
    using kfree_live(2) [OF assms] by (fastforce simp: unchanged_def payload_def)
qed


lemma unchanged_heap:
  assumes "heap_inv h m L" "C \<in> L" "\<And>x. m' x \<noteq> m x \<Longrightarrow> unat x \<in> payload C"
  shows "heap_inv h m' L" "unchanged h (L - {C}) m m'"
proof -
  show "heap_inv h m' L" using assms(2,3) by (intro heap_inv_write [OF assms(1)]) blast
  show "unchanged h (L - {C}) m m'"
    unfolding unchanged_def
  proof (intro conjI ballI allI impI)
    fix b and x :: addr assume b: "b \<in> L - {C}" "unat x \<in> payload b"
    then have "payload b \<inter> payload C = {}" using assms(2) by (intro heap_inv_apart [OF assms(1)]) auto
    with b(2) assms(3) show "m' x = m x" by blast
  next
    fix x :: addr assume "unat x < unat (virtual_address h)"
    with assms(3) [of x] payload_above [OF assms(1,2), of "unat x"] show "m' x = m x" by (meson not_le)
  qed
qed

section \<open>Allocation\<close>

text \<open>Steps that change nothing but the memory.\<close>

definition only_ram :: "'d kstate \<Rightarrow> 'd kstate \<Rightarrow> bool" where "only_ram s s' \<longleftrightarrow> s' = s\<lparr>ram := ram s'\<rparr>"

lemma only_ram_simps [simp]: "only_ram s s" "only_ram s (s\<lparr>ram := m\<rparr>)" "only_ram (s\<lparr>ram := m\<rparr>) s' \<longleftrightarrow> only_ram s s'"
  by (simp_all add: only_ram_def)

lemma only_ram_upd: "only_ram s s' \<Longrightarrow> only_ram s (s'\<lparr>ram := m\<rparr>)"
  by (cases s; cases s') (auto simp: only_ram_def)

lemma alloc_block:
  assumes "heap_inv (heap_of env) (ram s) L" and E: "heap_panic \<in> E"
  shows "yields_or E (alloc env n s) (\<lambda>(p, s'). only_ram s s' \<and> p \<noteq> NULL \<and> unchanged (heap_of env) L (ram s) (ram s')
    \<and> (\<exists>k. unat n \<le> k \<and> (unat p, k) \<notin> L \<and> heap_inv (heap_of env) (ram s') (insert (unat p, k) L)))"
proof -
  from heap.alloc_outcome [OF assms(1), of n] consider "kmalloc (ram s) (heap_of env) n = no_memory"
    | p m where "kmalloc (ram s) (heap_of env) n = Some (Ret (p, m))" by blast
  then show ?thesis
  proof cases
    case (2 p m)
    from kmalloc_block [OF assms(1) 2] obtain k where k: "unat n \<le> k" "(unat p, k) \<notin> L"
      "heap_inv (heap_of env) m (insert (unat p, k) L)" "\<And>b x. b \<in> L \<Longrightarrow> unat x \<in> payload b \<Longrightarrow> m x = ram s x" by auto
    then have "unchanged (heap_of env) L (ram s) m" using kmalloc_below [OF assms(1) 2] by (auto simp: unchanged_def)
    with 2 k(1-3) kmalloc_not_NULL [OF assms(1) 2] show ?thesis by (auto simp: alloc_def)
  qed (simp add: alloc_def E)
qed

lemma alloc_runs:
  assumes "heap_inv (heap_of env) (ram s) L"
  shows "yields (alloc env n s) (\<lambda>(p, s'). only_ram s s' \<and> p \<noteq> NULL \<and> unchanged (heap_of env) L (ram s) (ram s')
    \<and> (\<exists>k. unat n \<le> k \<and> (unat p, k) \<notin> L \<and> heap_inv (heap_of env) (ram s') (insert (unat p, k) L)))"
  by (rule alloc_block [OF assms]) simp

section \<open>Tokens and copies of a string in an allocation\<close>

lemma next_token_text:
  assumes P: "heap_inv h (ram s) L" "C \<in> L" "cstring (ram s) d ds" "unat d + length ds < unat (virtual_address h)"
    and t: "text_in (ram s) C q bs" and q: "p = NULL \<and> olds s = q \<or> p = q"
  shows "\<exists>tok o' m'. next_token p d s = Some (Ret (tok, s\<lparr>olds := o', ram := m'\<rparr>)) \<and> heap_inv h m' L
    \<and> unchanged h (L - {C}) (ram s) m'
    \<and> (case CString.next_token ds bs of None \<Rightarrow> tok = NULL
       | Some (w, rest) \<Rightarrow> tok \<noteq> NULL \<and> text_in m' C tok w \<and> text_in m' C o' rest)"
proof -
  from t have T: "cstring (ram s) q bs" "{unat q .. unat q + length bs} \<subseteq> payload C" by (simp_all add: text_in_def)
  have qb: "unat q + Suc (length bs) \<le> 2 ^ 32" and db: "unat d + Suc (length ds) \<le> 2 ^ 32"
    using T(1) P(3) by (simp_all add: cstring_def)
  have in_C: "unat a \<in> payload C" if "in_region q (Suc (length bs)) a" for a
    using that T(2) by (auto simp: in_region_nat [OF qb])
  have dj: "disjoint_regions q (Suc (length bs)) d (Suc (length ds))"
    unfolding disjoint_regions_def using in_C payload_above [OF P(1,2)] P(4) by (fastforce simp: in_region_nat [OF db])
  from strtok_takes_token [OF T(1) P(3) dj, of q] obtain tok o' m' where R:
    "strtok (ram s) q q d = Some (tok, o', m')" "same_outside q (length bs) (ram s) m'"
    "case CString.next_token ds bs of None \<Rightarrow> tok = NULL \<and> cstring m' o' []
       | Some (w, rest) \<Rightarrow> tok \<noteq> NULL \<and> cstring m' tok w \<and> cstring m' o' rest
            \<and> (\<exists>i. tok = q + of_nat i \<and> i + length w \<le> length bs) \<and> (\<exists>j. o' = q + of_nat j \<and> j + length rest \<le> length bs)"
    by blast
  have diff: "unat x \<in> payload C" if "m' x \<noteq> ram s x" for x
  proof -
    have "in_region q (length bs) x" using that R(2) by (auto simp: same_outside_def)
    then show ?thesis by (intro in_C) (simp add: in_region_def)
  qed
  have "q \<noteq> NULL" using T(1) by (simp add: cstring_def NULL_def)
  then have run: "next_token p d s = Some (Ret (tok, s\<lparr>olds := o', ram := m'\<rparr>))"
    using R(1) strtok_resume [OF _ q, of "ram s" d] by (auto simp: next_token_def returning_def)
  have "case CString.next_token ds bs of None \<Rightarrow> tok = NULL
       | Some (w, rest) \<Rightarrow> tok \<noteq> NULL \<and> text_in m' C tok w \<and> text_in m' C o' rest"
    using R(3) text_in_part [OF t] by (auto split: option.splits)
  with run unchanged_heap [OF P(1,2) diff] show ?thesis by blast
qed

lemma dup_string_text:
  assumes P: "heap_inv (heap_of env) (ram s) L" "C \<in> L" and t: "text_in (ram s) C q w"
    and E: "heap_panic \<in> E"
  shows "yields_or E (dup_string env q s) (\<lambda>(r, s'). \<exists>m' k. s' = s\<lparr>ram := m'\<rparr> \<and> r \<noteq> NULL \<and> length w < k \<and> (unat r, k) \<notin> L
    \<and> heap_inv (heap_of env) m' (insert (unat r, k) L) \<and> unchanged (heap_of env) L (ram s) m' \<and> text_in m' (unat r, k) r w)"
proof -
  have c: "cstr (ram s) q w" "{unat q .. unat q + length w} \<subseteq> payload C" and b: "unat q + length w < 2 ^ 32" "q \<noteq> 0"
    using t by (auto simp: text_in_def cstring_def)
  from b(2) have "0 < unat q" by (simp only: unat_gt_0) simp
  with b(1) have len: "length w < 2 ^ 32 - 1" by simp
  from strdup_fresh [OF P(1) c(1) P(2) c(2) len] show ?thesis
  proof
    assume "\<exists>r. strdup (ram s) (heap_of env) q = Some (Ret r) \<and> fresh_string (heap_of env) (ram s) L w r"
    then obtain r m' k where R: "strdup (ram s) (heap_of env) q = Some (Ret (r, m'))" "cstr m' r w" "length w < k" "r \<noteq> NULL"
      "heap_inv (heap_of env) m' (insert (unat r, k) L)" "(unat r, k) \<notin> L" "unchanged (heap_of env) L (ram s) m'"
      by (auto simp: fresh_string_def unchanged_def)
    have "text_in m' (unat r, k) r w"
      using R(2-4) heap_inv_bound(1) [OF R(5), of "unat r" k] by (auto simp: text_in_def cstring_def payload_def NULL_def)
    with R show ?thesis by (auto simp: dup_string_def)
  qed (auto simp: dup_string_def E)
qed

end
