(* ===== verification/Shell_Parse.thy ===== *)
theory Shell_Parse
  imports Shell Heap_Frame
begin

text \<open>
  What \<^verbatim>\<open>parse_command\<close> returns: the words of the line as strings in allocations of their own. The proof
  follows the memory through \<^verbatim>\<open>strndup\<close>, \<^verbatim>\<open>kmalloc\<close>, \<^verbatim>\<open>strdup\<close> and \<^verbatim>\<open>strtok\<close> on the contract of the heap.
\<close>

section \<open>The memory while parsing\<close>

text \<open>
  The array of arguments is the allocation \<open>A\<close>, the copy of the line is \<open>C\<close>; the words found so far
  are strings in further allocations, to which the array points.
\<close>

definition word_at :: "mem \<Rightarrow> (nat \<times> nat) set \<Rightarrow> addr \<Rightarrow> u8 list \<Rightarrow> bool" where
  "word_at m L p w \<longleftrightarrow> (\<exists>k. (unat p, k) \<in> L \<and> length w < k) \<and> cstr m p w"

definition slot :: "nat \<times> nat \<Rightarrow> nat \<Rightarrow> addr" where "slot A j = of_nat (fst A + 4 * j)"

definition parsing ::
  "heap_allocator \<Rightarrow> addr \<Rightarrow> u8 list \<Rightarrow> nat \<times> nat \<Rightarrow> nat \<times> nat \<Rightarrow> mem \<Rightarrow> (nat \<times> nat) set \<Rightarrow> u8 list list \<Rightarrow> bool" where
  "parsing h d ds A C m L ws \<longleftrightarrow> heap_inv h m L \<and> A \<in> L \<and> C \<in> L \<and> A \<noteq> C \<and> cstring m d ds
     \<and> unat d + length ds < unat (virtual_address h) \<and> 4 * length ws \<le> snd A
     \<and> (\<forall>j < length ws. word_at m (L - {A, C}) (load32 m (slot A j)) (ws ! j))"

lemma word_at_keep:
  assumes "word_at m L p w" "heap_inv h m L0" "L \<subseteq> L0" "unchanged h L m m'" "L \<subseteq> L'"
  shows "word_at m' L' p w"
proof -
  from assms(1) obtain k where k: "(unat p, k) \<in> L" "length w < k" "cstr m p w" by (auto simp: word_at_def)
  have "cstr m' p w"
    by (rule string_in_block [OF k(3) subsetD [OF assms(3) k(1)] k(2) assms(2)])
      (use assms(4) k(1) in \<open>auto simp: unchanged_def\<close>)
  with k assms(5) show ?thesis by (auto simp: word_at_def)
qed

lemma slot_address:
  assumes "heap_inv h m L" "A \<in> L" "4 * Suc j \<le> snd A"
  shows "unat (slot A j) = fst A + 4 * j" "in_region (slot A j) 4 x \<Longrightarrow> unat x \<in> payload A"
proof -
  have b: "fst A + snd A \<le> 2 ^ 32" using heap_inv_bound(1) [OF assms(1), of "fst A" "snd A"] assms(2) by simp
  then show u: "unat (slot A j) = fst A + 4 * j" unfolding slot_def using assms(3) by (intro unat_of_nat32) simp
  then have "unat (slot A j) + 4 \<le> 2 ^ 32" using b assms(3) by simp
  then show "in_region (slot A j) 4 x \<Longrightarrow> unat x \<in> payload A"
    using assms(3) by (simp add: in_region_nat u payload_def)
qed

lemma slot_load:
  assumes "heap_inv h m L" "A \<in> L" "4 * Suc j \<le> snd A" "unchanged h {A} m m'"
  shows "load32 m' (slot A j) = load32 m (slot A j)"
  using slot_address(2) [OF assms(1-3)] assms(4) by (intro load32_cong) (auto simp: unchanged_def)

text \<open>What happens outside the array, the words and the delimiters does not matter.\<close>

lemma parsing_keep:
  assumes p: "parsing h d ds A C m L ws" and inv: "heap_inv h m' L'" and L: "L \<subseteq> L'" and un: "unchanged h (L - {C}) m m'"
  shows "parsing h d ds A C m' L' ws"
proof -
  from p have P: "heap_inv h m L" "A \<in> L" "C \<in> L" "A \<noteq> C" "cstring m d ds" "unat d + length ds < unat (virtual_address h)"
    "4 * length ws \<le> snd A" "\<And>j. j < length ws \<Longrightarrow> word_at m (L - {A, C}) (load32 m (slot A j)) (ws ! j)"
    by (auto simp: parsing_def)
  have A: "unchanged h {A} m m'" by (rule unchanged_mono [OF un]) (use P in auto)
  have W: "unchanged h (L - {A, C}) m m'" by (rule unchanged_mono [OF un]) auto
  have "word_at m' (L' - {A, C}) (load32 m' (slot A j)) (ws ! j)" if j: "j < length ws" for j
  proof -
    have "load32 m' (slot A j) = load32 m (slot A j)" using j P(7) by (intro slot_load [OF P(1,2) _ A]) simp
    moreover have "word_at m' (L' - {A, C}) (load32 m (slot A j)) (ws ! j)"
      by (rule word_at_keep [OF P(8) [OF j] P(1) _ W]) (use L in auto)
    ultimately show ?thesis by simp
  qed
  with P inv L delimiters_keep [OF P(5,6) un] show ?thesis by (auto simp: parsing_def)
qed

text \<open>Storing the pointer to the next word.\<close>

lemma parsing_store:
  assumes p: "parsing h d ds A C m L ws" and w: "word_at m (L - {A, C}) q w" and room: "4 * Suc (length ws) \<le> snd A"
  shows "parsing h d ds A C (store32 m (slot A (length ws)) q) L (ws @ [w])"
    and "unchanged h (L - {A}) m (store32 m (slot A (length ws)) q)"
proof -
  let ?m = "store32 m (slot A (length ws)) q"
  from p have P: "heap_inv h m L" "A \<in> L" "C \<in> L" "A \<noteq> C" "cstring m d ds" "unat d + length ds < unat (virtual_address h)"
    "\<And>j. j < length ws \<Longrightarrow> word_at m (L - {A, C}) (load32 m (slot A j)) (ws ! j)"
    by (auto simp: parsing_def)
  have in_A: "unat x \<in> payload A" if "?m x \<noteq> m x" for x
    using slot_address(2) [OF P(1,2) room, of x] store32_outside [of "slot A (length ws)" x m q] that by blast
  note inv = unchanged_heap(1) [OF P(1,2) in_A]
  show un: "unchanged h (L - {A}) m ?m" by (rule unchanged_heap(2) [OF P(1,2) in_A])
  have W: "unchanged h (L - {A, C}) m ?m" by (rule unchanged_mono [OF un]) auto
  have "word_at ?m (L - {A, C}) (load32 ?m (slot A j)) ((ws @ [w]) ! j)" if j: "j < Suc (length ws)" for j
  proof (cases "j = length ws")
    case True
    then show ?thesis using word_at_keep [OF w P(1) _ W] by (simp add: subset_iff)
  next
    case False
    with j have lt: "j < length ws" by simp
    have u: "unat (slot A j) = fst A + 4 * j" "unat (slot A (length ws)) = fst A + 4 * length ws"
      using lt room by (auto intro: slot_address(1) [OF P(1,2)])
    have "slot A j \<le> slot A (length ws)" using u lt by (simp add: word_le_nat_alt)
    then have "disjoint_regions (slot A (length ws)) 4 (slot A j) 4"
      unfolding disjoint_regions_def
      using u lt slot_address(2) [OF P(1,2)] heap_inv_bound(1) [OF P(1), of "fst A" "snd A"] P(2) room
      by (auto simp: in_region_nat)
    then have "load32 ?m (slot A j) = load32 m (slot A j)" by (rule load32_store32_other)
    moreover have "word_at ?m (L - {A, C}) (load32 m (slot A j)) (ws ! j)"
      by (rule word_at_keep [OF P(7) [OF lt] P(1) _ W]) auto
    ultimately show ?thesis using lt by (simp add: nth_append)
  qed
  with P inv room delimiters_keep [OF P(5,6) un] show "parsing h d ds A C ?m L (ws @ [w])"
    by (auto simp: parsing_def)
qed

section \<open>Taking the next word\<close>

lemma next_token_runs:
  assumes p: "parsing h d ds A C (ram s) L ws" and t: "text_in (ram s) C q bs" and q: "p = NULL \<and> olds s = q \<or> p = q"
  shows "\<exists>tok s'. next_token p d s = Some (Ret (tok, s')) \<and> parsing h d ds A C (ram s') L ws
    \<and> unchanged h (L - {C}) (ram s) (ram s')
    \<and> (case CString.next_token ds bs of None \<Rightarrow> tok = NULL
       | Some (w, rest) \<Rightarrow> tok \<noteq> NULL \<and> text_in (ram s') C tok w \<and> text_in (ram s') C (olds s') rest)"
proof -
  from p have P: "heap_inv h (ram s) L" "C \<in> L" "cstring (ram s) d ds" "unat d + length ds < unat (virtual_address h)"
    by (auto simp: parsing_def)
  from next_token_text [OF P t q] obtain tok o' m' where R: "next_token p d s = Some (Ret (tok, s\<lparr>olds := o', ram := m'\<rparr>))"
    "heap_inv h m' L" "unchanged h (L - {C}) (ram s) m'"
    "case CString.next_token ds bs of None \<Rightarrow> tok = NULL
       | Some (w, rest) \<Rightarrow> tok \<noteq> NULL \<and> text_in m' C tok w \<and> text_in m' C o' rest" by blast
  from parsing_keep [OF p R(2) _ R(3)] R show ?thesis
    by (intro exI [of _ tok] exI [of _ "s\<lparr>olds := o', ram := m'\<rparr>"]) (auto split: option.splits)
qed

section \<open>All words\<close>

text \<open>What the loop returns: the number of words \<open>vs\<close>, which are now in the array.\<close>

definition collected ::
  "heap_allocator \<Rightarrow> addr \<Rightarrow> u8 list \<Rightarrow> nat \<times> nat \<Rightarrow> nat \<times> nat \<Rightarrow> (nat \<times> nat) set \<Rightarrow> mem \<Rightarrow> u8 list list \<Rightarrow> u32 \<times> 'd kstate \<Rightarrow> bool" where
  "collected h d ds A C L m vs = (\<lambda>(i, s). i = of_nat (length vs) \<and> unchanged h (L - {A, C}) m (ram s)
     \<and> (\<exists>L'. L \<subseteq> L' \<and> parsing h d ds A C (ram s) L' vs))"

lemma collectedI:
  "parsing h d ds A C (ram s) L' vs \<Longrightarrow> L \<subseteq> L' \<Longrightarrow> unchanged h (L - {A, C}) m (ram s) \<Longrightarrow> i = of_nat (length vs) \<Longrightarrow>
   collected h d ds A C L m vs (i, s)"
  by (auto simp: collected_def)

lemma collected_trans:
  assumes "collected h d ds A C L1 m1 vs x" "L \<subseteq> L1" "unchanged h (L - {A, C}) m m1"
  shows "collected h d ds A C L m vs x"
proof -
  obtain i s where x: "x = (i, s)" by (cases x)
  with assms(1) obtain L' where c: "i = of_nat (length vs)" "unchanged h (L1 - {A, C}) m1 (ram s)" "L1 \<subseteq> L'"
    "parsing h d ds A C (ram s) L' vs" by (auto simp: collected_def)
  have "unchanged h (L - {A, C}) m (ram s)"
    using unchanged_trans [OF assms(3) unchanged_mono [OF c(2), of "L - {A, C}"]] assms(2) by auto
  with c(1,3,4) assms(2) show ?thesis unfolding x by (intro collectedI [OF c(4)]) auto
qed

text \<open>One round: a word is copied and its address stored.\<close>

lemma token_step:
  assumes p: "parsing (heap_of env) d ds A C (ram s) L ws" and A: "A = (unat args, k)" "4 * Suc (length ws) \<le> k"
    and t: "text_in (ram s) C tok w" "text_in (ram s) C (olds s) rest"
  shows "allocates (dup_string env tok s) (\<lambda>(r, s1). olds s1 = olds s
    \<and> (\<exists>L1. L \<subseteq> L1 \<and> parsing (heap_of env) d ds A C (store32 (ram s1) (slot A (length ws)) r) L1 (ws @ [w]))
    \<and> unchanged (heap_of env) (L - {A}) (ram s) (store32 (ram s1) (slot A (length ws)) r)
    \<and> text_in (store32 (ram s1) (slot A (length ws)) r) C (olds s) rest)"
proof -
  let ?h = "heap_of env"
  from p have P: "heap_inv ?h (ram s) L" "A \<in> L" "C \<in> L" "A \<noteq> C" by (auto simp: parsing_def)
  have "parsing ?h d ds A C (store32 m' (slot A (length ws)) r) (insert (unat r, j) L) (ws @ [w])
      \<and> unchanged ?h (L - {A}) (ram s) (store32 m' (slot A (length ws)) r) \<and> text_in (store32 m' (slot A (length ws)) r) C (olds s) rest"
    if R: "length w < j" "(unat r, j) \<notin> L" "heap_inv ?h m' (insert (unat r, j) L)" "unchanged ?h L (ram s) m'"
      "text_in m' (unat r, j) r w" for r m' j
  proof -
    let ?L = "insert (unat r, j) L"
    have p1: "parsing ?h d ds A C m' ?L ws"
      using unchanged_mono [OF R(4)] by (intro parsing_keep [OF p R(3)]) auto
    have "word_at m' (?L - {A, C}) r w" using R P by (auto simp: word_at_def text_in_def cstring_def)
    note S = parsing_store [OF p1 this, unfolded A(1) snd_conv, OF A(2), folded A(1)]
    have un: "unchanged ?h (L - {A}) (ram s) (store32 m' (slot A (length ws)) r)"
      by (rule unchanged_mono [OF unchanged_trans [OF R(4) S(2)]]) auto
    moreover have "text_in (store32 m' (slot A (length ws)) r) C (olds s) rest"
      by (rule text_in_keep [OF t(2) unchanged_mono [OF un]]) (use P in auto)
    ultimately show ?thesis using S(1) by blast
  qed
  note stored = this
  have "allocates (dup_string env tok s) (\<lambda>(r, s'). \<exists>m' j. s' = s\<lparr>ram := m'\<rparr> \<and> r \<noteq> NULL \<and> length w < j \<and> (unat r, j) \<notin> L
    \<and> heap_inv ?h m' (insert (unat r, j) L) \<and> unchanged ?h L (ram s) m' \<and> text_in m' (unat r, j) r w)"
    by (rule dup_string_text [OF P(1,3) t(1)]) simp
  then show ?thesis
  proof (rule yields_mono, simp (no_asm_use) only: split_paired_all prod.case, elim exE conjE)
    fix r s1 m' j
    assume R: "s1 = s\<lparr>ram := m'\<rparr>" "r \<noteq> NULL" "length w < j" "(unat r, j) \<notin> L" "heap_inv ?h m' (insert (unat r, j) L)"
      "unchanged ?h L (ram s) m'" "text_in m' (unat r, j) r w"
    show "olds s1 = olds s \<and> (\<exists>L1. L \<subseteq> L1 \<and> parsing ?h d ds A C (store32 (ram s1) (slot A (length ws)) r) L1 (ws @ [w]))
        \<and> unchanged ?h (L - {A}) (ram s) (store32 (ram s1) (slot A (length ws)) r)
        \<and> text_in (store32 (ram s1) (slot A (length ws)) r) C (olds s) rest"
      using stored [OF R(3-7)] by (intro conjI exI [of _ "insert (unat r, j) L"]) (auto simp: R(1))
  qed
qed

lemma token_loop_runs:
  assumes mx: "unat mx = n" "n < 2 ^ 29" "4 * n \<le> k" and A: "A = (unat args, k)"
  shows "parsing (heap_of env) (literal env blanks) ds A C (ram s) L ws \<Longrightarrow> length ws < n \<Longrightarrow> tok \<noteq> NULL \<Longrightarrow>
    text_in (ram s) C tok w \<Longrightarrow> text_in (ram s) C (olds s) rest \<Longrightarrow>
    allocates (token_loop env mx args tok (of_nat (length ws)) s)
      (collected (heap_of env) (literal env blanks) ds A C L (ram s) (take n (ws @ w # words ds rest)))"
proof (induction "length rest" arbitrary: s L ws tok w rest rule: less_induct)
  case less
  let ?h = "heap_of env" and ?d = "literal env blanks" and ?j = "length ws"
  let ?post = "collected ?h ?d ds A C L (ram s) (take n (ws @ w # words ds rest))"
  have AC: "A \<in> L" "C \<in> L" using less.prems(1) by (auto simp: parsing_def)
  have "unat (of_nat (Suc ?j) :: u32) = Suc ?j" using less.prems(2) mx(2) by (intro unat_of_nat32) simp
  then have full: "mx \<le> of_nat (Suc ?j) \<longleftrightarrow> n \<le> Suc ?j" using mx(1) by (simp add: word_le_nat_alt)
  define go where "go = (\<lambda>s. if n \<le> Suc ?j then Some (Ret (of_nat (Suc ?j), s))
        else rbind (next_token NULL ?d s) (\<lambda>(token, s). token_loop env mx args token (of_nat (Suc ?j)) s))"
  have "args + 4 * of_nat ?j = slot A ?j" by (simp add: slot_def A)
  then have run: "token_loop env mx args tok (of_nat ?j) s =
      rbind (dup_string env tok s) (\<lambda>(r, s). go (s\<lparr>ram := store32 (ram s) (slot A ?j) r\<rparr>))"
    using less.prems(3) full by (subst token_loop.simps) (simp add: go_def Let_def add.commute cong: if_cong)
  have "allocates (go s2) ?post" if S: "parsing ?h ?d ds A C (ram s2) L1 (ws @ [w])" "L \<subseteq> L1"
    "unchanged ?h (L - {A}) (ram s) (ram s2)" "text_in (ram s2) C (olds s2) rest" for s2 L1
  proof (cases "n \<le> Suc ?j")
    case True
    then have "take n (ws @ w # words ds rest) = ws @ [w]" using less.prems(2) by (simp add: le_Suc_eq)
    with True S(1,2) unchanged_mono [OF S(3), of "L - {A, C}"] show ?thesis by (auto simp: go_def intro!: collectedI)
  next
    case False
    from next_token_runs [OF S(1,4), of NULL] obtain tok' s3 where T:
      "next_token NULL ?d s2 = Some (Ret (tok', s3))" "parsing ?h ?d ds A C (ram s3) L1 (ws @ [w])"
      "unchanged ?h (L1 - {C}) (ram s2) (ram s3)"
      "case CString.next_token ds rest of None \<Rightarrow> tok' = NULL
       | Some (w', rest') \<Rightarrow> tok' \<noteq> NULL \<and> text_in (ram s3) C tok' w' \<and> text_in (ram s3) C (olds s3) rest'" by blast
    have un: "unchanged ?h (L - {A, C}) (ram s) (ram s3)"
      by (rule unchanged_mono [OF unchanged_trans [OF S(3) T(3)]]) (use S(2) in auto)
    have go: "go s2 = token_loop env mx args tok' (of_nat (length (ws @ [w]))) s3" using False T(1) by (simp add: go_def)
    show ?thesis
    proof (cases "CString.next_token ds rest")
      case None
      then have "go s2 = Some (Ret (of_nat (Suc ?j), s3))" "words ds rest = []"
        using T(4) go by (simp_all add: token_loop.simps words.simps [of ds rest])
      with False T(2) S(2) un show ?thesis by (auto intro!: collectedI)
    next
      case (Some x)
      then obtain w' rest' where x: "CString.next_token ds rest = Some (w', rest')" by (cases x) auto
      then have ws: "(ws @ [w]) @ w' # words ds rest' = ws @ w # words ds rest" by (simp add: words.simps [of ds rest])
      have "allocates (token_loop env mx args tok' (of_nat (length (ws @ [w]))) s3)
          (collected ?h ?d ds A C L1 (ram s3) (take n ((ws @ [w]) @ w' # words ds rest')))"
        using T(4) x False by (intro less.hyps [OF next_token_shorter [OF x] T(2)]) simp_all
      then show ?thesis unfolding go ws by (rule yields_mono) (rule collected_trans [OF _ S(2) un])
    qed
  qed
  note go_runs = this
  have "4 * Suc ?j \<le> k" using less.prems(2) mx(3) by simp
  from token_step [OF less.prems(1) A this less.prems(4,5)] show ?case
    unfolding run by (rule yields_bind) (use go_runs in auto)
qed

section \<open>The whole parser\<close>

lemma collect_words:
  assumes p: "parsing (heap_of env) (literal env blanks) ds A C (ram s) L []" and t: "text_in (ram s) C line_copy bs"
    and mx: "unat mx = n" "0 < n" "n < 2 ^ 29" "4 * n \<le> k" and A: "A = (unat args, k)"
  shows "allocates (rbind (next_token line_copy (literal env blanks) s) (\<lambda>(token, s). token_loop env mx args token 0 s))
    (collected (heap_of env) (literal env blanks) ds A C L (ram s) (take n (words ds bs)))"
proof -
  let ?h = "heap_of env" and ?d = "literal env blanks"
  from next_token_runs [OF p t, of line_copy] obtain tok s1 where T:
    "next_token line_copy ?d s = Some (Ret (tok, s1))" "parsing ?h ?d ds A C (ram s1) L []"
    "unchanged ?h (L - {C}) (ram s) (ram s1)"
    "case CString.next_token ds bs of None \<Rightarrow> tok = NULL
     | Some (w, rest) \<Rightarrow> tok \<noteq> NULL \<and> text_in (ram s1) C tok w \<and> text_in (ram s1) C (olds s1) rest" by blast
  have un: "unchanged ?h (L - {A, C}) (ram s) (ram s1)" by (rule unchanged_mono [OF T(3)]) auto
  show ?thesis
  proof (cases "CString.next_token ds bs")
    case None
    then have "tok = NULL" "words ds bs = []" using T(4) by (simp_all add: words.simps [of ds bs])
    with T(1,2) un show ?thesis by (auto simp: token_loop.simps [of env mx args NULL] intro!: collectedI)
  next
    case (Some x)
    then obtain w rest where x: "CString.next_token ds bs = Some (w, rest)" by (cases x) auto
    then have W: "words ds bs = [] @ w # words ds rest" by (simp add: words.simps [of ds bs])
    have "allocates (token_loop env mx args tok 0 s1) (collected ?h ?d ds A C L (ram s1) (take n (words ds bs)))"
      using token_loop_runs [OF mx(1,3,4) A T(2), of tok w rest] T(4) x mx(2) W by simp
    then have "allocates (token_loop env mx args tok 0 s1) (collected ?h ?d ds A C L (ram s) (take n (words ds bs)))"
      by (rule yields_mono) (rule collected_trans [OF _ subset_refl un])
    then show ?thesis by (simp add: T(1))
  qed
qed

text \<open>The three allocations before the loop.\<close>

lemma string_block:
  assumes inv: "heap_inv h m L" and line: "text_in m blk line bs" "blk \<in> L"
  shows "cstr m line bs" "{unat line .. unat line + length bs} \<subseteq> payload blk" "length bs < 2 ^ 32 - 1"
proof -
  have "unat line + length bs < 2 ^ 32" "0 < unat line"
    using line(1) unat_gt_0 [of line] by (auto simp: text_in_def cstring_def)
  then show "length bs < 2 ^ 32 - 1" by simp
qed (use line in \<open>auto simp: text_in_def cstring_def\<close>)

lemma dup_prefix_runs:
  assumes inv: "heap_inv (heap_of env) (ram s) L" and line: "text_in (ram s) blk line bs" "blk \<in> L"
  shows "allocates (dup_prefix env line e s) (\<lambda>(cmd, s'). unchanged (heap_of env) L (ram s) (ram s')
    \<and> (\<exists>L'. L \<subseteq> L' \<and> heap_inv (heap_of env) (ram s') L' \<and> word_at (ram s') L' cmd (take (unat e) bs)))"
proof -
  let ?h = "heap_of env" and ?v = "take (unat e) bs"
  from strndup_fresh [OF inv string_block(1) [OF assms] line(2) string_block(2,3) [OF assms], of e] show ?thesis
  proof (elim disjE exE conjE)
    fix r assume r: "strndup (ram s) ?h line e = Some (Ret r)" "fresh_string ?h (ram s) L ?v r"
    obtain p m where pm: "r = (p, m)" by (cases r)
    with r(2) obtain k where k: "length ?v < k" "heap_inv ?h m (insert (unat p, k) L)" "cstr m p ?v" "unchanged ?h L (ram s) m"
      by (auto simp: fresh_string_def unchanged_def)
    then have "word_at m (insert (unat p, k) L) p ?v" by (auto simp: word_at_def)
    with k(2,4) r(1) show ?thesis by (auto simp: dup_prefix_def pm intro!: exI [of _ "insert (unat p, k) L"])
  qed (simp add: dup_prefix_def)
qed

lemma parsing_start:
  assumes inv: "heap_inv (heap_of env) (ram s) L" and line: "text_in (ram s) blk line bs" "blk \<in> L"
    and d: "cstring (ram s) d ds" "unat d + length ds < unat (virtual_address (heap_of env))"
    and A: "A \<in> L" and w: "word_at (ram s) L0 cmd v" "L0 \<subseteq> L - {A}"
  shows "allocates (dup_string env line s) (\<lambda>(q, s'). unchanged (heap_of env) L (ram s) (ram s')
    \<and> (\<exists>c. (unat q, c) \<notin> L \<and> parsing (heap_of env) d ds A (unat q, c) (ram s') (insert (unat q, c) L) []
        \<and> text_in (ram s') (unat q, c) q bs \<and> word_at (ram s') (L - {A}) cmd v))"
proof -
  let ?h = "heap_of env"
  have "parsing ?h d ds A (unat q, c) m' (insert (unat q, c) L) [] \<and> word_at m' (L - {A}) cmd v"
    if R: "(unat q, c) \<notin> L" "heap_inv ?h m' (insert (unat q, c) L)" "unchanged ?h L (ram s) m'" for q :: addr and c m'
  proof -
    have "unchanged ?h L0 (ram s) m'" using w(2) by (intro unchanged_mono [OF R(3)]) auto
    then have "word_at m' (L - {A}) cmd v" using w(2) by (intro word_at_keep [OF w(1) inv]) auto
    with R(1,2) A d delimiters_keep [OF d R(3)] show ?thesis by (auto simp: parsing_def)
  qed
  note start = this
  have "allocates (dup_string env line s) (\<lambda>(q, s'). \<exists>m' c. s' = s\<lparr>ram := m'\<rparr> \<and> q \<noteq> NULL \<and> length bs < c \<and> (unat q, c) \<notin> L
    \<and> heap_inv ?h m' (insert (unat q, c) L) \<and> unchanged ?h L (ram s) m' \<and> text_in m' (unat q, c) q bs)"
    by (rule dup_string_text [OF inv line(2,1)]) simp
  then show ?thesis
  proof (rule yields_mono, simp (no_asm_use) only: split_paired_all prod.case, elim exE conjE)
    fix q :: addr and s1 m' c
    assume R: "s1 = s\<lparr>ram := m'\<rparr>" "(unat q, c) \<notin> L" "heap_inv ?h m' (insert (unat q, c) L)" "unchanged ?h L (ram s) m'"
      "text_in m' (unat q, c) q bs"
    show "unchanged ?h L (ram s) (ram s1) \<and> (\<exists>c. (unat q, c) \<notin> L \<and> parsing ?h d ds A (unat q, c) (ram s1) (insert (unat q, c) L) []
        \<and> text_in (ram s1) (unat q, c) q bs \<and> word_at (ram s1) (L - {A}) cmd v)"
      using start [OF R(2-4)] R by (intro conjI exI [of _ c]) simp_all
  qed
qed

lemma rbind_assoc_pair: "rbind (rbind r (\<lambda>(x, s). f x s)) g = rbind r (\<lambda>(x, s). rbind (f x s) g)"
  by (simp add: rbind_assoc case_prod_unfold)

lemma parse_finish:
  assumes p: "parsing h d ds A C m L ws" and C: "C = (unat line_copy, c)" and A: "A = (unat args, k)"
    and w: "word_at m (L - {A, C}) cmd v"
  defines "m' \<equiv> kfree m line_copy"
  shows "heap_inv h m' (L - {C})" "unchanged h (L - {C}) m m'" "cstr m' cmd v"
    and "j < length ws \<Longrightarrow> cstr m' (load32 m' (args + 4 * of_nat j)) (ws ! j)"
proof -
  from p have P: "heap_inv h m L" "A \<in> L" "C \<in> L" "A \<noteq> C" "4 * length ws \<le> snd A"
    "\<And>j. j < length ws \<Longrightarrow> word_at m (L - {A, C}) (load32 m (slot A j)) (ws ! j)"
    by (auto simp: parsing_def)
  note F = kfree_unchanged [OF P(1) P(3) [unfolded C], folded C m'_def]
  show "heap_inv h m' (L - {C})" "unchanged h (L - {C}) m m'" by (rule F)+
  have un: "unchanged h (L - {A, C}) m m'" by (rule unchanged_mono [OF F(2)]) auto
  show "cstr m' cmd v" using word_at_keep [OF w P(1) _ un subset_refl] by (auto simp: word_at_def)
  assume j: "j < length ws"
  have "unchanged h {A} m m'" by (rule unchanged_mono [OF F(2)]) (use P in auto)
  then have "load32 m' (slot A j) = load32 m (slot A j)" using j P(5) by (intro slot_load [OF P(1,2)]) simp_all
  moreover have "slot A j = args + 4 * of_nat j" by (simp add: slot_def A)
  moreover have "cstr m' (load32 m (slot A j)) (ws ! j)"
    using word_at_keep [OF P(6) [OF j] P(1) _ un subset_refl] by (auto simp: word_at_def)
  ultimately show "cstr m' (load32 m' (args + 4 * of_nat j)) (ws ! j)" by simp
qed

lemma parse_command_steps:
  assumes line: "text_in (ram s) blk line bs" and d: "cstring (ram s) (literal env blanks) ds" and len: "len \<noteq> 0"
  defines "e \<equiv> of_nat (length (takeWhile (\<lambda>b. b \<notin> set ds) bs)) :: u32"
  shows "parse_command env line len s = rbind (dup_prefix env line e s) (\<lambda>(cmd, s).
      rbind (alloc env (4 * (len div 2)) s) (\<lambda>(args, s).
        if args = NULL then Some (Ret (\<lparr>command = NULL, arguments = args, num_arguments = 0\<rparr>, release cmd s))
        else rbind (dup_string env line s) (\<lambda>(line_copy, s).
          rbind (rbind (next_token line_copy (literal env blanks) s) (\<lambda>(token, s). token_loop env (len div 2) args token 0 s))
            (\<lambda>(arg_index, s).
          Some (Ret (\<lparr>command = cmd, arguments = args, num_arguments = arg_index\<rparr>, release line_copy s))))))"
    and "take (unat e) bs = takeWhile (\<lambda>b. b \<notin> set ds) bs"
proof -
  have l: "line \<noteq> NULL" "cstr (ram s) line bs" "length bs < 2 ^ 32" using line by (auto simp: text_in_def cstring_def NULL_def)
  have ce: "strcspn (ram s) line (literal env blanks) = Some e"
    using l d strcspn_loop_cstring [OF d l(2), of 0] by (simp add: strcspn_def e_def cstring_def NULL_def)
  have "unat e = length (takeWhile (\<lambda>b. b \<notin> set ds) bs)"
    unfolding e_def using l(3) length_takeWhile_le [of _ bs] by (intro unat_of_nat32) (rule le_less_trans)
  then show "take (unat e) bs = takeWhile (\<lambda>b. b \<notin> set ds) bs" by (simp only: takeWhile_eq_take [symmetric])
  show "parse_command env line len s = rbind (dup_prefix env line e s) (\<lambda>(cmd, s).
      rbind (alloc env (4 * (len div 2)) s) (\<lambda>(args, s).
        if args = NULL then Some (Ret (\<lparr>command = NULL, arguments = args, num_arguments = 0\<rparr>, release cmd s))
        else rbind (dup_string env line s) (\<lambda>(line_copy, s).
          rbind (rbind (next_token line_copy (literal env blanks) s) (\<lambda>(token, s). token_loop env (len div 2) args token 0 s))
            (\<lambda>(arg_index, s).
          Some (Ret (\<lparr>command = cmd, arguments = args, num_arguments = arg_index\<rparr>, release line_copy s))))))"
    unfolding rbind_assoc_pair using l(1) len ce by (simp add: parse_command_def returning_def Let_def)
qed

text \<open>What the parser returns for the words \<open>ws\<close>, of which at most \<open>n\<close> are taken.\<close>

definition parsed ::
  "heap_allocator \<Rightarrow> (nat \<times> nat) set \<Rightarrow> mem \<Rightarrow> u8 list \<Rightarrow> u8 list list \<Rightarrow> command_info \<times> 'd kstate \<Rightarrow> bool" where
  "parsed h L m cmd ws = (\<lambda>(info, s'). cstr (ram s') (command info) cmd \<and> unat (num_arguments info) = length ws
     \<and> (\<forall>j < length ws. cstr (ram s') (argument (ram s') info (of_nat j)) (ws ! j))
     \<and> unchanged h L m (ram s') \<and> (\<exists>L'. L \<subseteq> L' \<and> heap_inv h (ram s') L'))"

lemma parse_collected:
  assumes r: "collected h d ds A C L1 m1 ws (i, s)" and C: "C = (unat line_copy, c)" and A: "A = (unat args, k)"
    and w: "word_at m1 (L1 - {A, C}) cmd v" and inv: "heap_inv h m1 L1" and len: "length ws < 2 ^ 32"
    and L: "L \<subseteq> L1 - {A, C}" "unchanged h L m m1"
  shows "parsed h L m v ws (\<lparr>command = cmd, arguments = args, num_arguments = i\<rparr>, release line_copy s)"
proof -
  from r obtain L' where i: "i = of_nat (length ws)" and W: "unchanged h (L1 - {A, C}) m1 (ram s)" "L1 \<subseteq> L'"
    "parsing h d ds A C (ram s) L' ws" by (auto simp: collected_def)
  have "word_at (ram s) (L' - {A, C}) cmd v" using W(2) by (intro word_at_keep [OF w inv _ W(1)]) auto
  note F = parse_finish [OF W(3) C A this]
  have "unchanged h L m (kfree (ram s) line_copy)"
    by (rule unchanged_mono [OF unchanged_trans [OF unchanged_trans [OF L(2) W(1)] F(2)]]) (use L(1) W(2) in auto)
  moreover have "L \<subseteq> L' - {C}" using L(1) W(2) by auto
  moreover have "unat i = length ws" unfolding i using len by (rule unat_of_nat32)
  moreover have "\<forall>j < length ws. cstr (kfree (ram s) line_copy) (load32 (kfree (ram s) line_copy) (args + 4 * of_nat j)) (ws ! j)"
    using F(4) by blast
  ultimately show ?thesis using F(1,3) by (auto simp: parsed_def release_def argument_def)
qed

lemma parse_from_array:
  fixes s :: "'d kstate"
  assumes inv: "heap_inv (heap_of env) (ram s) L" and line: "text_in (ram s) blk line bs" "blk \<in> L"
    and d: "cstring (ram s) (literal env blanks) ds" "unat (literal env blanks) + length ds < unat (virtual_address (heap_of env))"
    and A: "A = (unat args, k)" "A \<in> L" and w: "word_at (ram s) (L - {A}) cmd v"
    and n: "unat mx = n" "0 < n" "n < 2 ^ 29" "4 * n \<le> k" and M: "M \<subseteq> L - {A}" "unchanged (heap_of env) M m (ram s)"
  shows "allocates (rbind (dup_string env line s) (\<lambda>(line_copy, s).
      rbind (rbind (next_token line_copy (literal env blanks) s) (\<lambda>(token, s). token_loop env mx args token 0 s)) (\<lambda>(arg_index, s).
        Some (Ret (\<lparr>command = cmd, arguments = args, num_arguments = arg_index\<rparr>, release line_copy s)))))
    (parsed (heap_of env) M m v (take n (words ds bs)))"
proof (rule yields_bind [OF parsing_start [OF inv line d A(2) w subset_refl]], simp only: split_paired_all prod.case, elim conjE exE)
  let ?h = "heap_of env" and ?d = "literal env blanks" and ?ws = "take n (words ds bs)"
  fix q :: addr and s1 :: "'d kstate" and c
  assume P: "unchanged ?h L (ram s) (ram s1)" "(unat q, c) \<notin> L" "parsing ?h ?d ds A (unat q, c) (ram s1) (insert (unat q, c) L) []"
    "text_in (ram s1) (unat q, c) q bs" "word_at (ram s1) (L - {A}) cmd v"
  let ?C = "(unat q, c)"
  have L: "insert ?C L - {A, ?C} = L - {A}" using P(2) by auto
  have inv1: "heap_inv ?h (ram s1) (insert ?C L)" using P(3) by (simp add: parsing_def)
  have len: "length ?ws < 2 ^ 32" using n(3) by simp
  have un: "unchanged ?h M m (ram s1)" by (rule unchanged_mono [OF unchanged_trans [OF M(2) P(1)]]) (use M(1) in auto)
  have M1: "M \<subseteq> insert ?C L - {A, ?C}" and w1: "word_at (ram s1) (insert ?C L - {A, ?C}) cmd v" unfolding L by (rule M(1), rule P(5))
  show "allocates (rbind (rbind (next_token q ?d s1) (\<lambda>(token, s). token_loop env mx args token 0 s)) (\<lambda>(arg_index, s).
        Some (Ret (\<lparr>command = cmd, arguments = args, num_arguments = arg_index\<rparr>, release q s)))) (parsed ?h M m v ?ws)"
  proof (rule yields_bind [OF collect_words [OF P(3,4) n A(1)]])
    fix x assume x: "collected ?h ?d ds A ?C (insert ?C L) (ram s1) ?ws x"
    obtain i s2 where pair: "x = (i, s2)" by (cases x)
    from parse_collected [OF x [unfolded pair] refl A(1) w1 inv1 len M1 un]
    show "allocates (case x of (arg_index, s) \<Rightarrow>
        Some (Ret (\<lparr>command = cmd, arguments = args, num_arguments = arg_index\<rparr>, release q s))) (parsed ?h M m v ?ws)"
      by (simp add: pair)
  qed
qed

lemma parse_command_runs:
  fixes s :: "'d kstate"
  assumes inv: "heap_inv (heap_of env) (ram s) L" and line: "text_in (ram s) blk line bs" "blk \<in> L"
    and d: "cstring (ram s) (literal env blanks) ds" "unat (literal env blanks) + length ds < unat (virtual_address (heap_of env))"
    and len: "2 \<le> len" "len < 2 ^ 30"
  shows "allocates (parse_command env line len s)
    (parsed (heap_of env) L (ram s) (takeWhile (\<lambda>b. b \<notin> set ds) bs) (take (unat len div 2) (words ds bs)))"
proof -
  let ?h = "heap_of env" and ?d = "literal env blanks" and ?n = "unat len div 2" and ?v = "takeWhile (\<lambda>b. b \<notin> set ds) bs"
  have n: "unat (len div 2) = ?n" "0 < ?n" "?n < 2 ^ 29" "unat (4 * (len div 2)) = 4 * ?n"
    using len by (simp_all add: unat_div word_le_nat_alt word_less_nat_alt unat_word_ariths)
  have "len \<noteq> 0" using len(1) by auto
  note run = parse_command_steps [OF line(1) d(1) this]
  show ?thesis
    unfolding run(1)
  proof (rule yields_bind [OF dup_prefix_runs [OF inv line]], simp (no_asm_use) only: split_paired_all prod.case run(2), elim conjE exE)
    fix cmd and s1 :: "'d kstate" and L1
    assume P: "unchanged ?h L (ram s) (ram s1)" "L \<subseteq> L1" "heap_inv ?h (ram s1) L1" "word_at (ram s1) L1 cmd ?v"
    show "allocates (rbind (alloc env (4 * (len div 2)) s1) (\<lambda>(args, s).
        if args = NULL then Some (Ret (\<lparr>command = NULL, arguments = args, num_arguments = 0\<rparr>, release cmd s))
        else rbind (dup_string env line s) (\<lambda>(line_copy, s).
          rbind (rbind (next_token line_copy ?d s) (\<lambda>(token, s). token_loop env (len div 2) args token 0 s))
            (\<lambda>(arg_index, s).
          Some (Ret (\<lparr>command = cmd, arguments = args, num_arguments = arg_index\<rparr>, release line_copy s))))))
        (parsed ?h L (ram s) ?v (take ?n (words ds bs)))"
    proof (rule yields_bind [OF alloc_block [OF P(3)]], simp, simp (no_asm_use) only: split_paired_all prod.case, elim conjE exE)
      fix args :: addr and s2 :: "'d kstate" and k
      assume Q: "args \<noteq> NULL" "unchanged ?h L1 (ram s1) (ram s2)" "unat (4 * (len div 2)) \<le> k" "(unat args, k) \<notin> L1"
        "heap_inv ?h (ram s2) (insert (unat args, k) L1)"
      let ?A = "(unat args, k)" and ?L = "insert (unat args, k) L1"
      have un: "unchanged ?h L (ram s) (ram s2)" by (rule unchanged_mono [OF unchanged_trans [OF P(1) Q(2)]]) (use P(2) in auto)
      have t: "text_in (ram s2) blk line bs" by (rule text_in_keep [OF line(1) unchanged_mono [OF un]]) (use line(2) in auto)
      have "word_at (ram s2) (?L - {?A}) cmd ?v"
        by (rule word_at_keep [OF P(4,3) subset_refl Q(2)]) (use Q(4) in auto)
      moreover have "blk \<in> ?L" "?A \<in> ?L" "L \<subseteq> ?L - {?A}" "4 * ?n \<le> k" using line(2) P(2) Q(3,4) n(4) by auto
      ultimately show "allocates (if args = NULL then Some (Ret (\<lparr>command = NULL, arguments = args, num_arguments = 0\<rparr>, release cmd s2))
        else rbind (dup_string env line s2) (\<lambda>(line_copy, s).
          rbind (rbind (next_token line_copy ?d s) (\<lambda>(token, s). token_loop env (len div 2) args token 0 s))
            (\<lambda>(arg_index, s).
          Some (Ret (\<lparr>command = cmd, arguments = args, num_arguments = arg_index\<rparr>, release line_copy s)))))
        (parsed ?h L (ram s) ?v (take ?n (words ds bs)))"
        unfolding if_not_P [OF Q(1)]
        by (intro parse_from_array [OF Q(5) t _ delimiters_keep [OF d un] d(2) refl _ _ n(1-3) _ _ un])
    qed
  qed
qed


section \<open>A concrete line\<close>

lemma heap_inv_below:
  assumes "heap_inv h m L" "\<And>x. unat (virtual_address h) \<le> unat x \<Longrightarrow> m' x = m x"
  shows "heap_inv h m' L"
proof -
  from assms(1) obtain bs where bs: "heap_wf m (unat (virtual_address h)) bs" "no_free_pair bs"
    "live (unat (virtual_address h)) bs = L" "\<forall>(a, k) \<in> L. a < 2 ^ 32" by (auto simp: heap_inv_def)
  have "heap_wf m' (unat (virtual_address h)) bs"
    using header_bytes_range by (intro heap_wf_cong [OF bs(1)] assms(2)) blast
  with bs show ?thesis by (auto simp: heap_inv_def)
qed

text \<open>The line \<open>ab c\<close> has two words.\<close>

definition parse_env :: "u8 kenv" where
  "parse_env = shell_env\<lparr>literal := \<lambda>_. 0x100\<rparr>"


end
