(* ===== verification/Fat32_Names.thy ===== *)
theory Fat32_Names
  imports Fat32 Heap_Frame
begin

text \<open>
  The names of directory entries as the search of a directory sees them: the short name of an entry, or
  the long name in the entries before it. \<open>entry_text\<close> is the name as a function of the entries; \<open>entry_name\<close>
  is shown to write it, as a string, into the local array of the search.
\<close>

section \<open>Short names\<close>

definition short_text :: "u8 list \<Rightarrow> u8 list" where
  "short_text e = trim_name (nameext_bytes 0 (take 11 e) True False False)"

text \<open>
  The literals the decoder compares with, outside the array it writes. They match only a name of one dot
  and only when the array already held spaces; the name is a dot then as well.
\<close>

definition dot_literals :: "'d kenv \<Rightarrow> addr \<Rightarrow> mem \<Rightarrow> bool" where
  "dot_literals env filename m \<longleftrightarrow>
     cstr m (literal env ''.          '') (ascii ''.          '') \<and> disjoint_regions filename 256 (literal env ''.          '') 12
   \<and> cstr m (literal env ''..         '') (ascii ''..         '') \<and> disjoint_regions filename 256 (literal env ''..         '') 12"

lemma dot_literals_frame:
  assumes "dot_literals env filename m" "same_outside filename 256 m m'"
  shows "dot_literals env filename m'"
proof -
  have "cstr m' l (ascii str)" if "cstr m l (ascii str)" "disjoint_regions filename 256 l 12" "length (ascii str) = 11" for l str
  proof (rule cstr_cong [OF that(1)])
    fix i assume "i \<le> length (ascii str)"
    then have "in_region l 12 (l + of_nat i)" using that(3) by (subst in_region_offset) auto
    then show "m' (l + of_nat i) = m (l + of_nat i)"
      using assms(2) disjoint_regionsD [OF disjoint_regions_sym [OF that(2)]] by (simp add: same_outside_def)
  qed
  moreover have "length (ascii ''.          '') = 11" "length (ascii ''..         '') = 11" by (simp_all add: ascii_def)
  ultimately show ?thesis using assms(1) by (simp add: dot_literals_def)
qed

lemma strncmp_step:
  assumes "strncmp m p q n = 0" "n \<noteq> 0" "m q \<noteq> 0"
  shows "m p = m q" "strncmp m (p + 1) (q + 1) (n - 1) = 0"
proof -
  show eq: "m p = m q" using assms strncmp_first by blast
  show "strncmp m (p + 1) (q + 1) (n - 1) = 0"
    using assms eq by (auto simp: strncmp_def strncmp_loop.simps [of m p] split: if_splits)
qed

lemma short_name_runs:
  assumes apart: "disjoint_regions nameext 11 filename 16" and lit: "dot_literals env filename m"
    and c0: "m nameext \<noteq> 0x20"
  shows "\<exists>q m'. fat32_nameext_to_name env nameext filename m = Ret (q, m')
    \<and> cstr m' filename (short_text (bytes_at m nameext 11)) \<and> same_outside filename 16 m m'"
proof -
  define out where "out = nameext_bytes 0 (bytes_at m nameext 11) True False False"
  let ?m = "put_bytes m filename out"
  let ?l1 = "literal env ''.          ''" and ?l2 = "literal env ''..         ''"
  have "bytes_at m nameext 11 \<noteq> []" using length_bytes_at [of m nameext 11] by (metis list.size(3) zero_neq_numeral)
  then have "hd (bytes_at m nameext 11) = m nameext" by (simp add: hd_conv_nth)
  then have len: "2 \<le> length out" "length out \<le> 12" using nameext_bytes_start [of "bytes_at m nameext 11"] c0 by (simp_all add: out_def)
  have txt_eq: "short_text (bytes_at m nameext 11) = trim_name out" by (simp add: short_text_def out_def)
  have nth: "?m (filename + of_nat i) = out ! i" if "i < length out" for i
    using that len by (simp add: put_bytes_nth unat_of_nat32)
  have out16: "same_outside filename 16 m ?m" using len by (intro put_bytes_same_outside) simp_all
  then have "same_outside filename 256 m ?m" by (rule same_outside_mono) (simp add: in_region_def)
  from dot_literals_frame [OF lit this]
  have lits: "?m ?l1 = 0x2E" "?m (?l1 + 1) = 0x20" "?m ?l2 = 0x2E" "?m (?l2 + 1) = 0x2E" "?m (?l2 + 2) = 0x20"
    by (simp_all add: dot_literals_def ascii_def add.assoc)
  have "out ! 1 \<in> set out" using len by (intro nth_mem) simp
  then have "out ! 1 \<noteq> 0x20" using nameext_bytes_space by (metis out_def)
  have ne1: "strncmp ?m filename ?l1 11 \<noteq> 0"
  proof
    assume "strncmp ?m filename ?l1 11 = 0"
    then have "strncmp ?m (filename + 1) (?l1 + 1) 10 = 0" using strncmp_step(2) [of ?m filename ?l1 11] lits by simp
    then have "?m (filename + 1) = 0x20" using strncmp_step(1) [of ?m "filename + 1" "?l1 + 1" 10] lits by simp
    with \<open>out ! 1 \<noteq> 0x20\<close> nth [of 1] len show False by simp
  qed
  show ?thesis
  proof (cases "strncmp ?m filename ?l2 11 = 0")
    case False
    with nameext_to_name_runs [OF apart c0 out_def ne1] show ?thesis by (simp add: txt_eq)
  next
    case True
    then have "?m filename = 0x2E" and s1: "strncmp ?m (filename + 1) (?l2 + 1) 10 = 0"
      using strncmp_step [of ?m filename ?l2 11] lits by simp_all
    moreover from s1 have "?m (filename + 1) = 0x2E" and s2: "strncmp ?m (filename + 1 + 1) (?l2 + 1 + 1) 9 = 0"
      using strncmp_step [of ?m "filename + 1" "?l2 + 1" 10] lits by simp_all
    moreover from s2 have "?m (filename + 2) = 0x20"
      using strncmp_step(1) [of ?m "filename + 2" "?l2 + 2" 9] lits by (simp add: add.assoc)
    moreover have "?m (filename + 2) \<noteq> 0x20" if "2 < length out"
      using nth [OF that] nameext_bytes_space nth_mem [OF that] by (metis out_def of_nat_numeral)
    ultimately have "length out = 2" and two: "?m filename = 0x2E" "?m (filename + 1) = 0x2E" using len by fastforce+
    then have out: "out = [0x2E, 0x2E]" using nth [of 0] nth [of 1] by (auto simp: list_eq_iff_nth_eq less_2_cases_iff)
    have "fat32_nameext_to_name env nameext filename m =
        Ret (filename - 1, ?m(filename := 0x2E, filename + 1 := 0x2E, filename + 2 := 0, filename + 1 := 0))"
      unfolding fat32_nameext_to_name_def nameext_loop_writes [OF apart] out_def [symmetric] Let_def prod.case if_not_P [OF ne1] if_P [OF True]
      using c0 by (simp add: out add.commute [of 1 filename])
    moreover have "same_outside filename 16 m (?m(filename := 0x2E, filename + 1 := 0x2E, filename + 2 := 0, filename + 1 := 0))"
      using out16 by (auto simp: same_outside_def in_region_def)
    ultimately show ?thesis by (simp add: txt_eq out trim_name_def)
  qed
qed

section \<open>Long names\<close>

definition long_entry :: "u8 list \<Rightarrow> bool" where
  "long_entry e \<longleftrightarrow> e ! 11 AND ATTR_LONG_NAME = ATTR_LONG_NAME"

definition code_unit :: "u8 list \<Rightarrow> nat \<Rightarrow> u8" where
  "code_unit e i = utf16_to_ascii (ucast (e ! i) OR push_bit 8 (ucast (e ! (i + 1))))"

definition lfn_text :: "u8 list \<Rightarrow> u8 list" where
  "lfn_text e = map (code_unit e) [1, 3, 5, 7, 9, 14, 16, 18, 20, 22, 24, 28, 30]"

text \<open>The long name of entry \<open>j\<close>: the characters of the long entries before it, the nearest first.\<close>

definition long_name :: "u8 list list \<Rightarrow> nat \<Rightarrow> u8 list" where
  "long_name es j = concat (map lfn_text (takeWhile long_entry (rev (take j es))))"

definition entry_text :: "u8 list list \<Rightarrow> nat \<Rightarrow> u8 list" where
  "entry_text es i =
     (if i \<ge> 1 \<and> long_entry (es ! (i - 1))
      then takeWhile (\<lambda>b. b \<noteq> 0) (long_name es i)
      else short_text (es ! i))"

text \<open>The entries of the cluster at \<open>p\<close>.\<close>

definition entries_at :: "mem \<Rightarrow> addr \<Rightarrow> u8 list list" where
  "entries_at m p = map (\<lambda>i. bytes_at m (p + 32 * of_nat i) 32) [0..<16]"

lemma entries_at_nth: "i < 16 \<Longrightarrow> entries_at m p ! i = bytes_at m (p + 32 * of_nat i) 32"
  by (simp add: entries_at_def)

lemma entry_region: "i < 16 \<Longrightarrow> in_region (p + 32 * of_nat i) 32 a \<Longrightarrow> in_region p 512 a"
  using in_region_add [of p "32 * i" 32 a] by (simp add: in_region_def)

lemma entries_at_cong: "(\<And>a. in_region p 512 a \<Longrightarrow> m' a = m a) \<Longrightarrow> entries_at m' p = entries_at m p"
  unfolding entries_at_def by (intro map_cong refl bytes_at_cong) (auto intro: entry_region)

lemma is_long_name_entry: "i < 16 \<Longrightarrow> is_long_name m (p + 32 * of_nat i) \<longleftrightarrow> long_entry (entries_at m p ! i)"
  by (simp add: is_long_name_def entry_attr_def long_entry_def entries_at_nth)

lemma lfn_part_put:
  assumes "disjoint_regions dest k src (2 * k)" "k \<le> 16"
  shows "j \<le> k \<Longrightarrow> lfn_part m dest src j = put_bytes m dest (map (\<lambda>i. utf16_to_ascii (load16 m (src + 2 * of_nat i))) [0..<j])"
proof (induction j)
  case (Suc j)
  let ?m = "lfn_part m dest src j"
  have outside: "?m a = m a" if "in_region src (2 * k) a" for a
  proof -
    have "\<not> in_region dest k a" using that disjoint_regionsD [OF disjoint_regions_sym [OF assms(1)]] by blast
    moreover have "same_outside dest k m ?m"
      using Suc assms(2) by (simp add: put_bytes_same_outside)
    ultimately show ?thesis by (simp add: same_outside_def)
  qed
  have "in_region src (2 * k) (src + of_nat (2 * j))" "in_region src (2 * k) (src + of_nat (2 * j + 1))"
    using Suc.prems assms(2) by (simp_all add: in_region_offset del: of_nat_mult of_nat_add of_nat_Suc)
  then have "load16 ?m (src + 2 * of_nat j) = load16 m (src + 2 * of_nat j)"
    using outside by (simp add: load16_def ac_simps)
  moreover have "lfn_part m dest src (Suc j) = ?m(dest + of_nat j := utf16_to_ascii (load16 ?m (src + 2 * of_nat j)))"
    by (simp add: Let_def)
  moreover have "?m = put_bytes m dest (map (\<lambda>i. utf16_to_ascii (load16 m (src + 2 * of_nat i))) [0..<j])"
    using Suc by simp
  ultimately show ?case by (simp add: put_bytes_append)
qed simp

lemma sub_region: "in_region (p + of_nat i) k a \<Longrightarrow> i + k \<le> n \<Longrightarrow> n \<le> 2 ^ 32 \<Longrightarrow> in_region p n a"
  using in_region_add [of p i k a] by (auto simp: in_region_def)

lemma sub_disjoint:
  assumes "disjoint_regions p n q l" "i + k \<le> n" "n \<le> 2 ^ 32" "j + k' \<le> l" "l \<le> 2 ^ 32"
  shows "disjoint_regions (p + of_nat i) k (q + of_nat j) k'"
  using assms(1) sub_region [OF _ assms(2,3), of p] sub_region [OF _ assms(4,5), of q] unfolding disjoint_regions_def by blast

text \<open>One of the three fields of a long entry, read from a memory that agrees on the entry.\<close>

lemma lfn_field:
  assumes d: "disjoint_regions dest 13 e 32" and same: "\<And>a. in_region e 32 a \<Longrightarrow> m' a = m a"
    and k: "c + 2 * k \<le> 32" "i + k \<le> 13"
  shows "lfn_part m' (dest + of_nat i) (e + of_nat c) k =
    put_bytes m' (dest + of_nat i) (map (code_unit (bytes_at m e 32)) (map (\<lambda>j. c + 2 * j) [0..<k]))"
proof -
  have "utf16_to_ascii (load16 m' (e + of_nat c + 2 * of_nat j)) = code_unit (bytes_at m e 32) (c + 2 * j)" if j: "j < k" for j
  proof -
    have at: "c + 2 * j < 32" "c + 2 * j + 1 < 32" using j k(1) by auto
    then have "in_region e 32 (e + of_nat (c + 2 * j))" "in_region e 32 (e + of_nat (c + 2 * j + 1))"
      by (subst in_region_offset; simp)+
    from same [OF this(1)] same [OF this(2)] at show ?thesis by (simp add: code_unit_def load16_def ac_simps)
  qed
  then have field: "map (\<lambda>j. utf16_to_ascii (load16 m' (e + of_nat c + 2 * of_nat j))) [0..<k] =
      map (code_unit (bytes_at m e 32)) (map (\<lambda>j. c + 2 * j) [0..<k])" by simp
  have "disjoint_regions (dest + of_nat i) k (e + of_nat c) (2 * k)" "k \<le> 16"
    using k by (auto intro: sub_disjoint [OF d])
  from lfn_part_put [OF this order_refl, of m'] show ?thesis unfolding field .
qed

lemma lfn_chars_put:
  assumes d: "disjoint_regions dest 13 e 32"
  shows "lfn_chars m dest e = put_bytes m dest (lfn_text (bytes_at m e 32))"
proof -
  let ?u = "code_unit (bytes_at m e 32)"
  have same: "put_bytes m dest bs a = m a" if "in_region e 32 a" "length bs \<le> 13" for bs a
    using that put_bytes_same_outside [of bs 13 dest m] disjoint_regionsD [OF disjoint_regions_sym [OF d]]
    by (simp add: same_outside_def)
  have field: "lfn_part (put_bytes m dest bs) (dest + of_nat i) (e + of_nat c) k =
      put_bytes (put_bytes m dest bs) (dest + of_nat i) (map ?u (map (\<lambda>j. c + 2 * j) [0..<k]))"
    if "length bs \<le> 13" "c + 2 * k \<le> 32" "i + k \<le> 13" for bs c k i
    using that same by (intro lfn_field [OF d]) simp_all
  define xs ys where "xs = map ?u [1, 3, 5, 7, 9]" and "ys = map ?u [14, 16, 18, 20, 22, 24]"
  have len: "length xs = 5" "length (xs @ ys) = 11" by (simp_all add: xs_def ys_def)
  have "lfn_part m dest (e + 1) 5 = put_bytes m dest xs"
    using field [of "[]" 1 5 0] by (simp add: upt_rec xs_def)
  moreover have "map ?u (map (\<lambda>j. 14 + 2 * j) [0..<6]) = ys" by (simp add: upt_rec ys_def)
  with field [of xs 14 6 5] len have "lfn_part (put_bytes m dest xs) (dest + 5) (e + 14) 6 = put_bytes m dest (xs @ ys)"
    by (simp add: put_bytes_append)
  moreover have "map ?u (map (\<lambda>j. 28 + 2 * j) [0..<2]) = map ?u [28, 30]" by (simp add: upt_rec)
  with field [of "xs @ ys" 28 2 11] len have "lfn_part (put_bytes m dest (xs @ ys)) (dest + 11) (e + 28) 2 =
      put_bytes (put_bytes m dest (xs @ ys)) (dest + 11) (map ?u [28, 30])" by simp
  moreover have "lfn_text (bytes_at m e 32) = (xs @ ys) @ map ?u [28, 30]" by (simp add: lfn_text_def xs_def ys_def)
  ultimately show ?thesis using len(2) unfolding lfn_chars_def by (simp only: put_bytes_append [of m dest "xs @ ys"]) simp
qed

lemma length_lfn_text [simp]: "length (lfn_text e) = 13" by (simp add: lfn_text_def)

lemma long_name_Suc:
  "j < length es \<Longrightarrow> long_name es (Suc j) = (if long_entry (es ! j) then lfn_text (es ! j) @ long_name es j else [])"
  by (simp add: long_name_def take_Suc_conv_app_nth)

lemma length_long_name: "length (long_name es j) \<le> 13 * j"
proof -
  have "length (takeWhile long_entry (rev (take j es))) \<le> length (rev (take j es))" by (rule length_takeWhile_le)
  then have "length (takeWhile long_entry (rev (take j es))) \<le> j" by simp
  moreover have "length (concat (map lfn_text xs)) = 13 * length xs" for xs by (induction xs) simp_all
  ultimately show ?thesis by (simp add: long_name_def)
qed

lemma lfn_loop_put:
  assumes d: "disjoint_regions filename 256 direntries 512" and es: "es = entries_at before direntries"
  shows "(\<And>a. in_region direntries 512 a \<Longrightarrow> m a = before a) \<Longrightarrow> j \<le> 16 \<Longrightarrow> n + 13 * j \<le> 256 \<Longrightarrow>
    lfn_loop m direntries filename j (of_nat n) = (put_bytes m (filename + of_nat n) (long_name es j), of_nat (n + length (long_name es j)))"
proof (induction j arbitrary: m n)
  case 0
  then show ?case by (simp add: long_name_def)
next
  case (Suc j)
  let ?e = "direntries + 32 * of_nat j"
  have j: "j < 16" and lj: "j < length es" using Suc.prems(2) by (simp_all add: es entries_at_def)
  have es_m: "es = entries_at m direntries" unfolding es using Suc.prems(1) by (intro entries_at_cong) simp
  show ?case
  proof (cases "long_entry (es ! j)")
    case False
    with j show ?thesis by (simp add: is_long_name_entry es_m [symmetric] long_name_Suc [OF lj])
  next
    case True
    let ?m = "put_bytes m (filename + of_nat n) (lfn_text (es ! j))"
    have "disjoint_regions (filename + of_nat n) 13 (direntries + of_nat (32 * j)) 32"
      using Suc.prems(3) j by (intro sub_disjoint [OF d]) simp_all
    then have "lfn_chars m (filename + of_nat n) ?e = ?m"
      using entries_at_nth [OF j, of m direntries] es_m by (simp add: lfn_chars_put)
    then have step: "lfn_loop m direntries filename (Suc j) (of_nat n) = lfn_loop ?m direntries filename j (of_nat (n + 13))"
      using True j by (simp add: is_long_name_entry es_m [symmetric])
    have "?m a = before a" if "in_region direntries 512 a" for a
    proof -
      have "\<not> in_region (filename + of_nat n) 13 a"
        using that disjoint_regionsD [OF d] sub_region [of filename n 13 a 256] Suc.prems(3) by auto
      then show ?thesis using put_bytes_same_outside [of "lfn_text (es ! j)" 13 "filename + of_nat n" m] Suc.prems(1) [OF that]
        by (simp add: same_outside_def)
    qed
    from Suc.IH [OF this, of "n + 13"] Suc.prems(2,3) True show ?thesis
      unfolding step by (simp add: long_name_Suc [OF lj] put_bytes_append add.assoc)
  qed
qed

section \<open>The name of an entry\<close>

lemma bytes_at_part: "i + k \<le> n \<Longrightarrow> bytes_at m (p + of_nat i) k = take k (drop i (bytes_at m p n))"
  by (intro nth_equalityI) (simp_all add: add.assoc)

lemma take_bytes_at: "k \<le> n \<Longrightarrow> take k (bytes_at m p n) = bytes_at m p k"
  by (simp add: bytes_at_def take_map)

lemma entry_name_runs:
  assumes i: "i < 16" and d: "disjoint_regions filename 256 direntries 512" and lit: "dot_literals env filename m"
  shows "yields (Some (entry_name env direntries i filename m))
    (\<lambda>m'. cstr m' filename (entry_text (entries_at m direntries) i) \<and> same_outside filename 256 m m')"
proof -
  let ?es = "entries_at m direntries" and ?e = "direntries + 32 * of_nat i"
  have long: "is_long_name m (direntries + 32 * of_nat (i - 1)) \<longleftrightarrow> long_entry (?es ! (i - 1))"
    using i by (intro is_long_name_entry) simp
  show ?thesis
  proof (cases "i \<ge> 1 \<and> long_entry (?es ! (i - 1))")
    case True
    let ?n = "length (long_name ?es i)" and ?m = "put_bytes m filename (long_name ?es i)"
    have n: "?n \<le> 195" using length_long_name [of ?es i] i by simp
    have "lfn_loop m direntries filename i (of_nat 0) = (?m, of_nat ?n)"
      using lfn_loop_put [OF d refl, where m = m and before = m and j = i and n = 0] i by simp
    then have run: "entry_name env direntries i filename m = Ret (?m(filename + of_nat ?n := 0))"
      using True long by (simp add: entry_name_def)
    have "(?m(filename + of_nat ?n := 0)) (filename + of_nat k) = long_name ?es i ! k" if "k < ?n" for k
    proof -
      have "(of_nat k :: u32) \<noteq> of_nat ?n" using that n by (subst of_nat_u32_inj) auto
      then show ?thesis using that n by (simp add: put_bytes_nth unat_of_nat32)
    qed
    then have "cstr (?m(filename + of_nat ?n := 0)) filename (takeWhile (\<lambda>b. b \<noteq> 0) (long_name ?es i))"
      by (rule cstr_takeWhile) (assumption, rule fun_upd_same)
    moreover have "same_outside filename 256 m ?m" using n by (intro put_bytes_same_outside) simp_all
    moreover have "in_region filename 256 (filename + of_nat ?n)" using n by (subst in_region_offset) auto
    ultimately show ?thesis
      using True same_outside_trans same_outside_upd by (fastforce simp: run entry_text_def)
  next
    case False
    then have run: "entry_name env direntries i filename m = obind (fat32_nameext_to_name env ?e filename m) (\<lambda>(_, m). Ret m)"
      using long by (auto simp: entry_name_def)
    show ?thesis
    proof (cases "m ?e = 0x20")
      case True
      then show ?thesis by (simp add: run fat32_nameext_to_name_def)
    next
      case no_space: False
      have "disjoint_regions (filename + of_nat 0) 16 (direntries + of_nat (32 * i)) 11"
        using i by (intro sub_disjoint [OF d]) simp_all
      then have "disjoint_regions ?e 11 filename 16" by (simp add: disjoint_regions_sym)
      from short_name_runs [OF this lit no_space] obtain q m' where r: "fat32_nameext_to_name env ?e filename m = Ret (q, m')"
        "cstr m' filename (short_text (bytes_at m ?e 11))" "same_outside filename 16 m m'" by blast
      have "short_text (?es ! i) = short_text (bytes_at m ?e 11)"
        using i by (simp add: short_text_def entries_at_nth take_bytes_at)
      moreover have "same_outside filename 256 m m'" using r(3) by (rule same_outside_mono) (simp add: in_region_def)
      moreover have "\<not> (1 \<le> i \<and> long_entry (?es ! (i - 1)))" by fact
      ultimately show ?thesis using r(1,2) by (auto simp: run entry_text_def)
    qed
  qed
qed

end
