(* ===== verification/Fat32_Lookup.thy ===== *)
theory Fat32_Lookup
  imports Fat32_Names
begin

text \<open>
  The search of a directory. \<open>found_in\<close> specifies what a search of the entries of one cluster finds;
  \<open>scan_by_name\<close> implements it on the cluster in memory, using the heap and the local array for the names.
\<close>

section \<open>What is kept\<close>

text \<open>Like \<open>unchanged\<close>, but the 256 bytes at \<open>filename\<close>, which lie below the heap, may change.\<close>

definition kept :: "heap_allocator \<Rightarrow> addr \<Rightarrow> (nat \<times> nat) set \<Rightarrow> mem \<Rightarrow> mem \<Rightarrow> bool" where
  "kept h filename L m m' \<longleftrightarrow> (\<forall>b \<in> L. \<forall>x. unat x \<in> payload b \<longrightarrow> m' x = m x)
     \<and> (\<forall>x. unat x < unat (virtual_address h) \<and> \<not> in_region filename 256 x \<longrightarrow> m' x = m x)"

lemma kept_refl [simp]: "kept h filename L m m" by (simp add: kept_def)

lemma kept_trans: "kept h filename L m m' \<Longrightarrow> kept h filename L m' m'' \<Longrightarrow> kept h filename L m m''"
  by (auto simp: kept_def)

lemma unchanged_chain: "unchanged h L m m' \<Longrightarrow> unchanged h L m' m'' \<Longrightarrow> unchanged h L m m''"
  by (auto simp: unchanged_def)

lemma kept_mono: "kept h filename L m m' \<Longrightarrow> L' \<subseteq> L \<Longrightarrow> kept h filename L' m m'"
  by (auto simp: kept_def)

lemma unchanged_kept: "unchanged h L m m' \<Longrightarrow> L' \<subseteq> L \<Longrightarrow> kept h filename L' m m'"
  by (auto simp: kept_def unchanged_def)

lemma kept_text: "text_in m C p bs \<Longrightarrow> C \<in> L \<Longrightarrow> kept h filename L m m' \<Longrightarrow> text_in m' C p bs"
proof -
  assume t: "text_in m C p bs" and C: "C \<in> L" "kept h filename L m m'"
  have b: "unat p + Suc (length bs) \<le> 2 ^ 32" and "{unat p .. unat p + length bs} \<subseteq> payload C"
    using t by (simp_all add: text_in_def cstring_def)
  then have "m' a = m a" if "in_region p (Suc (length bs)) a" for a
    using that C in_region_nat [OF b, of a] unfolding kept_def by fastforce
  then show ?thesis using t cstring_cong [of m p bs m'] by (simp add: text_in_def)
qed

lemma kept_block: "(unat p, k) \<in> L \<Longrightarrow> n \<le> k \<Longrightarrow> heap_inv h m0 L0 \<Longrightarrow> (unat p, k) \<in> L0 \<Longrightarrow> kept h filename L m m' \<Longrightarrow>
    bytes_at m' p n = bytes_at m p n"
proof (rule bytes_at_cong)
  assume a: "(unat p, k) \<in> L" "n \<le> k" "heap_inv h m0 L0" "(unat p, k) \<in> L0" "kept h filename L m m'"
  have b: "unat p + n \<le> 2 ^ 32" using heap_inv_bound(1) [OF a(3,4)] a(2) by simp
  then show "n \<le> 2 ^ 32" by simp
  show "m' x = m x" if "in_region p n x" for x
    using that a(1,2,5) by (auto simp: in_region_nat [OF b] kept_def payload_def)
qed

lemma block_region: "heap_inv h m L \<Longrightarrow> (unat p, k) \<in> L \<Longrightarrow> n \<le> k \<Longrightarrow> in_region p n a \<Longrightarrow> unat a \<in> payload (unat p, k)"
proof -
  assume a: "heap_inv h m L" "(unat p, k) \<in> L" "n \<le> k" "in_region p n a"
  then have "unat p + n \<le> 2 ^ 32" using heap_inv_bound(1) [OF a(1,2)] by simp
  from in_region_nat [OF this] a(3,4) show ?thesis by (auto simp: payload_def)
qed

lemma below_word: "n \<le> unat (q :: u32) \<Longrightarrow> n \<le> 2 ^ 32"
  using unsigned_less [of q, where ?'a = nat] by (simp add: le_trans less_imp_le)

text \<open>Where the names and the literals lie.\<close>

definition name_buffer :: "'d kenv \<Rightarrow> addr" where "name_buffer env = local env ''find_entry_by_name.filename''"

definition names_fit :: "'d kenv \<Rightarrow> mem \<Rightarrow> bool" where
  "names_fit env m \<longleftrightarrow> dot_literals env (name_buffer env) m
     \<and> unat (name_buffer env) + 256 \<le> unat (virtual_address (heap_of env))
     \<and> unat (literal env ''.          '') + 12 \<le> unat (virtual_address (heap_of env))
     \<and> unat (literal env ''..         '') + 12 \<le> unat (virtual_address (heap_of env))"

lemma names_fit_kept:
  assumes "names_fit env m" "kept (heap_of env) (name_buffer env) L m m'"
  shows "names_fit env m'"
proof -
  have "cstr m' l (ascii str)" if l: "cstr m l (ascii str)" "disjoint_regions (name_buffer env) 256 l 12" "length (ascii str) = 11"
    "unat l + 12 \<le> unat (virtual_address (heap_of env))" for l str
  proof (rule cstr_cong [OF l(1)])
    fix i assume "i \<le> length (ascii str)"
    then have r: "in_region l 12 (l + of_nat i)" using l(3) by (subst in_region_offset) auto
    have "unat l + 12 \<le> 2 ^ 32" using l(4) by (rule below_word)
    from in_region_nat [OF this] r l(4) have "unat (l + of_nat i) < unat (virtual_address (heap_of env))" by auto
    then show "m' (l + of_nat i) = m (l + of_nat i)"
      using assms(2) disjoint_regionsD [OF disjoint_regions_sym [OF l(2)] r] by (simp add: kept_def)
  qed
  moreover have "length (ascii ''.          '') = 11" "length (ascii ''..         '') = 11" by (simp_all add: ascii_def)
  ultimately show ?thesis using assms(1) by (simp add: names_fit_def dot_literals_def)
qed

text \<open>Writing a name leaves the heap alone.\<close>

lemma name_written:
  assumes "heap_inv h m L" "same_outside filename 256 m m'" "unat filename + 256 \<le> unat (virtual_address h)"
  shows "heap_inv h m' L" "L' \<subseteq> L \<Longrightarrow> kept h filename L' m m'"
proof -
  have "unat filename + 256 \<le> 2 ^ 32" using assms(3) by (rule below_word)
  from in_region_nat [OF this] assms(2,3) have above: "m' x = m x" if "unat (virtual_address h) \<le> unat x" for x
    using that by (auto simp: same_outside_def)
  from assms(1) obtain bs where bs: "heap_wf m (unat (virtual_address h)) bs" "no_free_pair bs"
    "live (unat (virtual_address h)) bs = L" "\<forall>(a, k) \<in> L. a < 2 ^ 32" by (auto simp: heap_inv_def)
  have "heap_wf m' (unat (virtual_address h)) bs"
    using header_bytes_range by (intro heap_wf_cong [OF bs(1)] above) blast
  with bs show "heap_inv h m' L" by (auto simp: heap_inv_def)
  show "kept h filename L' m m'" if "L' \<subseteq> L"
    using assms(2) above payload_above [OF assms(1)] that unfolding kept_def same_outside_def by blast
qed

section \<open>The search of one cluster\<close>

datatype found = Found "u8 list" | Finished | Exhausted

text \<open>An entry in use that is no part of a long name, and whose name agrees in its first eleven bytes.\<close>

definition entry_matches :: "u8 list \<Rightarrow> u8 list list \<Rightarrow> nat \<Rightarrow> bool" where
  "entry_matches nm es i \<longleftrightarrow> es ! i ! 0 \<noteq> 0xE5 \<and> \<not> long_entry (es ! i) \<and> take 11 (entry_text es i) = take 11 nm"

text \<open>
  The first match among the entries \<open>is\<close> that come before the end mark; without one, whether the mark was
  met.
\<close>

definition found_in :: "u8 list \<Rightarrow> u8 list list \<Rightarrow> nat list \<Rightarrow> found" where
  "found_in nm es is =
     (let used = takeWhile (\<lambda>i. es ! i ! 0 \<noteq> 0) is
      in case filter (entry_matches nm es) used of
           i # _ \<Rightarrow> Found (es ! i)
         | [] \<Rightarrow> if used = is then Exhausted else Finished)"

lemma found_in_Nil: "found_in nm es [] = Exhausted"
  by (simp add: found_in_def)

lemma found_in_Cons:
  "found_in nm es (i # is) =
     (if es ! i ! 0 = 0 then Finished else if entry_matches nm es i then Found (es ! i) else found_in nm es is)"
  by (auto simp: found_in_def Let_def split: list.splits)

text \<open>What a search leaves behind: nothing but a copy of the entry, if there is one.\<close>

fun search_result :: "heap_allocator \<Rightarrow> (nat \<times> nat) set \<Rightarrow> u8 list option \<Rightarrow> addr \<Rightarrow> mem \<Rightarrow> bool" where
  "search_result h L None p m \<longleftrightarrow> p = NULL \<and> heap_inv h m L"
| "search_result h L (Some e) p m \<longleftrightarrow> p \<noteq> NULL \<and> bytes_at m p 32 = e
     \<and> (\<exists>k \<ge> 32. (unat p, k) \<notin> L \<and> heap_inv h m (insert (unat p, k) L))"

fun scan_result :: "heap_allocator \<Rightarrow> (nat \<times> nat) set \<Rightarrow> nat \<times> nat \<Rightarrow> found \<Rightarrow> addr option \<Rightarrow> mem \<Rightarrow> bool" where
  "scan_result h L C (Found e) r m \<longleftrightarrow> (\<exists>p. r = Some p \<and> search_result h (L - {C}) (Some e) p m)"
| "scan_result h L C Finished r m \<longleftrightarrow> (\<exists>p. r = Some p \<and> search_result h (L - {C}) None p m)"
| "scan_result h L C Exhausted r m \<longleftrightarrow> r = None \<and> heap_inv h m L"

lemma take_entry_runs:
  fixes s :: "'d kstate"
  assumes inv: "heap_inv (heap_of env) (ram s) L" and cb: "(unat cb, kb) \<in> L" "512 \<le> kb" and i: "i < 16"
  shows "yields (take_entry env cb (cb + 32 * of_nat i) s) (\<lambda>(p, s'). only_ram s s'
    \<and> unchanged (heap_of env) (L - {(unat cb, kb)}) (ram s) (ram s')
    \<and> search_result (heap_of env) (L - {(unat cb, kb)}) (Some (entries_at (ram s) cb ! i)) p (ram s'))"
  unfolding take_entry_def
proof (rule yields_bind [OF alloc_runs [OF inv]], simp (no_asm_use) only: split_paired_all prod.case, elim conjE exE)
  let ?h = "heap_of env" and ?e = "cb + 32 * of_nat i" and ?C = "(unat cb, kb)"
  fix p :: addr and s1 :: "'d kstate" and k
  assume A: "only_ram s s1" "p \<noteq> NULL" "unchanged ?h L (ram s) (ram s1)" "unat sizeof_directory_entry \<le> k" "(unat p, k) \<notin> L"
    "heap_inv ?h (ram s1) (insert (unat p, k) L)"
  let ?P = "(unat p, k)" and ?m = "memcpy (ram s1) p ?e sizeof_directory_entry"
  have sz: "unat sizeof_directory_entry = 32" by (simp add: sizeof_directory_entry_def)
  have k: "32 \<le> k" and ne: "?P \<noteq> ?C" and cbL: "?C \<in> insert ?P L" and L: "insert ?P L - {?P} = L" "insert ?P L - {?C} = insert ?P (L - {?C})"
    using A(4,5) cb(1) sz by auto
  have in_p: "unat a \<in> payload ?P" if "in_region p 32 a" for a using block_region [OF A(6) insertI1 k that] .
  have in_cb: "unat a \<in> payload ?C" if "in_region ?e 32 a" for a using block_region [OF inv cb entry_region [OF i that]] .
  have dj: "disjoint_regions p (unat sizeof_directory_entry) ?e (unat sizeof_directory_entry)"
    using in_p in_cb heap_inv_apart [OF A(6) insertI1 cbL ne] unfolding disjoint_regions_def sz by blast
  have "unat x \<in> payload ?P" if "?m x \<noteq> ram s1 x" for x
    using that in_p memcpy_outside [OF dj, of "ram s1"] by (auto simp: same_outside_def sz)
  note H2 = unchanged_heap [OF A(6) insertI1 this, unfolded L]
  note H3 = kfree_unchanged [OF H2(1) cbL, unfolded L]
  have "bytes_at ?m p 32 = bytes_at (ram s1) ?e 32" using memcpy_bytes [OF dj, of "ram s1"] by (simp add: sz)
  moreover have "bytes_at (ram s1) ?e 32 = bytes_at (ram s) ?e 32"
    using A(3) in_cb cb(1) by (intro bytes_at_cong) (auto simp: unchanged_def)
  moreover have "bytes_at (kfree ?m cb) p 32 = bytes_at ?m p 32"
    using H3(2) in_p by (intro bytes_at_cong) (auto simp: unchanged_def)
  moreover have "unchanged ?h (L - {?C}) (ram s) (kfree ?m cb)"
    by (rule unchanged_mono [OF unchanged_trans [OF unchanged_trans [OF A(3) H2(2)] H3(2)]]) auto
  ultimately show "yields (Some (Ret (p, release cb (s1\<lparr>ram := ?m\<rparr>)))) (\<lambda>(p, s'). only_ram s s'
    \<and> unchanged ?h (L - {?C}) (ram s) (ram s') \<and> search_result ?h (L - {?C}) (Some (entries_at (ram s) cb ! i)) p (ram s'))"
    using A(1,2,5) k H3(1) i by (auto simp: release_def entries_at_nth intro: only_ram_upd)
qed

lemma buffers_apart:
  assumes "heap_inv (heap_of env) m L" "(unat cb, kb) \<in> L" "512 \<le> kb" "names_fit env m'"
  shows "disjoint_regions (name_buffer env) 256 cb 512"
proof -
  have "unat cb + 512 \<le> 2 ^ 32" "unat (name_buffer env) + 256 \<le> unat cb"
    using heap_inv_bound(1) [OF assms(1,2)] payload_above [OF assms(1,2), of "unat cb"] assms(3,4)
    by (auto simp: payload_def names_fit_def)
  then show ?thesis by (intro disjoint_regions_nat) auto
qed

text \<open>The comparison with the name of entry \<open>i\<close>, once that is written.\<close>

lemma name_compare:
  assumes inv: "heap_inv (heap_of env) m L" and cb: "(unat cb, kb) \<in> L" "512 \<le> kb" and C: "C \<in> L - {(unat cb, kb)}"
    and fit: "names_fit env m" and str: "text_in m C name nm" and es: "entries_at m cb = es"
    and e: "es ! i ! 0 \<noteq> 0xE5" "\<not> long_entry (es ! i)"
    and m': "cstr m' (name_buffer env) (entry_text es i)" "same_outside (name_buffer env) 256 m m'"
  shows "heap_inv (heap_of env) m' L" "kept (heap_of env) (name_buffer env) (L - {(unat cb, kb)}) m m'" "names_fit env m'"
    "text_in m' C name nm" "entries_at m' cb = es" "strncmp m' (name_buffer env) name 11 = 0 \<longleftrightarrow> entry_matches nm es i"
proof -
  have base: "unat (name_buffer env) + 256 \<le> unat (virtual_address (heap_of env))" using fit by (simp add: names_fit_def)
  note N = name_written [OF inv m'(2) base]
  show "heap_inv (heap_of env) m' L" by (rule N(1))
  show K: "kept (heap_of env) (name_buffer env) (L - {(unat cb, kb)}) m m'" by (rule N(2)) auto
  show "names_fit env m'" by (rule names_fit_kept [OF fit K])
  show t: "text_in m' C name nm" by (rule kept_text [OF str C K])
  show "entries_at m' cb = es"
    using entries_at_cong [of cb m' m] m'(2) es disjoint_regionsD [OF disjoint_regions_sym [OF buffers_apart [OF inv cb fit]]]
    by (auto simp: same_outside_def)
  have "cstr m' name nm" using t by (simp add: text_in_def cstring_def)
  then show "strncmp m' (name_buffer env) name 11 = 0 \<longleftrightarrow> entry_matches nm es i"
    using e strncmp_eq_0_iff [OF m'(1), of name nm 11] by (simp add: entry_matches_def)
qed

lemma scan_by_name_runs:
  fixes cb :: addr and kb :: nat
  assumes cb: "(unat cb, kb) \<in> L" "512 \<le> kb" and C: "C \<in> L - {(unat cb, kb)}"
  shows "heap_inv (heap_of env) (ram s) L \<Longrightarrow> names_fit env (ram s) \<Longrightarrow> text_in (ram s) C name nm \<Longrightarrow>
    entries_at (ram s) cb = es \<Longrightarrow> i + n = 16 \<Longrightarrow>
    yields (scan_by_name env name cb i n s) (\<lambda>(r, s'). only_ram s s'
      \<and> kept (heap_of env) (name_buffer env) (L - {(unat cb, kb)}) (ram s) (ram s')
      \<and> scan_result (heap_of env) L (unat cb, kb) (found_in nm es [i..<16]) r (ram s'))"
proof (induction n arbitrary: i s)
  case 0
  then show ?case by (auto simp: found_in_Nil)
next
  case (Suc n)
  let ?h = "heap_of env" and ?F = "name_buffer env" and ?K = "L - {(unat cb, kb)}"
  let ?e = "cb + 32 * of_nat i" and ?P = "\<lambda>s is (r, s'). only_ram s s' \<and> kept ?h ?F ?K (ram s) (ram s')
      \<and> scan_result ?h L (unat cb, kb) (found_in nm es is) r (ram s')"
  have i: "i < 16" "[i..<16] = i # [i + 1..<16]" using Suc.prems(5) by (simp_all add: upt_rec)
  have e: "es ! i = bytes_at (ram s) ?e 32" using entries_at_nth [OF i(1), of "ram s" cb] Suc.prems(4) by simp
  then have e0: "ram s ?e = es ! i ! 0" by simp
  have long: "is_long_name (ram s) ?e \<longleftrightarrow> long_entry (es ! i)" using is_long_name_entry [OF i(1), of "ram s" cb] Suc.prems(4) by simp
  consider "es ! i ! 0 = 0" | "es ! i ! 0 \<noteq> 0" "es ! i ! 0 = 0xE5 \<or> long_entry (es ! i)"
    | "es ! i ! 0 \<noteq> 0" "es ! i ! 0 \<noteq> 0xE5" "\<not> long_entry (es ! i)" by blast
  then show ?case
  proof cases
    case 1
    note K = kfree_unchanged [OF Suc.prems(1) cb(1)]
    have "scan_by_name env name cb i (Suc n) s = Some (Ret (Some NULL, release cb s))"
      using 1 by (simp add: Let_def e0)
    moreover have "?P s [i..<16] (Some NULL, release cb s)"
      using 1 K(1) unchanged_kept [OF K(2) order_refl, of ?F]
      by (auto simp: i(2) found_in_Cons release_def)
    ultimately show ?thesis by (simp only: yields_Ret)
  next
    case 2
    then have "scan_by_name env name cb i (Suc n) s = scan_by_name env name cb (i + 1) n s" by (simp add: Let_def e0 long)
    moreover have "found_in nm es [i..<16] = found_in nm es [i + 1..<16]"
      using 2 by (auto simp: i(2) found_in_Cons entry_matches_def)
    ultimately show ?thesis using Suc.IH [OF Suc.prems(1-4), of "i + 1"] Suc.prems(5) by simp
  next
    case 3
    define rest where "rest m = (if strncmp m ?F name 11 = 0
           then rbind (take_entry env cb ?e (s\<lparr>ram := m\<rparr>)) (\<lambda>(res, s). Some (Ret (Some res, s)))
           else scan_by_name env name cb (i + 1) n (s\<lparr>ram := m\<rparr>))" for m
    have run: "scan_by_name env name cb i (Suc n) s = rbind (Some (entry_name env cb i ?F (ram s))) rest"
      using 3 by (simp add: Let_def e0 long name_buffer_def rest_def [abs_def])
    have "yields (rest m') (?P s [i..<16])" if m': "cstr m' ?F (entry_text es i)" "same_outside ?F 256 (ram s) m'" for m'
    proof -
      note N = name_compare [OF Suc.prems(1) cb C Suc.prems(2-4) 3(2,3) m']
      show ?thesis
      proof (cases "entry_matches nm es i")
        case True
        then have "found_in nm es [i..<16] = Found (es ! i)" using 3 by (simp add: i(2) found_in_Cons)
        moreover have "yields (take_entry env cb ?e (s\<lparr>ram := m'\<rparr>)) (\<lambda>(p, s'). only_ram s s'
            \<and> search_result ?h ?K (Some (es ! i)) p (ram s') \<and> kept ?h ?F ?K m' (ram s'))"
          using take_entry_runs [OF _ cb i(1), of env "s\<lparr>ram := m'\<rparr>"] N(1,5)
          by (auto simp del: search_result.simps elim!: yields_mono intro: unchanged_kept)
        ultimately show ?thesis
          using True kept_trans [OF N(2)] by (auto simp del: search_result.simps simp: rest_def N(6) elim!: yields_bind)
      next
        case False
        then have "found_in nm es [i..<16] = found_in nm es [i + 1..<16]" using 3 by (simp add: i(2) found_in_Cons)
        moreover have "yields (scan_by_name env name cb (i + 1) n (s\<lparr>ram := m'\<rparr>)) (?P (s\<lparr>ram := m'\<rparr>) [i + 1..<16])"
          using Suc.IH [of "s\<lparr>ram := m'\<rparr>" "i + 1"] N(1,3-5) Suc.prems(5) by simp
        ultimately show ?thesis
          using False N(2) by (auto simp: rest_def N(6) elim!: yields_mono intro: kept_trans)
      qed
    qed
    moreover have lit: "dot_literals env ?F (ram s)" using Suc.prems(2) by (simp add: names_fit_def)
    moreover note entry_name_runs [OF i(1) buffers_apart [OF Suc.prems(1) cb Suc.prems(2)] lit]
    ultimately show ?thesis using Suc.prems(4) unfolding run by (auto elim!: yields_bind)
  qed
qed

end
