(* ===== verification/Fat32_Volume.thy ===== *)
theory Fat32_Volume
  imports Fat32_Lookup
begin

text \<open>
  A FAT32 volume with clusters of one sector, on any block device that keeps the contract \<open>block_store\<close>. The
  abstract volume \<open>fat_view\<close> maps a cluster number to its 512 bytes and to the successor that the kernel
  computes; \<open>fat_mounted\<close> relates it to the state of the kernel. The search of a directory and of a path is
  refined to searches in the abstract volume.
\<close>

section \<open>The abstract volume\<close>

record fat_view =
  cluster_bytes :: "u32 \<Rightarrow> u8 list"
  next_cluster :: "u32 \<Rightarrow> u32"
  readable :: "u32 \<Rightarrow> bool"

text \<open>The sector of the table that the code reads for a cluster.\<close>

definition fat_lba :: "mem \<Rightarrow> addr \<Rightarrow> u32 \<Rightarrow> u32" where
  "fat_lba m bs c = ucast (reserved_sector_count m bs) + c * 4 - c * 4 mod 512"

definition fat_represents :: "(u32 \<Rightarrow> u8 list) \<Rightarrow> nat \<Rightarrow> mem \<Rightarrow> addr \<Rightarrow> u32 \<Rightarrow> fat_view \<Rightarrow> bool" where
  "fat_represents sector_of limit m bs off V \<longleftrightarrow> bytes_per_sector m bs = 512 \<and> sectors_per_cluster m bs = 1 \<and> limit \<le> 2 ^ 32
     \<and> (\<forall>c. readable V c \<longrightarrow>
          unat (cluster_lba m bs c + off) < limit \<and> cluster_bytes V c = sector_of (cluster_lba m bs c + off)
        \<and> unat (fat_lba m bs c + off) < limit \<and> next_cluster V c = ucast (sector_of (fat_lba m bs c + off) ! unat (c * 4 mod 512)))"

text \<open>
  \<open>K\<close> are the allocations of the kernel that the file system relies on: the boot sector at \<open>bs\<close> and the
  private data of the driver.
\<close>

definition fat_mounted ::
  "'d block_device \<Rightarrow> nat \<Rightarrow> (addr \<Rightarrow> bool) \<Rightarrow> (mem \<Rightarrow> 'd \<Rightarrow> bool) \<Rightarrow> ('d \<Rightarrow> u32 \<Rightarrow> u8 list) \<Rightarrow>
   'd kenv \<Rightarrow> 'd logical_block_device \<Rightarrow> addr \<Rightarrow> fat_view \<Rightarrow> (nat \<times> nat) set \<Rightarrow> (nat \<times> nat) set \<Rightarrow> 'd kstate \<Rightarrow> bool" where
  "fat_mounted bdev limit priv ok sector_of env lbdev bs V K L s \<longleftrightarrow> parent lbdev = Some bdev \<and> K \<subseteq> L
     \<and> heap_inv (heap_of env) (ram s) L \<and> names_fit env (ram s) \<and> ok (ram s) (hw s)
     \<and> (\<forall>a. priv a \<longrightarrow> (\<exists>b \<in> K. unat a \<in> payload b)) \<and> (\<exists>k \<ge> 512. (unat bs, k) \<in> K)
     \<and> fat_represents (sector_of (hw s)) limit (ram s) bs (lba_offset lbdev) V"

lemma boot_sector_same:
  assumes "\<And>a. in_region bs 512 a \<Longrightarrow> m' a = m a"
  shows "bytes_per_sector m' bs = bytes_per_sector m bs" "sectors_per_cluster m' bs = sectors_per_cluster m bs"
    "cluster_lba m' bs c = cluster_lba m bs c" "fat_lba m' bs c = fat_lba m bs c" "root_cluster m' bs = root_cluster m bs"
  using assms
  by (simp_all add: bytes_per_sector_def sectors_per_cluster_def cluster_lba_def fat_lba_def reserved_sector_count_def num_FATs_def
      FAT_size_16_def FAT_size_32_def root_cluster_def load16_def load32_def in_region_def add.assoc Let_def)

lemma fat_represents_same:
  assumes "fat_represents sector_of limit m bs off V" "\<And>a. in_region bs 512 a \<Longrightarrow> m' a = m a"
  shows "fat_represents sector_of limit m' bs off V"
  using assms(1) boot_sector_same [OF assms(2)] by (simp add: fat_represents_def)

text \<open>Steps that change only the memory and the hardware.\<close>

definition ram_hw :: "'d kstate \<Rightarrow> 'd kstate \<Rightarrow> bool" where
  "ram_hw s s' \<longleftrightarrow> s' = s\<lparr>ram := ram s', hw := hw s'\<rparr>"

lemma ram_hw_simps [simp]: "ram_hw s s" "ram_hw s (s\<lparr>ram := m\<rparr>)" "ram_hw s (s\<lparr>ram := m, hw := d\<rparr>)"
  by (simp_all add: ram_hw_def)

lemma ram_hw_trans: "ram_hw s s' \<Longrightarrow> ram_hw s' s'' \<Longrightarrow> ram_hw s s''"
  by (simp add: ram_hw_def) (metis (no_types, lifting) kstate.fold_congs(1) kstate.surjective kstate.update_convs(1,2))

lemma only_ram_hw: "only_ram s s' \<Longrightarrow> ram_hw s s' \<and> hw s' = hw s"
  unfolding only_ram_def ram_hw_def by (metis kstate.select_convs(2) kstate.surjective kstate.update_convs(1,2))

text \<open>The entries of a cluster, and the search along the chain that starts at a cluster.\<close>

definition entries_of :: "u8 list \<Rightarrow> u8 list list" where
  "entries_of bs = map (\<lambda>i. take 32 (drop (32 * i) bs)) [0..<16]"

lemma entries_of_bytes: "entries_of (bytes_at m p 512) = entries_at m p"
  unfolding entries_of_def entries_at_def
proof (intro map_cong refl)
  fix i :: nat assume "i \<in> set [0..<16]"
  then show "take 32 (drop (32 * i) (bytes_at m p 512)) = bytes_at m (p + 32 * of_nat i) 32"
    using bytes_at_part [of "32 * i" 32 512 m p] by simp
qed

inductive dir_walk :: "fat_view \<Rightarrow> u8 list \<Rightarrow> u32 \<Rightarrow> u8 list option \<Rightarrow> bool" for V nm where
  walk_end: "\<not> c < 0x0FFFFFF8 \<Longrightarrow> dir_walk V nm c None"
| walk_found: "c < 0x0FFFFFF8 \<Longrightarrow> readable V c \<Longrightarrow> found_in nm (entries_of (cluster_bytes V c)) [0..<16] = Found e \<Longrightarrow>
    dir_walk V nm c (Some e)"
| walk_finished: "c < 0x0FFFFFF8 \<Longrightarrow> readable V c \<Longrightarrow> found_in nm (entries_of (cluster_bytes V c)) [0..<16] = Finished \<Longrightarrow>
    dir_walk V nm c None"
| walk_next: "c < 0x0FFFFFF8 \<Longrightarrow> readable V c \<Longrightarrow> found_in nm (entries_of (cluster_bytes V c)) [0..<16] = Exhausted \<Longrightarrow>
    dir_walk V nm (next_cluster V c) r \<Longrightarrow> dir_walk V nm c r"

lemma dir_walk_unique: "dir_walk V nm c r \<Longrightarrow> dir_walk V nm c r' \<Longrightarrow> r = r'"
proof (induction arbitrary: r' rule: dir_walk.induct)
  case (walk_end c)
  from walk_end.prems show ?case by cases (use walk_end.hyps in auto)
next
  case (walk_found c e)
  from walk_found.prems show ?case by cases (use walk_found.hyps in auto)
next
  case (walk_finished c)
  from walk_finished.prems show ?case by cases (use walk_finished.hyps in auto)
next
  case (walk_next c r)
  from walk_next.prems walk_next.hyps(1-3) have "dir_walk V nm (next_cluster V c) r'" by cases simp_all
  then show ?case by (rule walk_next.IH)
qed

text \<open>The outcome of a search in a state that satisfies \<open>M\<close>: a copy of the entry in an allocation of its own, or nothing.\<close>

fun entry_result :: "((nat \<times> nat) set \<Rightarrow> 'd kstate \<Rightarrow> bool) \<Rightarrow> (nat \<times> nat) set \<Rightarrow> u8 list option \<Rightarrow> addr \<Rightarrow> 'd kstate \<Rightarrow> bool" where
  "entry_result M L None p s \<longleftrightarrow> p = NULL \<and> M L s"
| "entry_result M L (Some e) p s \<longleftrightarrow> p \<noteq> NULL \<and> bytes_at (ram s) p 32 = e
     \<and> (\<exists>k \<ge> 32. (unat p, k) \<notin> L \<and> M (insert (unat p, k) L) s)"

section \<open>Access to the device\<close>

context block_store
begin

abbreviation mounted ::
  "'d kenv \<Rightarrow> 'd logical_block_device \<Rightarrow> addr \<Rightarrow> fat_view \<Rightarrow> (nat \<times> nat) set \<Rightarrow> (nat \<times> nat) set \<Rightarrow> 'd kstate \<Rightarrow> bool" where
  "mounted \<equiv> fat_mounted bdev limit priv ok sector"

lemma mounted_frame:
  assumes s: "mounted env lbdev bs V K L s" and heap: "heap_inv (heap_of env) (ram s') L'" "K \<subseteq> L'"
    and kept: "kept (heap_of env) (name_buffer env) K (ram s) (ram s')" and hw: "hw s' = hw s"
  shows "mounted env lbdev bs V K L' s'"
proof -
  note S = s [unfolded fat_mounted_def]
  have same: "ram s' a = ram s a" if "b \<in> K" "unat a \<in> payload b" for a b using kept that by (auto simp: kept_def)
  have "ok (ram s') (hw s')" unfolding hw
  proof (rule ok_frame)
    show "ok (ram s) (hw s)" using S by simp
    show "ram s' a = ram s a" if "priv a" for a using S same that by blast
  qed
  moreover from S obtain k where k: "512 \<le> k" "(unat bs, k) \<in> K" "(unat bs, k) \<in> L" by auto
  have "ram s' a = ram s a" if "in_region bs 512 a" for a
    using same [OF k(2)] block_region [OF _ k(3,1) that] S by blast
  then have "fat_represents (sector (hw s')) limit (ram s') bs (lba_offset lbdev) V"
    using S fat_represents_same unfolding hw by blast
  ultimately show ?thesis using S heap names_fit_kept [OF _ kept] by (simp add: fat_mounted_def)
qed

lemma read_sector_runs:
  assumes s: "mounted env lbdev bs V K L s" and buf: "(unat buf, k) \<in> L - K" "512 \<le> k" and l: "unat (l + lba_offset lbdev) < limit"
  shows "\<exists>s'. read_fat_device lbdev l 1 buf s = Some (Ret s') \<and> mounted env lbdev bs V K L s' \<and> ram_hw s s'
    \<and> sector (hw s') = sector (hw s) \<and> bytes_at (ram s') buf 512 = sector (hw s) (l + lba_offset lbdev)
    \<and> unchanged (heap_of env) (L - {(unat buf, k)}) (ram s) (ram s')"
proof -
  note S = s [unfolded fat_mounted_def]
  let ?bs = "sector (hw s) (l + lba_offset lbdev)" and ?B = "(unat buf, k)"
  have ok: "ok (ram s) (hw s)" and inv: "heap_inv (heap_of env) (ram s) L" and KL: "K \<subseteq> L" using S by auto
  have in_B: "unat a \<in> payload ?B" if "in_region buf 512 a" for a
    using block_region [OF inv _ buf(2) that] buf(1) by simp
  have np: "\<not> priv a" if "in_region buf 512 a" for a
  proof
    assume "priv a"
    then obtain b where "b \<in> K" "unat a \<in> payload b" using S by blast
    then show False using in_B [OF that] heap_inv_apart [OF inv, of b ?B] buf(1) KL by blast
  qed
  have "unat (l + lba_offset lbdev) + unat (1 :: u32) \<le> limit" "limit \<le> 2 ^ 32" using l S by (auto simp: fat_represents_def)
  then have "\<exists>d'. submit_read_request bdev \<lparr>rq_lba = l + lba_offset lbdev, rq_num_blocks = 1, rq_buffer = buf, rq_is_write = False\<rparr> (ram s) (hw s)
      = Some (Ret (put_bytes (ram s) buf ?bs, d')) \<and> ok (put_bytes (ram s) buf ?bs) d' \<and> sector d' = sector (hw s)"
    using submit_read_request_sectors [OF ok, of "l + lba_offset lbdev" 1 buf False] np by (simp add: sectors_def)
  then obtain d' where d': "read_fat_device lbdev l 1 buf s = Some (Ret (s\<lparr>ram := put_bytes (ram s) buf ?bs, hw := d'\<rparr>))"
    "ok (put_bytes (ram s) buf ?bs) d'" "sector d' = sector (hw s)" using S by (auto simp: read_fat_device_def)
  have len: "length ?bs = 512" using ok by (rule sector_size)
  have "unat x \<in> payload ?B" if "put_bytes (ram s) buf ?bs x \<noteq> ram s x" for x
    using that in_B put_bytes_same_outside [of ?bs 512 buf "ram s"] len by (auto simp: same_outside_def)
  note U = unchanged_heap [OF inv _ this]
  have B: "?B \<in> L" using buf by simp
  have kept: "kept (heap_of env) (name_buffer env) K (ram s) (put_bytes (ram s) buf ?bs)"
    using U(2) [OF B] by (rule unchanged_kept) (use KL buf in auto)
  from mounted_frame [OF s, of "s\<lparr>ram := put_bytes (ram s) buf ?bs\<rparr>" L] U(1) [OF B] KL kept
  have "mounted env lbdev bs V K L (s\<lparr>ram := put_bytes (ram s) buf ?bs\<rparr>)" by simp
  then have "mounted env lbdev bs V K L (s\<lparr>ram := put_bytes (ram s) buf ?bs, hw := d'\<rparr>)"
    using d'(2,3) by (simp add: fat_mounted_def)
  moreover have "bytes_at (put_bytes (ram s) buf ?bs) buf 512 = ?bs" using bytes_at_put_bytes [of ?bs "ram s" buf] len by simp
  ultimately show ?thesis using d'(1,3) U(2) [OF B] by auto
qed

lemma read_cluster_runs:
  assumes s: "mounted env lbdev bs V K L s" and buf: "(unat buf, k) \<in> L - K" "512 \<le> k" and c: "readable V c"
  shows "\<exists>s'. read_cluster c buf bs lbdev s = Some (Ret s') \<and> mounted env lbdev bs V K L s' \<and> ram_hw s s'
    \<and> bytes_at (ram s') buf 512 = cluster_bytes V c \<and> unchanged (heap_of env) (L - {(unat buf, k)}) (ram s) (ram s')"
proof -
  have V: "fat_represents (sector (hw s)) limit (ram s) bs (lba_offset lbdev) V" using s by (simp add: fat_mounted_def)
  then have "unat (cluster_lba (ram s) bs c + lba_offset lbdev) < limit" "sectors_per_cluster (ram s) bs = 1"
    "cluster_bytes V c = sector (hw s) (cluster_lba (ram s) bs c + lba_offset lbdev)" using c by (auto simp: fat_represents_def)
  with read_sector_runs [OF s buf this(1)] show ?thesis by (auto simp: read_cluster_def)
qed

lemma read_fat_entry_runs:
  assumes s: "mounted env lbdev bs V K L s" and c: "readable V c"
  shows "yields (read_fat_entry env c bs lbdev s) (\<lambda>(v, s'). v = next_cluster V c \<and> mounted env lbdev bs V K L s' \<and> ram_hw s s'
    \<and> unchanged (heap_of env) L (ram s) (ram s'))"
proof -
  note S = s [unfolded fat_mounted_def]
  have inv: "heap_inv (heap_of env) (ram s) L" and KL: "K \<subseteq> L" using S by auto
  have V: "bytes_per_sector (ram s) bs = 512" "unat (fat_lba (ram s) bs c + lba_offset lbdev) < limit"
    "next_cluster V c = ucast (sector (hw s) (fat_lba (ram s) bs c + lba_offset lbdev) ! unat (c * 4 mod 512))"
    using S c by (auto simp: fat_represents_def)
  let ?Q = "\<lambda>(p, s'). only_ram s s' \<and> p \<noteq> NULL \<and> unchanged (heap_of env) L (ram s) (ram s')
    \<and> (\<exists>k. 512 \<le> k \<and> (unat p, k) \<notin> L \<and> heap_inv (heap_of env) (ram s') (insert (unat p, k) L))"
  define cont where "cont = (\<lambda>(p, s'). rbind (read_fat_device lbdev (fat_lba (ram s) bs c) 1 p s')
      (\<lambda>s. Some (Ret (ucast (ram s (p + c * 4 mod 512)) :: u32, release p s))))"
  have run: "read_fat_entry env c bs lbdev s = rbind (alloc env 512 s) cont"
    by (simp add: read_fat_entry_def V(1) Let_def cont_def fat_lba_def)
  have "yields (cont x) (\<lambda>(v, s'). v = next_cluster V c \<and> mounted env lbdev bs V K L s' \<and> ram_hw s s'
    \<and> unchanged (heap_of env) L (ram s) (ram s'))" if "?Q x" for x
  proof -
    obtain p s1 where x: "x = (p, s1)" by (cases x)
    with that obtain k where Q: "only_ram s s1" "unchanged (heap_of env) L (ram s) (ram s1)" "512 \<le> k" "(unat p, k) \<notin> L"
      "heap_inv (heap_of env) (ram s1) (insert (unat p, k) L)" by auto
    have m1: "mounted env lbdev bs V K (insert (unat p, k) L) s1"
      using unchanged_kept [OF Q(2) KL] KL only_ram_hw [OF Q(1)] by (intro mounted_frame [OF s Q(5)]) auto
    have P: "(unat p, k) \<in> insert (unat p, k) L - K" using Q(4) KL by auto
    from read_sector_runs [OF m1 P Q(3), of "fat_lba (ram s) bs c"] V(2) obtain s2 where R:
      "read_fat_device lbdev (fat_lba (ram s) bs c) 1 p s1 = Some (Ret s2)" "mounted env lbdev bs V K (insert (unat p, k) L) s2"
      "ram_hw s1 s2" "bytes_at (ram s2) p 512 = sector (hw s1) (fat_lba (ram s) bs c + lba_offset lbdev)"
      "unchanged (heap_of env) (insert (unat p, k) L - {(unat p, k)}) (ram s1) (ram s2)" by blast
    have off: "unat (c * 4 mod 512) < 512" by (simp add: unat_mod)
    have "ram s2 (p + c * 4 mod 512) = bytes_at (ram s2) p 512 ! unat (c * 4 mod 512)" using off by simp
    then have v: "ucast (ram s2 (p + c * 4 mod 512)) = next_cluster V c"
      using R(4) V(3) only_ram_hw [OF Q(1)] by simp
    have inv2: "heap_inv (heap_of env) (ram s2) (insert (unat p, k) L)" using R(2) by (simp add: fat_mounted_def)
    note F = kfree_unchanged [OF inv2 insertI1]
    have L: "insert (unat p, k) L - {(unat p, k)} = L" using Q(4) by auto
    have "mounted env lbdev bs V K L (release p s2)"
      using F KL unchanged_kept [OF F(2), of K] by (intro mounted_frame [OF R(2)]) (auto simp: L release_def)
    moreover have "unchanged (heap_of env) L (ram s) (ram (release p s2))"
      using unchanged_chain [OF unchanged_chain [OF Q(2) R(5) [unfolded L]] F(2) [unfolded L]] by (simp add: release_def)
    moreover have "ram_hw s (release p s2)"
      by (rule ram_hw_trans [OF conjunct1 [OF only_ram_hw [OF Q(1)]] ram_hw_trans [OF R(3)]]) (simp add: release_def)
    ultimately show ?thesis by (simp add: x cont_def R(1) v)
  qed
  with alloc_runs [OF inv, of 512] show ?thesis unfolding run by (auto elim!: yields_bind)
qed

lemma search_entry_result:
  assumes s: "mounted env lbdev bs V K L s" and r: "search_result (heap_of env) L' r p (ram s')" and K: "K \<subseteq> L'"
    and kept: "kept (heap_of env) (name_buffer env) K (ram s) (ram s')" and hw: "hw s' = hw s"
  shows "entry_result (mounted env lbdev bs V K) L' r p s'"
proof (cases r)
  case None
  with r show ?thesis using mounted_frame [OF s _ K kept hw] by simp
next
  case (Some e)
  with r obtain k where "p \<noteq> NULL" "bytes_at (ram s') p 32 = e" "32 \<le> k" "(unat p, k) \<notin> L'"
    "heap_inv (heap_of env) (ram s') (insert (unat p, k) L')" by auto
  with mounted_frame [OF s this(5) _ kept hw] K Some show ?thesis by auto
qed

section \<open>The search of a directory\<close>

text \<open>One cluster: read it, then search its entries.\<close>

lemma cluster_scan_runs:
  assumes s: "mounted env lbdev bs V K L s" and cb: "(unat cb, kb) \<in> L - K" "512 \<le> kb" and c: "readable V c"
    and name: "text_in (ram s) C name nm" "C \<in> L - {(unat cb, kb)}"
  shows "yields (rbind (read_cluster c cb bs lbdev s) (scan_by_name env name cb 0 16)) (\<lambda>(r, s'). ram_hw s s'
    \<and> kept (heap_of env) (name_buffer env) (L - {(unat cb, kb)}) (ram s) (ram s')
    \<and> (case found_in nm (entries_of (cluster_bytes V c)) [0..<16] of
         Found e \<Rightarrow> \<exists>p. r = Some p \<and> entry_result (mounted env lbdev bs V K) (L - {(unat cb, kb)}) (Some e) p s'
       | Finished \<Rightarrow> \<exists>p. r = Some p \<and> entry_result (mounted env lbdev bs V K) (L - {(unat cb, kb)}) None p s'
       | Exhausted \<Rightarrow> r = None \<and> mounted env lbdev bs V K L s'))"
proof -
  let ?h = "heap_of env" and ?F = "name_buffer env" and ?K = "L - {(unat cb, kb)}" and ?es = "entries_of (cluster_bytes V c)"
  from read_cluster_runs [OF s cb c] obtain s1 where R: "read_cluster c cb bs lbdev s = Some (Ret s1)" "mounted env lbdev bs V K L s1"
    "ram_hw s s1" "bytes_at (ram s1) cb 512 = cluster_bytes V c" "unchanged ?h ?K (ram s) (ram s1)" by blast
  have S1: "heap_inv ?h (ram s1) L" "names_fit env (ram s1)" "K \<subseteq> L" using R(2) by (simp_all add: fat_mounted_def)
  have cbL: "(unat cb, kb) \<in> L" and KK: "K \<subseteq> ?K" using cb(1) S1(3) by auto
  have k1: "kept ?h ?F ?K (ram s) (ram s1)" using R(5) by (rule unchanged_kept) simp
  have es: "entries_at (ram s1) cb = ?es" using R(4) entries_of_bytes [of "ram s1" cb] by simp
  have "yields (scan_by_name env name cb 0 16 s1) (\<lambda>(r, s'). only_ram s1 s' \<and> kept ?h ?F ?K (ram s1) (ram s')
      \<and> scan_result ?h L (unat cb, kb) (found_in nm ?es [0..<16]) r (ram s'))"
    using scan_by_name_runs [OF cbL cb(2) name(2) S1(1,2) kept_text [OF name(1,2) k1] es, of 0 16] by simp
  then show ?thesis
    unfolding R(1) rbind.simps
  proof (rule yields_mono, clarify)
    fix r s' assume A: "only_ram s1 s'" "kept ?h ?F ?K (ram s1) (ram s')"
      "scan_result ?h L (unat cb, kb) (found_in nm ?es [0..<16]) r (ram s')"
    have hw: "hw s' = hw s1" and "ram_hw s s'" using only_ram_hw [OF A(1)] ram_hw_trans [OF R(3)] by auto
    moreover have "kept ?h ?F ?K (ram s) (ram s')" using k1 A(2) by (rule kept_trans)
    moreover note E = search_entry_result [OF R(2) _ KK kept_mono [OF A(2) KK] hw]
      and X = mounted_frame [OF R(2) _ S1(3) kept_mono [OF A(2) KK] hw]
    ultimately show "ram_hw s s' \<and> kept ?h ?F ?K (ram s) (ram s') \<and> (case found_in nm ?es [0..<16] of
         Found e \<Rightarrow> \<exists>p. r = Some p \<and> entry_result (mounted env lbdev bs V K) ?K (Some e) p s'
       | Finished \<Rightarrow> \<exists>p. r = Some p \<and> entry_result (mounted env lbdev bs V K) ?K None p s'
       | Exhausted \<Rightarrow> r = None \<and> mounted env lbdev bs V K L s')"
      using A(3) by (cases "found_in nm ?es [0..<16]") (auto simp del: entry_result.simps search_result.simps)
  qed
qed

lemma find_loop_unfold:
  "c < 0x0FFFFFF8 \<Longrightarrow> find_by_name_loop env name c cb bs lbdev s =
     rbind (rbind (read_cluster c cb bs lbdev s) (scan_by_name env name cb 0 16)) (\<lambda>(r, s).
          case r of
            Some res \<Rightarrow> Some (Ret (res, s))
          | None \<Rightarrow> rbind (read_fat_entry env c bs lbdev s) (\<lambda>(next_cluster, s).
                      find_by_name_loop env name next_cluster cb bs lbdev s))"
  by (simp add: find_by_name_loop.simps [of env name c] rbind_assoc)

lemma find_loop_runs:
  "dir_walk V nm c r \<Longrightarrow> mounted env lbdev bs V K L s \<Longrightarrow> (unat cb, kb) \<in> L - K \<Longrightarrow> 512 \<le> kb \<Longrightarrow> text_in (ram s) C name nm \<Longrightarrow>
   C \<in> L - {(unat cb, kb)} \<Longrightarrow>
   yields (find_by_name_loop env name c cb bs lbdev s) (\<lambda>(p, s'). ram_hw s s'
     \<and> kept (heap_of env) (name_buffer env) (L - {(unat cb, kb)}) (ram s) (ram s')
     \<and> entry_result (mounted env lbdev bs V K) (L - {(unat cb, kb)}) r p s')"
proof (induction arbitrary: s rule: dir_walk.induct)
  case (walk_end c)
  then have S: "heap_inv (heap_of env) (ram s) L" "K \<subseteq> L" and cb: "(unat cb, kb) \<in> L" "K \<subseteq> L - {(unat cb, kb)}"
    by (auto simp: fat_mounted_def)
  note F = kfree_unchanged [OF S(1) cb(1)]
  have "mounted env lbdev bs V K (L - {(unat cb, kb)}) (release cb s)"
    using F(1) cb(2) unchanged_kept [OF F(2) cb(2)] by (intro mounted_frame [OF walk_end.prems(1)]) (simp_all add: release_def)
  moreover have "find_by_name_loop env name c cb bs lbdev s = Some (Ret (NULL, release cb s))"
    using walk_end.hyps by (simp add: find_by_name_loop.simps [of env name c])
  ultimately show ?case using unchanged_kept [OF F(2) order_refl] by (simp add: release_def)
next
  case (walk_found c e)
  from cluster_scan_runs [OF walk_found.prems(1-3) walk_found.hyps(2) walk_found.prems(4,5)] walk_found.hyps(3)
  show ?case unfolding find_loop_unfold [OF walk_found.hyps(1)] by (auto simp del: entry_result.simps elim!: yields_bind)
next
  case (walk_finished c)
  from cluster_scan_runs [OF walk_finished.prems(1-3) walk_finished.hyps(2) walk_finished.prems(4,5)] walk_finished.hyps(3)
  show ?case unfolding find_loop_unfold [OF walk_finished.hyps(1)] by (auto simp del: entry_result.simps elim!: yields_bind)
next
  case (walk_next c r)
  let ?h = "heap_of env" and ?F = "name_buffer env" and ?K = "L - {(unat cb, kb)}"
  have scan: "yields (rbind (read_cluster c cb bs lbdev s) (scan_by_name env name cb 0 16)) (\<lambda>(r, s').
      ram_hw s s' \<and> kept ?h ?F ?K (ram s) (ram s') \<and> r = None \<and> mounted env lbdev bs V K L s')"
    using cluster_scan_runs [OF walk_next.prems(1-3) walk_next.hyps(2) walk_next.prems(4,5)] walk_next.hyps(3) by simp
  have "yields (rbind (read_fat_entry env c bs lbdev s1) (\<lambda>(next, s). find_by_name_loop env name next cb bs lbdev s))
      (\<lambda>(p, s'). ram_hw s s' \<and> kept ?h ?F ?K (ram s) (ram s') \<and> entry_result (mounted env lbdev bs V K) ?K r p s')"
    if s1: "ram_hw s s1" "kept ?h ?F ?K (ram s) (ram s1)" "mounted env lbdev bs V K L s1" for s1
  proof (rule yields_bind [OF read_fat_entry_runs [OF s1(3) walk_next.hyps(2)]], clarify)
    fix s2 assume s2: "mounted env lbdev bs V K L s2" "ram_hw s1 s2" "unchanged ?h L (ram s1) (ram s2)"
    have k2: "kept ?h ?F ?K (ram s) (ram s2)" using s2(3) by (intro kept_trans [OF s1(2)] unchanged_kept) auto
    note r2 = ram_hw_trans [OF s1(1) s2(2)]
    from walk_next.IH [OF s2(1) walk_next.prems(2,3) kept_text [OF walk_next.prems(4,5) k2] walk_next.prems(5)]
    show "yields (find_by_name_loop env name (next_cluster V c) cb bs lbdev s2)
      (\<lambda>(p, s'). ram_hw s s' \<and> kept ?h ?F ?K (ram s) (ram s') \<and> entry_result (mounted env lbdev bs V K) ?K r p s')"
      using ram_hw_trans [OF r2] kept_trans [OF k2] by (auto simp del: entry_result.simps elim!: yields_mono)
  qed
  then show ?case unfolding find_loop_unfold [OF walk_next.hyps(1)] by (intro yields_bind [OF scan]) auto
qed

lemma find_entry_by_name_runs:
  assumes walk: "dir_walk V nm c r" and s: "mounted env lbdev bs V K L s" and name: "text_in (ram s) C name nm" "C \<in> L"
  shows "yields (find_entry_by_name env name c bs lbdev s) (\<lambda>(p, s'). ram_hw s s'
     \<and> kept (heap_of env) (name_buffer env) L (ram s) (ram s') \<and> entry_result (mounted env lbdev bs V K) L r p s')"
proof -
  note S = s [unfolded fat_mounted_def]
  have inv: "heap_inv (heap_of env) (ram s) L" and KL: "K \<subseteq> L" using S by auto
  have bpc: "bytes_per_cluster (ram s) bs = 512" using S by (simp add: bytes_per_cluster_def fat_represents_def)
  show ?thesis
    unfolding find_entry_by_name_def bpc
  proof (rule yields_bind [OF alloc_runs [OF inv]], clarify)
    fix cb :: addr and s1 kb assume A: "only_ram s s1" "unchanged (heap_of env) L (ram s) (ram s1)" "unat (512 :: u32) \<le> kb"
      "(unat cb, kb) \<notin> L" "heap_inv (heap_of env) (ram s1) (insert (unat cb, kb) L)"
    let ?L = "insert (unat cb, kb) L"
    have L: "?L - {(unat cb, kb)} = L" using A(4) by auto
    have k1: "kept (heap_of env) (name_buffer env) L (ram s) (ram s1)" using A(2) by (rule unchanged_kept) simp
    have "mounted env lbdev bs V K ?L s1"
      using KL kept_mono [OF k1 KL] only_ram_hw [OF A(1)] by (intro mounted_frame [OF s A(5)]) auto
    from find_loop_runs [OF walk this, of cb kb C name] kept_text [OF name k1] A(3,4) KL name(2)
    have "yields (find_by_name_loop env name c cb bs lbdev s1) (\<lambda>(p, s'). ram_hw s1 s'
        \<and> kept (heap_of env) (name_buffer env) L (ram s1) (ram s') \<and> entry_result (mounted env lbdev bs V K) L r p s')"
      unfolding L by auto
    then show "yields (find_by_name_loop env name c cb bs lbdev s1) (\<lambda>(p, s'). ram_hw s s'
        \<and> kept (heap_of env) (name_buffer env) L (ram s) (ram s') \<and> entry_result (mounted env lbdev bs V K) L r p s')"
      using ram_hw_trans [OF conjunct1 [OF only_ram_hw [OF A(1)]]] kept_trans [OF k1]
      by (auto simp del: entry_result.simps elim!: yields_mono)
  qed
qed

end

end
