(* ===== verification/Fat32_Path.thy ===== *)
theory Fat32_Path
  imports Fat32_Volume
begin

text \<open>
  Paths and files of a FAT32 volume. \<open>resolves\<close> walks the components of a path in the abstract volume;
  \<open>direntry_from_path\<close> implements it. A file whose requested part lies in its first cluster is read as it is
  on the disk.
\<close>

section \<open>Paths in the abstract volume\<close>

datatype target = Root | Missing | Entry "u8 list"

definition first_cluster_of :: "u8 list \<Rightarrow> u32" where
  "first_cluster_of e = push_bit 16 (ucast (ucast (e ! 20) OR push_bit 8 (ucast (e ! 21)) :: u16))
     OR ucast (ucast (e ! 26) OR push_bit 8 (ucast (e ! 27)) :: u16)"

lemma entry_first_cluster_of: "entry_first_cluster m p = first_cluster_of (bytes_at m p 32)"
  by (simp add: entry_first_cluster_def first_cluster_of_def load16_def add.assoc)

inductive resolves :: "fat_view \<Rightarrow> u8 list list \<Rightarrow> u32 \<Rightarrow> target \<Rightarrow> target \<Rightarrow> bool" for V where
  res_end: "resolves V [] c t t"
| res_missing: "dir_walk V w c None \<Longrightarrow> resolves V (w # ws) c t Missing"
| res_entry: "dir_walk V w c (Some e) \<Longrightarrow> resolves V ws (first_cluster_of e) (Entry e) t' \<Longrightarrow> resolves V (w # ws) c t t'"

fun target_result :: "((nat \<times> nat) set \<Rightarrow> 'd kstate \<Rightarrow> bool) \<Rightarrow> (nat \<times> nat) set \<Rightarrow> target \<Rightarrow> addr \<Rightarrow> 'd kstate \<Rightarrow> bool" where
  "target_result M L Root p s \<longleftrightarrow> p = 1 \<and> M L s"
| "target_result M L Missing p s \<longleftrightarrow> entry_result M L None p s"
| "target_result M L (Entry e) p s \<longleftrightarrow> entry_result M L (Some e) p s"

section \<open>The delimiter\<close>

definition slash_fits :: "'d kenv \<Rightarrow> mem \<Rightarrow> bool" where
  "slash_fits env m \<longleftrightarrow> cstring m (literal env ''/'') [0x2F] \<and> unat (literal env ''/'') + 1 < unat (virtual_address (heap_of env))
     \<and> disjoint_regions (name_buffer env) 256 (literal env ''/'') 2"

lemma slash_fits_kept:
  assumes "slash_fits env m" "kept (heap_of env) (name_buffer env) L m m'"
  shows "slash_fits env m'"
proof -
  let ?d = "literal env ''/''"
  have b: "unat ?d + 2 \<le> unat (virtual_address (heap_of env))" using assms(1) by (simp add: slash_fits_def)
  have "cstring m' ?d [0x2F]"
  proof (rule cstring_cong)
    show "cstring m ?d [0x2F]" using assms(1) by (simp add: slash_fits_def)
    fix a assume "in_region ?d (Suc (length [0x2F :: u8])) a"
    then have r: "in_region ?d 2 a" by (simp add: eval_nat_numeral)
    have "\<not> in_region (name_buffer env) 256 a"
      using disjoint_regionsD [OF disjoint_regions_sym r] assms(1) by (auto simp: slash_fits_def)
    moreover have "unat a < unat (virtual_address (heap_of env))" using in_region_nat [OF below_word [OF b], of a] r b by auto
    ultimately show "m' a = m a" using assms(2) by (simp add: kept_def)
  qed
  with assms(1) show ?thesis by (simp add: slash_fits_def)
qed

text \<open>Steps that change the memory, the hardware and the place of the tokenizer.\<close>

definition fs_step :: "'d kstate \<Rightarrow> 'd kstate \<Rightarrow> bool" where
  "fs_step s s' \<longleftrightarrow> console s' = console s \<and> fs_root s' = fs_root s"

lemma fs_step_trans: "fs_step s s' \<Longrightarrow> fs_step s' s'' \<Longrightarrow> fs_step s s''"
  by (simp add: fs_step_def)

lemma ram_hw_fs_step: "ram_hw s s' \<Longrightarrow> fs_step s s' \<and> olds s' = olds s"
  by (cases s') (auto simp: ram_hw_def fs_step_def)

section \<open>The search of a path\<close>

context block_store
begin

text \<open>What the loop relies on when the components \<open>ws\<close> are left: the next token and the rest are in the copy \<open>P\<close>.\<close>

definition tokens_left :: "(nat \<times> nat) \<Rightarrow> u8 list list \<Rightarrow> addr \<Rightarrow> 'd kstate \<Rightarrow> bool" where
  "tokens_left P ws tok s \<longleftrightarrow> (case ws of [] \<Rightarrow> tok = NULL
     | w # ws \<Rightarrow> tok \<noteq> NULL \<and> text_in (ram s) P tok w \<and> (\<exists>rest. text_in (ram s) P (olds s) rest \<and> words [0x2F] rest = ws))"

lemma next_component:
  assumes s: "mounted env lbdev bs V K L s" and P: "P \<in> L - K" and d: "slash_fits env (ram s)"
    and t: "text_in (ram s) P q cs" and q: "p = NULL \<and> olds s = q \<or> p = q"
  shows "\<exists>tok s'. next_token p (literal env ''/'') s = Some (Ret (tok, s')) \<and> mounted env lbdev bs V K L s' \<and> fs_step s s'
    \<and> tokens_left P (words [0x2F] cs) tok s' \<and> kept (heap_of env) (name_buffer env) (L - {P}) (ram s) (ram s')"
proof -
  have S: "heap_inv (heap_of env) (ram s) L" "P \<in> L" "K \<subseteq> L - {P}" using s P by (auto simp: fat_mounted_def)
  have D: "cstring (ram s) (literal env ''/'') [0x2F]"
    "unat (literal env ''/'') + length [0x2F :: u8] < unat (virtual_address (heap_of env))" using d by (simp_all add: slash_fits_def)
  from next_token_text [OF S(1,2) D t q] obtain tok o' m' where
    R: "next_token p (literal env ''/'') s = Some (Ret (tok, s\<lparr>olds := o', ram := m'\<rparr>))" "heap_inv (heap_of env) m' L"
      "unchanged (heap_of env) (L - {P}) (ram s) m'"
      "case CString.next_token [0x2F] cs of None \<Rightarrow> tok = NULL
       | Some (w, rest) \<Rightarrow> tok \<noteq> NULL \<and> text_in m' P tok w \<and> text_in m' P o' rest" by blast
  have "mounted env lbdev bs V K L (s\<lparr>olds := o', ram := m'\<rparr>)"
    using R(2) S(3) unchanged_kept [OF R(3) S(3)] by (intro mounted_frame [OF s]) auto
  moreover have "tokens_left P (words [0x2F] cs) tok (s\<lparr>olds := o', ram := m'\<rparr>)"
    using R(4) by (auto simp: tokens_left_def words.simps [of _ cs] split: option.splits)
  ultimately show ?thesis using R(1) unchanged_kept [OF R(3) order_refl] by (auto simp: fs_step_def)
qed

lemma mounted_release:
  assumes s: "mounted env lbdev bs V K L s" and P: "(unat q, k) \<in> L - K"
  shows "mounted env lbdev bs V K (L - {(unat q, k)}) (release q s)"
    "kept (heap_of env) (name_buffer env) (L - {(unat q, k)}) (ram s) (ram (release q s))"
proof -
  have S: "heap_inv (heap_of env) (ram s) L" "(unat q, k) \<in> L" "K \<subseteq> L - {(unat q, k)}" using s P by (auto simp: fat_mounted_def)
  note F = kfree_unchanged [OF S(1,2)]
  show "mounted env lbdev bs V K (L - {(unat q, k)}) (release q s)"
    using F(1) S(3) unchanged_kept [OF F(2) S(3)] by (intro mounted_frame [OF s]) (simp_all add: release_def)
  show "kept (heap_of env) (name_buffer env) (L - {(unat q, k)}) (ram s) (ram (release q s))"
    using unchanged_kept [OF F(2) order_refl] by (simp add: release_def)
qed

text \<open>Releasing the copy of the path at the end.\<close>

lemma target_release:
  assumes t: "target_result (mounted env lbdev bs V K) L t p s" and P: "(unat q, k) \<in> L - K"
  shows "target_result (mounted env lbdev bs V K) (L - {(unat q, k)}) t p (release q s)
    \<and> kept (heap_of env) (name_buffer env) (L - {(unat q, k)}) (ram s) (ram (release q s)) \<and> fs_step s (release q s)"
proof (cases t)
  case (Entry e)
  with t obtain j where e: "p \<noteq> NULL" "bytes_at (ram s) p 32 = e" "32 \<le> j" "(unat p, j) \<notin> L"
    "mounted env lbdev bs V K (insert (unat p, j) L) s" by auto
  have ne: "(unat p, j) \<noteq> (unat q, k)" using P e(4) by auto
  then have L: "insert (unat p, j) L - {(unat q, k)} = insert (unat p, j) (L - {(unat q, k)})" by auto
  have "(unat q, k) \<in> insert (unat p, j) L - K" using P by simp
  note R = mounted_release [OF e(5) this, unfolded L]
  have "bytes_at (ram (release q s)) p 32 = e"
    using kept_block [OF insertI1 e(3) _ insertI1 R(2)] e(2,5) by (auto simp: fat_mounted_def)
  moreover have "kept (heap_of env) (name_buffer env) (L - {(unat q, k)}) (ram s) (ram (release q s))"
    using R(2) by (rule kept_mono) auto
  ultimately show ?thesis using Entry e(1,3,4) R(1) by (auto simp: fs_step_def release_def)
qed (use t P mounted_release [of env lbdev bs V K L s q k] in \<open>auto simp: fs_step_def release_def\<close>)

lemma tokens_left_kept:
  assumes "tokens_left P ws tok s" "P \<in> L" "kept (heap_of env) (name_buffer env) L (ram s) (ram s')" "olds s' = olds s"
  shows "tokens_left P ws tok s'"
  using assms kept_text [OF _ assms(2,3)] by (auto simp: tokens_left_def split: list.splits)

text \<open>What the loop returns for the target \<open>t\<close>, once the copy of the path is released.\<close>

definition path_result ::
  "'d kenv \<Rightarrow> 'd logical_block_device \<Rightarrow> addr \<Rightarrow> fat_view \<Rightarrow> (nat \<times> nat) set \<Rightarrow> (nat \<times> nat) set \<Rightarrow> target \<Rightarrow> 'd kstate \<Rightarrow> addr \<times> 'd kstate \<Rightarrow> bool" where
  "path_result env lbdev bs V K L t s = (\<lambda>(p, s'). fs_step s s' \<and> kept (heap_of env) (name_buffer env) L (ram s) (ram s')
     \<and> target_result (mounted env lbdev bs V K) L t p s')"

lemma path_result_trans:
  "path_result env lbdev bs V K L t s1 x \<Longrightarrow> fs_step s s1 \<Longrightarrow> kept (heap_of env) (name_buffer env) L (ram s) (ram s1) \<Longrightarrow>
   path_result env lbdev bs V K L t s x"
  by (auto simp: path_result_def intro: fs_step_trans kept_trans)

lemma path_end:
  "target_result (mounted env lbdev bs V K) L t p s \<Longrightarrow> (unat q, k) \<in> L - K \<Longrightarrow>
   path_result env lbdev bs V K (L - {(unat q, k)}) t s (p, release q s)"
  using target_release [of env lbdev bs V K L t p s q k] by (simp add: path_result_def)

text \<open>After an entry is found: the next component is taken, and the entry released if there is one.\<close>

lemma path_continue:
  fixes s :: "'d kstate"
  assumes ih: "\<And>s pch. slash_fits env (ram s) \<Longrightarrow> tokens_left (unat path_cpy, kp) ws pch s \<Longrightarrow>
      (if ws = [] then target_result (mounted env lbdev bs V K) L (Entry e) p s else mounted env lbdev bs V K L s) \<Longrightarrow>
      yields (path_loop env path_cpy pch p c bs lbdev s) (path_result env lbdev bs V K (L - {(unat path_cpy, kp)}) t s)"
    and P: "(unat path_cpy, kp) \<in> L - K" "K \<subseteq> L" and d: "slash_fits env (ram s)"
    and rest: "text_in (ram s) (unat path_cpy, kp) (olds s) rest" "words [0x2F] rest = ws"
    and found: "p \<noteq> NULL" "bytes_at (ram s) p 32 = e" "32 \<le> k" "(unat p, k) \<notin> L" "mounted env lbdev bs V K (insert (unat p, k) L) s"
  shows "yields (rbind (next_token NULL (literal env ''/'') s) (\<lambda>(tok, s).
      path_loop env path_cpy tok p c bs lbdev (if tok \<noteq> NULL then release p s else s)))
    (path_result env lbdev bs V K (L - {(unat path_cpy, kp)}) t s)"
proof -
  let ?P = "(unat path_cpy, kp)" and ?Q = "(unat p, k)" and ?h = "heap_of env" and ?F = "name_buffer env"
  let ?M = "mounted env lbdev bs V K"
  have PQ: "?P \<in> insert ?Q L - K" "?Q \<noteq> ?P" using P found(4) by auto
  from next_component [OF found(5) PQ(1) d rest(1), of NULL] obtain tok s2 where
    T: "next_token NULL (literal env ''/'') s = Some (Ret (tok, s2))" "?M (insert ?Q L) s2" "fs_step s s2"
      "tokens_left ?P ws tok s2" "kept ?h ?F (insert ?Q L - {?P}) (ram s) (ram s2)" using rest(2) by auto
  have inv: "heap_inv ?h (ram s) (insert ?Q L)" using found(5) by (simp add: fat_mounted_def)
  have k2: "kept ?h ?F (L - {?P}) (ram s) (ram s2)" using T(5) by (rule kept_mono) auto
  have sl: "slash_fits env (ram s2)" by (rule slash_fits_kept [OF d k2])
  show ?thesis
  proof (cases "ws = []")
    case True
    then have tok: "tok = NULL" using T(4) by (simp add: tokens_left_def)
    have "bytes_at (ram s2) p 32 = e" using kept_block [OF _ found(3) inv insertI1 T(5)] PQ(2) found(2) by simp
    then have "target_result ?M L (Entry e) p s2" using found(1,3,4) T(2) by auto
    from path_result_trans [OF _ T(3) k2] ih [OF sl T(4)] this True tok show ?thesis
      by (auto simp: T(1) elim!: yields_mono)
  next
    case False
    then have tok: "tok \<noteq> NULL" using T(4) by (auto simp: tokens_left_def neq_Nil_conv)
    have "?Q \<in> insert ?Q L - K" and L: "insert ?Q L - {?Q} = L" using found(4) P(2) by auto
    note R = mounted_release [OF T(2) this(1), unfolded L]
    have k3: "kept ?h ?F (L - {?P}) (ram s) (ram (release p s2))"
      by (rule kept_trans [OF k2 kept_mono [OF R(2)]]) auto
    have st3: "fs_step s (release p s2)" using T(3) by (simp add: fs_step_def release_def)
    have tl: "tokens_left ?P ws tok (release p s2)"
      using T(4) _ R(2) by (rule tokens_left_kept) (use P in \<open>auto simp: release_def\<close>)
    have "yields (path_loop env path_cpy tok p c bs lbdev (release p s2))
        (path_result env lbdev bs V K (L - {?P}) t (release p s2))"
      using False R(1) by (intro ih slash_fits_kept [OF d k3] tl) simp
    then show ?thesis using tok path_result_trans [OF _ st3 k3] by (auto simp: T(1) elim!: yields_mono)
  qed
qed

lemma path_loop_runs:
  fixes s :: "'d kstate"
  shows "resolves V ws c t t' \<Longrightarrow> (unat path_cpy, kp) \<in> L - K \<Longrightarrow> slash_fits env (ram s) \<Longrightarrow> tokens_left (unat path_cpy, kp) ws pch s \<Longrightarrow>
   (if ws = [] then target_result (mounted env lbdev bs V K) L t direntry s else mounted env lbdev bs V K L s) \<Longrightarrow>
   yields (path_loop env path_cpy pch direntry c bs lbdev s) (path_result env lbdev bs V K (L - {(unat path_cpy, kp)}) t' s)"
proof (induction arbitrary: s pch direntry rule: resolves.induct)
  case (res_end c t)
  then have "pch = NULL" by (simp add: tokens_left_def)
  with path_end [OF _ res_end.prems(1)] res_end.prems show ?case by (simp add: path_loop.simps)
next
  case (res_missing w c ws t)
  let ?P = "(unat path_cpy, kp)" and ?M = "mounted env lbdev bs V K"
  have S: "?M L s" "pch \<noteq> NULL" "text_in (ram s) ?P pch w" "?P \<in> L" using res_missing.prems by (auto simp: tokens_left_def)
  show ?case
    unfolding path_loop.simps [of env path_cpy pch] if_P [OF S(2)]
  proof (rule yields_bind [OF find_entry_by_name_runs [OF res_missing.hyps S(1,3,4)]], simp (no_asm_use) only: split_paired_all prod.case,
      elim conjE)
    fix p and s1 :: "'d kstate"
    assume A: "ram_hw s s1" "kept (heap_of env) (name_buffer env) L (ram s) (ram s1)" "entry_result ?M L None p s1"
    have k: "kept (heap_of env) (name_buffer env) (L - {?P}) (ram s) (ram s1)" by (rule kept_mono [OF A(2)]) auto
    have "target_result ?M L Missing NULL s1" "p = NULL" using A(3) by simp_all
    from path_result_trans [OF path_end [OF this(1) res_missing.prems(1)] _ k] this(2) ram_hw_fs_step [OF A(1)]
    show "yields (if p = NULL then Some (Ret (NULL, release path_cpy s1)) else
        let c = entry_first_cluster (ram s1) p in rbind (next_token NULL (literal env ''/'') s1) (\<lambda>(pch, s).
          path_loop env path_cpy pch p c bs lbdev (if pch \<noteq> NULL then release p s else s)))
      (path_result env lbdev bs V K (L - {?P}) Missing s)" by simp
  qed
next
  case (res_entry w c e ws t' t)
  let ?P = "(unat path_cpy, kp)" and ?M = "mounted env lbdev bs V K"
  have S: "?M L s" "pch \<noteq> NULL" "text_in (ram s) ?P pch w" "?P \<in> L" "K \<subseteq> L"
    and "\<exists>rest. text_in (ram s) ?P (olds s) rest \<and> words [0x2F] rest = ws"
    using res_entry.prems by (auto simp: tokens_left_def fat_mounted_def)
  then obtain rest where rest: "text_in (ram s) ?P (olds s) rest" "words [0x2F] rest = ws" by blast
  show ?case
    unfolding path_loop.simps [of env path_cpy pch] if_P [OF S(2)]
  proof (rule yields_bind [OF find_entry_by_name_runs [OF res_entry.hyps(1) S(1,3,4)]], simp (no_asm_use) only: split_paired_all prod.case,
      elim conjE)
    fix p and s1 :: "'d kstate"
    assume A: "ram_hw s s1" "kept (heap_of env) (name_buffer env) L (ram s) (ram s1)" "entry_result ?M L (Some e) p s1"
    then obtain k where E: "p \<noteq> NULL" "bytes_at (ram s1) p 32 = e" "32 \<le> k" "(unat p, k) \<notin> L" "?M (insert (unat p, k) L) s1" by auto
    note st = ram_hw_fs_step [OF A(1)]
    have k: "kept (heap_of env) (name_buffer env) (L - {?P}) (ram s) (ram s1)" by (rule kept_mono [OF A(2)]) auto
    have r1: "text_in (ram s1) ?P (olds s1) rest" using kept_text [OF rest(1) S(4) A(2)] st by simp
    have c: "entry_first_cluster (ram s1) p = first_cluster_of e" using E(2) by (simp add: entry_first_cluster_of)
    have "yields (rbind (next_token NULL (literal env ''/'') s1) (\<lambda>(tok, s).
        path_loop env path_cpy tok p (first_cluster_of e) bs lbdev (if tok \<noteq> NULL then release p s else s)))
      (path_result env lbdev bs V K (L - {?P}) t' s1)"
      by (rule path_continue [OF res_entry.IH [OF res_entry.prems(1)] res_entry.prems(1) S(5) slash_fits_kept [OF res_entry.prems(2) A(2)] r1 rest(2) E])
    then show "yields (if p = NULL then Some (Ret (NULL, release path_cpy s1)) else
        let c = entry_first_cluster (ram s1) p in rbind (next_token NULL (literal env ''/'') s1) (\<lambda>(pch, s).
          path_loop env path_cpy pch p c bs lbdev (if pch \<noteq> NULL then release p s else s)))
      (path_result env lbdev bs V K (L - {?P}) t' s)"
      unfolding if_not_P [OF E(1)] Let_def c by (rule yields_mono) (rule path_result_trans [OF _ conjunct1 [OF st] k])
  qed
qed

lemma mounted_boot:
  assumes s: "mounted env lbdev bs V K L s" and kept: "kept (heap_of env) (name_buffer env) K (ram s) (ram s')"
  shows "root_cluster (ram s') bs = root_cluster (ram s) bs" "bytes_per_cluster (ram s) bs = 512"
proof -
  note S = s [unfolded fat_mounted_def]
  from S obtain k where k: "512 \<le> k" "(unat bs, k) \<in> K" "(unat bs, k) \<in> L" by auto
  have "ram s' a = ram s a" if "in_region bs 512 a" for a
    using block_region [OF _ k(3,1) that] S kept k(2) by (auto simp: kept_def)
  then show "root_cluster (ram s') bs = root_cluster (ram s) bs" by (rule boot_sector_same)
  show "bytes_per_cluster (ram s) bs = 512" using S by (simp add: bytes_per_cluster_def fat_represents_def)
qed

lemma direntry_from_path_runs:
  assumes res: "resolves V (words [0x2F] cs) (root_cluster (ram s) bs) Root t" and s: "mounted env lbdev bs V K L s"
    and d: "slash_fits env (ram s)" and path: "text_in (ram s) C path cs" "C \<in> L"
  shows "yields (direntry_from_path env path bs lbdev s) (\<lambda>(p, s'). fs_step s s'
    \<and> kept (heap_of env) (name_buffer env) L (ram s) (ram s') \<and> target_result (mounted env lbdev bs V K) L t p s')"
proof -
  let ?h = "heap_of env" and ?F = "name_buffer env" and ?M = "mounted env lbdev bs V K"
  have S: "heap_inv ?h (ram s) L" "K \<subseteq> L" using s by (auto simp: fat_mounted_def)
  define go where "go = (\<lambda>(q, s). rbind (next_token q (literal env ''/'') s) (\<lambda>(pch, s).
      path_loop env q pch 1 (root_cluster (ram s) bs) bs lbdev s))"
  have "yields (go (r, s1)) (\<lambda>(p, s'). fs_step s s' \<and> kept ?h ?F L (ram s) (ram s') \<and> target_result ?M L t p s')"
    if R: "s1 = s\<lparr>ram := m\<rparr>" "(unat r, k) \<notin> L" "heap_inv ?h m (insert (unat r, k) L)" "unchanged ?h L (ram s) m"
      "text_in m (unat r, k) r cs" for r s1 m k
  proof -
    let ?Q = "(unat r, k)"
    have k1: "kept ?h ?F L (ram s) (ram s1)" using unchanged_kept [OF R(4) order_refl] by (simp add: R(1))
    have M1: "?M (insert ?Q L) s1" using R(3) S(2) kept_mono [OF k1 S(2)] by (intro mounted_frame [OF s]) (auto simp: R(1))
    have Q: "?Q \<in> insert ?Q L - K" and L: "insert ?Q L - {?Q} = L" using R(2) S(2) by auto
    have t1: "text_in (ram s1) ?Q r cs" using R(5) by (simp add: R(1))
    from next_component [OF M1 Q slash_fits_kept [OF d k1] t1, of r] obtain tok s2 where T:
      "next_token r (literal env ''/'') s1 = Some (Ret (tok, s2))" "?M (insert ?Q L) s2" "fs_step s1 s2"
      "tokens_left ?Q (words [0x2F] cs) tok s2" "kept ?h ?F L (ram s1) (ram s2)" unfolding L by blast
    note k2 = kept_trans [OF k1 T(5)]
    have st2: "fs_step s s2" using T(3) by (simp add: fs_step_def R(1))
    have root: "root_cluster (ram s2) bs = root_cluster (ram s) bs" using kept_mono [OF k2 S(2)] by (rule mounted_boot(1) [OF s])
    have "target_result ?M (insert ?Q L) Root 1 s2" using T(2) by simp
    then have "yields (path_loop env r tok 1 (root_cluster (ram s) bs) bs lbdev s2) (\<lambda>(p, s'). fs_step s2 s'
        \<and> kept ?h ?F L (ram s2) (ram s') \<and> target_result ?M L t p s')"
      using path_loop_runs [OF res Q slash_fits_kept [OF d k2] T(4), where direntry = 1] T(2) unfolding L by (simp add: path_result_def)
    then show ?thesis
      using T(1) fs_step_trans [OF st2] kept_trans [OF k2] by (auto simp: go_def root elim!: yields_mono)
  qed
  note go_runs = this
  have run: "direntry_from_path env path bs lbdev s = rbind (dup_string env path s) go"
    by (simp add: direntry_from_path_def go_def)
  show ?thesis
    unfolding run by (rule yields_bind [OF dup_string_text [OF S(1) path(2,1)]]) (auto intro: go_runs)
qed

lemma first_cluster_runs:
  assumes res: "resolves V (words [0x2F] cs) (root_cluster (ram s) bs) Root (Entry e)" and cs: "cs \<noteq> [0x2F]"
    and s: "mounted env lbdev bs V K L s" and d: "slash_fits env (ram s)" and path: "text_in (ram s) C path cs" "C \<in> L"
  shows "yields (first_cluster_from_path env path bs lbdev s) (\<lambda>(c, s'). c = first_cluster_of e \<and> fs_step s s'
    \<and> kept (heap_of env) (name_buffer env) L (ram s) (ram s')
    \<and> (\<exists>(p :: addr) k. (unat p, k) \<notin> L \<and> mounted env lbdev bs V K (insert (unat p, k) L) s'))"
proof -
  have c: "cstr (ram s) path cs" "cstr (ram s) (literal env ''/'') [0x2F]"
    using path(1) d by (simp_all add: text_in_def cstring_def slash_fits_def)
  have "byte_compare cs [0x2F] \<noteq> 0" using byte_compare_0 [OF cstr_no_nul [OF c(1)], of "[0x2F]"] cs by simp
  then have run: "first_cluster_from_path env path bs lbdev s = rbind (direntry_from_path env path bs lbdev s) (\<lambda>(direntry, s).
         if direntry = NULL then Some (Ret (-1, s)) else Some (Ret (entry_first_cluster (ram s) direntry, s)))"
    by (simp add: first_cluster_from_path_def strcmp_cstr [OF c] returning_def)
  show ?thesis
    unfolding run
  proof (rule yields_bind [OF direntry_from_path_runs [OF res s d path]], clarify)
    fix p s' assume A: "fs_step s s'" "kept (heap_of env) (name_buffer env) L (ram s) (ram s')"
      "target_result (mounted env lbdev bs V K) L (Entry e) p s'"
    then obtain k where "p \<noteq> NULL" "bytes_at (ram s') p 32 = e" "(unat p, k) \<notin> L" "mounted env lbdev bs V K (insert (unat p, k) L) s'"
      by auto
    with A(1,2) show "yields (if p = NULL then Some (Ret (-1, s')) else Some (Ret (entry_first_cluster (ram s') p, s')))
      (\<lambda>(c, s'). c = first_cluster_of e \<and> fs_step s s' \<and> kept (heap_of env) (name_buffer env) L (ram s) (ram s')
        \<and> (\<exists>(p :: addr) k. (unat p, k) \<notin> L \<and> mounted env lbdev bs V K (insert (unat p, k) L) s'))"
      by (auto simp: entry_first_cluster_of)
  qed
qed

section \<open>Reading a file\<close>

text \<open>Copying a part of the cluster buffer into the caller's buffer, which lies in the allocation \<open>B\<close>.\<close>

lemma copy_part:
  assumes s: "mounted env lbdev bs V K L s" and cb: "(unat cb, kb) \<in> L - K" "512 \<le> kb" and data: "bytes_at (ram s) cb 512 = data"
    and buf: "B \<in> L - K" "B \<noteq> (unat cb, kb)" "{unat buffer ..< unat buffer + unat sz} \<subseteq> payload B" "unat buffer + unat sz \<le> 2 ^ 32"
    and part: "unat offset + unat sz \<le> 512"
  defines "m \<equiv> memcpy (ram s) buffer (cb + offset) sz"
  shows "mounted env lbdev bs V K L (s\<lparr>ram := m\<rparr>)" "kept (heap_of env) (name_buffer env) (L - {B}) (ram s) m"
    "bytes_at m buffer (unat sz) = take (unat sz) (drop (unat offset) data)"
proof -
  have S: "heap_inv (heap_of env) (ram s) L" "K \<subseteq> L - {B}" "B \<in> L" "(unat cb, kb) \<in> L" using s buf(1) cb(1) by (auto simp: fat_mounted_def)
  have in_B: "unat a \<in> payload B" if "in_region buffer (unat sz) a" for a
    using that buf(3) by (auto simp: in_region_nat [OF buf(4)])
  have off: "cb + offset = cb + of_nat (unat offset)" by simp
  have in_cb: "unat a \<in> payload (unat cb, kb)" if "in_region (cb + offset) (unat sz) a" for a
  proof (rule block_region [OF S(1,4) cb(2)])
    show "in_region cb 512 a" using that part unfolding off by (rule sub_region) simp
  qed
  have dj: "disjoint_regions buffer (unat sz) (cb + offset) (unat sz)"
    using in_B in_cb heap_inv_apart [OF S(1,3,4) buf(2)] unfolding disjoint_regions_def by blast
  have diff: "unat x \<in> payload B" if "m x \<noteq> ram s x" for x
    using that in_B memcpy_outside [OF dj, of "ram s"] by (auto simp: same_outside_def m_def)
  note U = unchanged_heap [OF S(1,3) diff]
  show "kept (heap_of env) (name_buffer env) (L - {B}) (ram s) m" by (rule unchanged_kept [OF U(2) order_refl])
  show "mounted env lbdev bs V K L (s\<lparr>ram := m\<rparr>)"
    using U(1) S(2) unchanged_kept [OF U(2) S(2)] by (intro mounted_frame [OF s]) auto
  show "bytes_at m buffer (unat sz) = take (unat sz) (drop (unat offset) data)"
    using bytes_at_part [OF part, of "ram s" cb] by (simp add: m_def memcpy_bytes [OF dj] data)
qed

lemma read_first_cluster:
  assumes s: "mounted env lbdev bs V K L s" and cb: "(unat cb, kb) \<in> L - K" "512 \<le> kb" and c: "c < 0x0FFFFFF8" "readable V c"
    and buf: "B \<in> L - K" "B \<noteq> (unat cb, kb)" "{unat buffer ..< unat buffer + unat sz} \<subseteq> payload B" "unat buffer + unat sz \<le> 2 ^ 32"
    and part: "unat offset < 512" "unat offset + unat sz \<le> 512"
  shows "\<exists>s'. read_file_loop env bs lbdev 512 cb offset sz buffer c 0 0 s = Some (Ret s') \<and> fs_step s s'
    \<and> mounted env lbdev bs V K (L - {(unat cb, kb)}) s'
    \<and> kept (heap_of env) (name_buffer env) (L - {(unat cb, kb)} - {B}) (ram s) (ram s')
    \<and> bytes_at (ram s') buffer (unat sz) = take (unat sz) (drop (unat offset) (cluster_bytes V c))"
proof -
  let ?h = "heap_of env" and ?F = "name_buffer env" and ?C = "(unat cb, kb)" and ?L = "L - {(unat cb, kb)}"
  from read_cluster_runs [OF s cb c(2)] obtain s1 where R: "read_cluster c cb bs lbdev s = Some (Ret s1)" "mounted env lbdev bs V K L s1"
    "ram_hw s s1" "bytes_at (ram s1) cb 512 = cluster_bytes V c" "unchanged ?h ?L (ram s) (ram s1)" by blast
  let ?s2 = "s1\<lparr>ram := memcpy (ram s1) buffer (cb + offset) sz\<rparr>"
  note P = copy_part [OF R(2) cb R(4) buf part(2)]
  have sz: "\<not> 512 - offset < sz" "offset < 512"
    using part by (simp_all add: word_less_nat_alt unat_sub_if_size)
  have "read_file_loop env bs lbdev 512 cb offset sz buffer c 0 0 s = Some (Ret (release cb ?s2))"
    using c(1) sz R(1) by (simp add: read_file_loop.simps read_file_step_def Let_def)
  moreover have "fs_step s (release cb ?s2)" using ram_hw_fs_step [OF R(3)] by (simp add: fs_step_def release_def)
  moreover note F = mounted_release [OF P(1) cb(1)]
  have "kept ?h ?F (?L - {B}) (ram s) (ram (release cb ?s2))"
  proof (rule kept_trans)
    show "kept ?h ?F (?L - {B}) (ram s) (ram s1)" using R(5) by (rule unchanged_kept) auto
    have "kept ?h ?F (?L - {B}) (ram s1) (ram ?s2)" using kept_mono [OF P(2), of "?L - {B}"] by auto
    then show "kept ?h ?F (?L - {B}) (ram s1) (ram (release cb ?s2))" by (rule kept_trans) (rule kept_mono [OF F(2)], auto)
  qed
  moreover have "bytes_at (ram (release cb ?s2)) buffer (unat sz) = bytes_at (ram ?s2) buffer (unat sz)"
  proof (rule bytes_at_cong)
    fix a assume "in_region buffer (unat sz) a"
    then have "unat a \<in> payload B" using buf(3) by (auto simp: in_region_nat [OF buf(4)])
    then show "ram (release cb ?s2) a = ram ?s2 a" using F(2) buf(1,2) by (auto simp: kept_def)
  qed (rule below_word [OF order_refl])
  ultimately show ?thesis using F(1) P(3) by auto
qed

lemma read_fat32_runs:
  assumes res: "resolves V (words [0x2F] cs) (root_cluster (ram s) bs) Root (Entry e)" and cs: "cs \<noteq> [0x2F]"
    and s: "mounted env lbdev bs V K L s" and d: "slash_fits env (ram s)" and path: "text_in (ram s) C node cs" "C \<in> L"
    and node: "node_private (ram s) node = bs" "lbdev_at env (node_lbdev (ram s) node) = lbdev"
    and c: "first_cluster_of e < 0x0FFFFFF8" "readable V (first_cluster_of e)"
    and buf: "B \<in> L - K" "{unat buffer ..< unat buffer + unat sz} \<subseteq> payload B" "unat buffer + unat sz \<le> 2 ^ 32"
    and part: "unat offset < 512" "unat offset + unat sz \<le> 512"
  shows "yields (read_fat32 env node offset sz buffer s) (\<lambda>(v, s'). v = 0 \<and> fs_step s s'
    \<and> bytes_at (ram s') buffer (unat sz) = take (unat sz) (drop (unat offset) (cluster_bytes V (first_cluster_of e)))
    \<and> kept (heap_of env) (name_buffer env) (L - {B}) (ram s) (ram s')
    \<and> (\<exists>(p :: addr) k. (unat p, k) \<notin> L \<and> mounted env lbdev bs V K (insert (unat p, k) L) s'))"
proof -
  let ?h = "heap_of env" and ?F = "name_buffer env" and ?c = "first_cluster_of e"
  define go where "go = (\<lambda>(c, s). let bpc = bytes_per_cluster (ram s) bs
         in rbind (alloc env bpc s) (\<lambda>(cluster_buf, s).
            rbind (read_file_loop env bs lbdev bpc cluster_buf offset sz buffer c 0 0 s)
              (\<lambda>s. Some (Ret (0 :: u32, s)))))"
  let ?post = "\<lambda>(v :: u32, s'). v = 0 \<and> fs_step s s'
    \<and> bytes_at (ram s') buffer (unat sz) = take (unat sz) (drop (unat offset) (cluster_bytes V ?c))
    \<and> kept ?h ?F (L - {B}) (ram s) (ram s') \<and> (\<exists>(p :: addr) k. (unat p, k) \<notin> L \<and> mounted env lbdev bs V K (insert (unat p, k) L) s')"
  have run: "read_fat32 env node offset sz buffer s = rbind (first_cluster_from_path env node bs lbdev s) go"
    by (simp add: read_fat32_def node go_def Let_def)
  have "yields (go (?c, s1)) ?post" if A: "fs_step s s1" "kept ?h ?F L (ram s) (ram s1)" "(unat p, k) \<notin> L"
    "mounted env lbdev bs V K (insert (unat p, k) L) s1" for s1 k and p :: addr
  proof -
    let ?L = "insert (unat p, k) L"
    have S1: "heap_inv ?h (ram s1) ?L" "K \<subseteq> ?L" using A(4) by (auto simp: fat_mounted_def)
    have "yields (alloc env 512 s1) (\<lambda>(cb, s2). yields (rbind (read_file_loop env bs lbdev 512 cb offset sz buffer ?c 0 0 s2)
        (\<lambda>s. Some (Ret (0, s)))) ?post)"
    proof (rule yields_mono [OF alloc_runs [OF S1(1)]], simp only: split_paired_all prod.case, elim conjE exE)
      fix cb :: addr and s2 j assume C: "only_ram s1 s2" "unchanged ?h ?L (ram s1) (ram s2)" "unat (512 :: u32) \<le> j" "(unat cb, j) \<notin> ?L"
        "heap_inv ?h (ram s2) (insert (unat cb, j) ?L)"
      let ?C = "(unat cb, j)"
      have "mounted env lbdev bs V K (insert ?C ?L) s2"
        using S1(2) unchanged_kept [OF C(2) S1(2)] only_ram_hw [OF C(1)] by (intro mounted_frame [OF A(4) C(5)]) auto
      moreover have "?C \<in> insert ?C ?L - K" "512 \<le> j" "B \<in> insert ?C ?L - K" "B \<noteq> ?C" "insert ?C ?L - {?C} = ?L"
        using C(3,4) S1(2) buf(1) by auto
      ultimately obtain s3 where D: "read_file_loop env bs lbdev 512 cb offset sz buffer ?c 0 0 s2 = Some (Ret s3)" "fs_step s2 s3"
        "mounted env lbdev bs V K ?L s3" "kept ?h ?F (?L - {B}) (ram s2) (ram s3)"
        "bytes_at (ram s3) buffer (unat sz) = take (unat sz) (drop (unat offset) (cluster_bytes V ?c))"
        using read_first_cluster [of env lbdev bs V K "insert ?C ?L" s2 cb j ?c B buffer sz offset] c buf(2,3) part by auto
      have "kept ?h ?F (L - {B}) (ram s) (ram s3)"
        by (rule kept_trans [OF kept_trans [OF kept_mono [OF A(2)] unchanged_kept [OF C(2)]] kept_mono [OF D(4)]]) auto
      moreover have "fs_step s s3"
        using fs_step_trans [OF A(1) fs_step_trans [OF conjunct1 [OF ram_hw_fs_step] D(2)]] only_ram_hw [OF C(1)] by simp
      ultimately show "yields (rbind (read_file_loop env bs lbdev 512 cb offset sz buffer ?c 0 0 s2) (\<lambda>s. Some (Ret (0, s)))) ?post"
        using D(1,3,5) A(3) by fastforce
    qed
    then show ?thesis
      using mounted_boot(2) [OF A(4) kept_refl] by (auto simp: go_def Let_def elim!: yields_bind)
  qed
  then show ?thesis
    unfolding run by (intro yields_bind [OF first_cluster_runs [OF res cs s d path]]) auto
qed

end

end
