(* ===== verification/Fat32_File.thy ===== *)
theory Fat32_File
  imports Fat32_Path Tty_Screen
begin

text \<open>
  The FAT32 file system over the IDE driver: the results of \<open>Fat32_Path\<close> for the block device that \<open>Ide\<close>
  shows to keep the contract \<open>block_store\<close>, with a small volume as an example.
\<close>

section \<open>Over the IDE driver\<close>

text \<open>A mounted volume on an IDE drive whose private data lie at \<open>p\<close>.\<close>

definition ide_fat ::
  "'d io_ports \<Rightarrow> ('d \<Rightarrow> ata) \<Rightarrow> bool \<Rightarrow> addr \<Rightarrow> 'd kenv \<Rightarrow> 'd logical_block_device \<Rightarrow> addr \<Rightarrow> fat_view \<Rightarrow>
   (nat \<times> nat) set \<Rightarrow> (nat \<times> nat) set \<Rightarrow> 'd kstate \<Rightarrow> bool" where
  "ide_fat io view master p env lbdev bs V K L s \<longleftrightarrow> (\<exists>name devid n. fat_mounted (ide_block_device io name devid n p) (2 ^ 28) (in_region p 4)
     (ide_ok io view master p) (ide_sector view master) env lbdev bs V K L s)"

lemma ide_fat_device:
  "fat_mounted (ide_block_device io name devid n p) (2 ^ 28) (in_region p 4) (ide_ok io view master p) (ide_sector view master)
     env lbdev bs V K L s \<Longrightarrow> ide_fat io view master p env lbdev bs V K L s"
  unfolding ide_fat_def by blast

lemma entry_not_root: "resolves V (words [0x2F] cs) c Root (Entry e) \<Longrightarrow> cs \<noteq> [0x2F]"
proof
  assume "resolves V (words [0x2F] cs) c Root (Entry e)" "cs = [0x2F]"
  moreover have "words [0x2F] [0x2F] = ([] :: u8 list list)" by code_simp
  ultimately show False by (auto elim: resolves.cases)
qed

lemma target_result_mono: "target_result M L t p s \<Longrightarrow> (\<And>L. M L s \<Longrightarrow> M' L s) \<Longrightarrow> target_result M' L t p s"
  by (cases t) auto


text \<open>
  Reading a file: the requested bytes are those of the first cluster of the file on the disk, when the
  request lies in that cluster. Nothing else changes but the caller's buffer, and one allocation is left
  behind: the entry of the file is never released. The only other outcomes are the two panics.
\<close>

theorem read_fat32_first_cluster:
  assumes "ide_fat io view master p env lbdev bs V K L s" and "slash_fits env (ram s)"
    and "text_in (ram s) C node cs" and "C \<in> L" and "resolves V (words [0x2F] cs) (root_cluster (ram s) bs) Root (Entry e)"
    and "node_private (ram s) node = bs" and "lbdev_at env (node_lbdev (ram s) node) = lbdev"
    and "first_cluster_of e < 0x0FFFFFF8" and "readable V (first_cluster_of e)"
    and "B \<in> L - K" and "{unat buffer ..< unat buffer + unat sz} \<subseteq> payload B" and "unat buffer + unat sz \<le> 2 ^ 32"
    and "unat offset < 512" and "unat offset + unat sz \<le> 512"
  shows "yields (read_fat32 env node offset sz buffer s) (\<lambda>(v, s'). v = 0
    \<and> bytes_at (ram s') buffer (unat sz) = take (unat sz) (drop (unat offset) (cluster_bytes V (first_cluster_of e)))
    \<and> kept (heap_of env) (name_buffer env) (L - {B}) (ram s) (ram s')
    \<and> (\<exists>(q :: addr) k. (unat q, k) \<notin> L \<and> ide_fat io view master p env lbdev bs V K (insert (unat q, k) L) s'))"
proof -
  from assms(1) obtain name devid n where fat: "fat_mounted (ide_block_device io name devid n p) (2 ^ 28) (in_region p 4)
     (ide_ok io view master p) (ide_sector view master) env lbdev bs V K L s" by (auto simp: ide_fat_def)
  from ide.read_fat32_runs [OF assms(5) entry_not_root [OF assms(5)] fat assms(2,3,4,6-14)] show ?thesis
    by (rule yields_mono) (simp only: split_paired_all prod.case, meson ide_fat_device)
qed

section \<open>A small volume\<close>

text \<open>
  One reserved sector, one table of one sector; the root directory is cluster 2 and holds the file \<^verbatim>\<open>A\<close>, whose
  first cluster is 3 and starts with the bytes 1 to 4.
\<close>

definition tiny_disk :: "bool \<Rightarrow> u32 \<Rightarrow> u16 list" where
  "tiny_disk master l =
     (if l = 2 then [0x2041, 0x2020, 0x2020, 0x2020, 0x2020, 0x2020, 0, 0, 0, 0, 0, 0, 0, 3, 4, 0] @ replicate 240 0
      else if l = 3 then [0x0201, 0x0403] @ replicate 254 0 else replicate 256 0)"

definition tiny_drive :: ata where "tiny_drive = blank_drive\<lparr>disk := tiny_disk\<rparr>"

definition tiny_lbdev :: "ata logical_block_device" where
  "tiny_lbdev = \<lparr>lb_device_id = 0, lb_device_name = [], parent = Some (ide_block_device demo_drive [] 0 100 0x1220), lb_flags = 0,
     lba_offset = 0, lb_num_blocks = 100, lb_type = 0, local_id = 0\<rparr>"

definition tiny_env :: "ata kenv" where
  "tiny_env = demo_env\<lparr>literal := (\<lambda>str. if str = ''/'' then 0x340 else if str = ''.          '' then 0x300 else 0x320),
     local := (\<lambda>_. 0x100), lbdev_at := (\<lambda>_. tiny_lbdev)\<rparr>"

text \<open>The boot sector at \<open>0x1010\<close>, the driver's data at \<open>0x1220\<close>, the root node at \<open>0x1234\<close>, whose path serves as the path to open, the buffer at \<open>0x12FC\<close>.\<close>

definition tiny_ram :: "mem \<Rightarrow> mem" where
  "tiny_ram m a =
     (if a < 0x1000 then put_bytes (put_bytes (put_bytes (\<lambda>_. 0) 0x300 (ascii ''.          '')) 0x320 (ascii ''..         '')) 0x340 [0x2F] a
      else if 0x1010 \<le> a \<and> a < 0x1210 then
        if a = 0x101C \<or> a = 0x103C then 2 else if a \<in> {0x101D, 0x101E, 0x1020, 0x1034} then 1 else 0
      else if a = 0x1220 then 0xF0 else if a = 0x1221 then 1 else if a \<in> {0x1222, 0x1223} then 0
      else if 0x1234 \<le> a \<and> a < 0x12EC then
        if a = 0x1234 then 0x41 else if a = 0x12D5 then 0x60 else if a = 0x12E8 \<or> a = 0x12E9 then 0x10 else 0
      else m a)"

definition tiny_view :: fat_view where
  "tiny_view = \<lparr>cluster_bytes = ide_sector (\<lambda>d. d) True tiny_drive,
     next_cluster = (\<lambda>c. ucast (ide_sector (\<lambda>d. d) True tiny_drive 1 ! unat (c * 4 mod 512))), readable = (\<lambda>c. c \<in> {2, 3})\<rparr>"

definition tiny_state :: "mem \<Rightarrow> ata kstate" where
  "tiny_state m = \<lparr>ram = tiny_ram m, hw = tiny_drive, olds = 0, console = demo_tty, fs_root = 0x1234\<rparr>"

abbreviation tiny_blocks :: "(nat \<times> nat) set" where
  "tiny_blocks \<equiv> {(0x1010, 512), (0x1220, 4), (0x1234, 184), (0x12FC, 16)}"

lemma tiny_heap: "\<exists>m. heap_inv small_heap_allocator (tiny_ram m) tiny_blocks"
proof -
  let ?b = "0x1000 :: nat"
  have step: "\<exists>m'. heap_wf m' 0x1000 bs'" if "heap_wf m 0x1000 bs" "alloc_blocks (unat n) bs = Some (off, bs')" for m bs off bs' and n :: u32
    using allocate_first_fit [of m small_heap_allocator bs n] that by (auto simp: small_heap_allocator_def)
  have "heap_wf (small_heap False) 0x1000 [(0xFF0, False)]" using small_heap_wf [of False] by (simp add: small_heap_allocator_def)
  from step [OF this, of 512] obtain m1 where "heap_wf m1 0x1000 [(512, True), (3552, False)]" by (auto simp: fits_def split_block_def)
  from step [OF this, of 4] obtain m2 where "heap_wf m2 0x1000 [(512, True), (4, True), (3532, False)]"
    by (auto simp: fits_def split_block_def)
  from step [OF this, of 184] obtain m3 where "heap_wf m3 0x1000 [(512, True), (4, True), (184, True), (3332, False)]"
    by (auto simp: fits_def split_block_def)
  from step [OF this, of 16] obtain m where wf: "heap_wf m 0x1000 [(512, True), (4, True), (184, True), (16, True), (3300, False)]"
    by (auto simp: fits_def split_block_def)
  have "heap_wf (tiny_ram m) 0x1000 [(512, True), (4, True), (184, True), (16, True), (3300, False)]"
  proof (rule heap_wf_cong [OF wf])
    fix a :: addr assume "unat a \<in> header_bytes 0x1000 [(512, True), (4, True), (184, True), (16, True), (3300, False)]"
    then have "0x1000 \<le> a \<and> a < 0x1010 \<or> 0x1210 \<le> a \<and> a < 0x1220 \<or> 0x1224 \<le> a \<and> a < 0x1234 \<or> 0x12EC \<le> a \<and> a < 0x12FC
        \<or> 0x130C \<le> a" by (auto simp: word_le_nat_alt word_less_nat_alt)
    then show "tiny_ram m a = m a" by (auto simp: tiny_ram_def word_le_nat_alt word_less_nat_alt)
  qed
  then show ?thesis
    by (auto simp: heap_inv_def small_heap_allocator_def intro!: exI [of _ m] exI [of _ "[(512, True), (4, True), (184, True), (16, True), (3300, False)]"])
qed

lemma tiny_mem [simp]:
  "bytes_per_sector (tiny_ram m) 0x1010 = 512" "sectors_per_cluster (tiny_ram m) 0x1010 = 1"
  "reserved_sector_count (tiny_ram m) 0x1010 = 1" "num_FATs (tiny_ram m) 0x1010 = 1" "FAT_size_16 (tiny_ram m) 0x1010 = 0"
  "FAT_size_32 (tiny_ram m) 0x1010 = 1" "root_cluster (tiny_ram m) 0x1010 = 2"
  "ide_bus (tiny_ram m) 0x1220 = 0x1F0" "ide_flags (tiny_ram m) 0x1220 = 0" "node_private (tiny_ram m) 0x1234 = 0x1010"
  "node_open (tiny_ram m) 0x1234 = 0x6000"
  by (simp_all add: bytes_per_sector_def sectors_per_cluster_def reserved_sector_count_def num_FATs_def FAT_size_16_def FAT_size_32_def
      root_cluster_def ide_bus_def ide_flags_def node_private_def node_open_def load16_def load32_def tiny_ram_def)

lemma tiny_text: "text_in (tiny_ram m) (0x1234, 184) 0x1234 [0x41]"
  by (auto simp: text_in_def cstring_def tiny_ram_def payload_def)

lemma tiny_literal: "a < 0x1000 \<Longrightarrow> tiny_ram m a = put_bytes (put_bytes (put_bytes (\<lambda>_. 0) 0x300 (ascii ''.          '')) 0x320 (ascii ''..         '')) 0x340 [0x2F] a"
  by (simp add: tiny_ram_def)

lemma tiny_slash: "slash_fits tiny_env (tiny_ram m)"
proof -
  have "disjoint_regions 0x100 256 (0x340 :: addr) 2" by (rule disjoint_regions_nat) simp_all
  then show ?thesis
    by (simp add: slash_fits_def tiny_env_def name_buffer_def cstring_def tiny_literal demo_env_def small_heap_allocator_def
      ascii_def)
qed

lemma tiny_names: "names_fit tiny_env (tiny_ram m)"
proof -
  have "disjoint_regions 0x100 256 (0x300 :: addr) 12" "disjoint_regions 0x100 256 (0x320 :: addr) 12" by (rule disjoint_regions_nat; simp)+
  then show ?thesis
    by (simp add: names_fit_def dot_literals_def tiny_env_def name_buffer_def tiny_literal demo_env_def small_heap_allocator_def
      ascii_def)
qed

lemma tiny_sectors: "ide_sector (\<lambda>d. d) True tiny_drive l = concat (map word_bytes (tiny_disk True l))"
  by (simp add: ide_sector_def tiny_drive_def)

lemma tiny_lba: "cluster_lba (tiny_ram m) 0x1010 c = c" "c \<in> {2, 3} \<Longrightarrow> fat_lba (tiny_ram m) 0x1010 c = 1"
  by (auto simp: cluster_lba_def fat_lba_def)

lemma tiny_represents: "fat_represents (ide_sector (\<lambda>d. d) True tiny_drive) (2 ^ 28) (tiny_ram m) 0x1010 0 tiny_view"
  by (auto simp: fat_represents_def tiny_lba tiny_view_def)

lemma tiny_mounted:
  assumes "heap_inv small_heap_allocator (tiny_ram m) tiny_blocks"
  shows "ide_fat demo_drive (\<lambda>d. d) True 0x1220 tiny_env tiny_lbdev 0x1010 tiny_view {(0x1010, 512), (0x1220, 4)} tiny_blocks (tiny_state m)"
proof (rule ide_fat_device [of _ "[]" 0 100])
  have "unat a \<in> payload (0x1220, 4)" if "in_region 0x1220 4 a" for a
    using that by (subst (asm) in_region_nat) (auto simp: payload_def)
  moreover have "ide_ok demo_drive (\<lambda>d. d) True 0x1220 (tiny_ram m) tiny_drive"
    using demo_drive_ata by (simp add: ide_ok_def tiny_drive_def tiny_disk_def)
  moreover have "heap_of tiny_env = small_heap_allocator" by (simp add: tiny_env_def demo_env_def)
  ultimately show "fat_mounted (ide_block_device demo_drive [] 0 100 0x1220) (2 ^ 28) (in_region 0x1220 4)
     (ide_ok demo_drive (\<lambda>d. d) True 0x1220) (ide_sector (\<lambda>d. d) True) tiny_env tiny_lbdev 0x1010 tiny_view
     {(0x1010, 512), (0x1220, 4)} tiny_blocks (tiny_state m)"
    using assms tiny_names tiny_represents by (auto simp: fat_mounted_def tiny_state_def tiny_lbdev_def)
qed

definition tiny_entry :: "u8 list" where
  "tiny_entry = concat (map word_bytes [0x2041, 0x2020, 0x2020, 0x2020, 0x2020, 0x2020, 0, 0, 0, 0, 0, 0, 0, 3, 4, 0])"

lemma tiny_root: "dir_walk tiny_view [0x41] 2 (Some tiny_entry)"
proof (rule walk_found)
  let ?es = "entries_of (cluster_bytes tiny_view 2)"
  have "cluster_bytes tiny_view 2 = tiny_entry @ concat (map word_bytes (replicate 240 0))"
    by (simp add: tiny_view_def tiny_sectors tiny_disk_def tiny_entry_def)
  moreover have "length tiny_entry = 32" by (simp add: tiny_entry_def word_bytes_def)
  ultimately have e: "?es ! 0 = tiny_entry" by (simp add: entries_of_def)
  have "entry_text ?es 0 = [0x41]"
    by (simp add: entry_text_def short_text_def e tiny_entry_def word_bytes_def trim_name_def)
  moreover have "tiny_entry ! 0 = 0x41" "\<not> long_entry tiny_entry"
    by (simp_all add: tiny_entry_def word_bytes_def long_entry_def attr_defs)
  ultimately show "found_in [0x41] ?es [0..<16] = Found tiny_entry"
    by (simp add: upt_conv_Cons found_in_Cons entry_matches_def e)
qed (simp_all add: tiny_view_def)

lemma tiny_resolves: "resolves tiny_view (words [0x2F] [0x41]) 2 Root (Entry tiny_entry)"
proof -
  have "words [0x2F] [0x41] = [[0x41 :: u8]]" by code_simp
  then show ?thesis using tiny_root by (auto intro: res_entry res_end)
qed


lemma read_fat32_first_cluster_witness:
  "\<exists>m. yields (read_fat32 tiny_env 0x1234 1 3 0x12FC (tiny_state m))
     (\<lambda>(v, s'). v = 0 \<and> bytes_at (ram s') 0x12FC 3 = [2, 3, 4])"
proof -
  from tiny_heap obtain m where m: "heap_inv small_heap_allocator (tiny_ram m) tiny_blocks" ..
  have [simp]: "ram (tiny_state m) = tiny_ram m" by (simp add: tiny_state_def)
  have c: "first_cluster_of tiny_entry = 3" by (simp add: first_cluster_of_def tiny_entry_def word_bytes_def)
  have "take 3 (drop 1 (cluster_bytes tiny_view 3)) = [2, 3, 4]"
    by (simp add: tiny_view_def tiny_sectors tiny_disk_def word_bytes_def)
  moreover have "lbdev_at tiny_env q = tiny_lbdev" for q by (simp add: tiny_env_def)
  ultimately show ?thesis
    using read_fat32_first_cluster [OF tiny_mounted [OF m], where C = "(0x1234, 184)" and node = "0x1234" and cs = "[0x41]"
      and e = tiny_entry and B = "(0x12FC, 16)" and buffer = "0x12FC" and sz = 3 and offset = 1]
      tiny_slash tiny_text tiny_resolves c
    by (auto elim!: yields_mono simp: tiny_view_def payload_def)
qed

end
