(* ===== verification/Fat32_Open.thy ===== *)
theory Fat32_Open
  imports Fat32_File Vfs
begin

text \<open>
  Opening a file by its path, and reading it through the virtual file system: \<open>open_fat32\<close> fills a node from
  the directory entry, and what \<open>read_fs\<close> returns for this node are the bytes of the file on the disk.
\<close>

section \<open>A node\<close>

definition directory :: "u8 list \<Rightarrow> bool" where
  "directory e \<longleftrightarrow> e ! 11 AND ATTR_DIRECTORY = ATTR_DIRECTORY"

definition size_of :: "u8 list \<Rightarrow> u32" where
  "size_of e = ucast (e ! 28) OR push_bit 8 (ucast (e ! 29)) OR push_bit 16 (ucast (e ! 30)) OR push_bit 24 (ucast (e ! 31))"

text \<open>The node at \<open>node\<close> for the path \<open>cs\<close> with the directory entry \<open>e\<close>.\<close>

definition opened_node :: "'d kenv \<Rightarrow> mem \<Rightarrow> addr \<Rightarrow> u8 list \<Rightarrow> u8 list \<Rightarrow> addr \<Rightarrow> addr \<Rightarrow> bool" where
  "opened_node env m node cs e lb bs \<longleftrightarrow> cstr m node cs \<and> node_lbdev m node = lb \<and> node_private m node = bs
     \<and> node_open m node = link env ''open_fat32'' \<and> node_close m node = link env ''close_fat32''
     \<and> (if directory e
        then node_flags m node = FS_DIRECTORY \<and> node_mask m node = entry_mask (e ! 11) \<and> node_filesize m node = 0
           \<and> node_read m node = 0 \<and> node_write m node = 0
           \<and> node_readdir m node = link env ''readdir_fat32'' \<and> node_finddir m node = link env ''finddir_fat32''
        else node_flags m node = FS_FILE \<and> node_mask m node = entry_mask (e ! 11) OR MASK_EXECUTE \<and> node_filesize m node = size_of e
           \<and> node_read m node = link env ''read_fat32'' \<and> node_write m node = link env ''write_fat32''
           \<and> node_readdir m node = 0 \<and> node_finddir m node = 0)"

text \<open>The fields behind the path are stored in the bytes 128 to 183 of the node.\<close>

lemma node_part: "unat (c - 128) + n \<le> 56 \<Longrightarrow> in_region (node + c) n a \<Longrightarrow> in_region (node + 128) 56 a"
proof -
  assume c: "unat (c - 128) + n \<le> 56" and a: "in_region (node + c) n a"
  have "a - (node + 128) = (a - (node + c)) + (c - 128)" by simp
  then have "unat (a - (node + 128)) \<le> unat (a - (node + c)) + unat (c - 128)" by (simp only: unat_word_ariths mod_less_eq_dividend)
  with c a show ?thesis by (simp add: in_region_def)
qed

lemma node_store:
  "same_outside (node + 128) 56 m m' \<Longrightarrow> unat (c - 128) + 4 \<le> 56 \<Longrightarrow> same_outside (node + 128) 56 m (store32 m' (node + c) v)"
  "same_outside (node + 128) 56 m m' \<Longrightarrow> unat (c - 128) + 2 \<le> 56 \<Longrightarrow> same_outside (node + 128) 56 m (store16 m' (node + c) w)"
  unfolding same_outside_def using node_part store32_outside store16_outside by metis+

lemma node_functions_outside: "same_outside (node + 128) 56 m (node_functions env node is_dir lb bs m)"
  by (simp add: node_functions_def Let_def node_store)

lemma node_attributes_outside: "same_outside (node + 128) 56 m (node_attributes node is_dir d m)"
  by (simp add: node_attributes_def Let_def node_store)

lemma node_functions_more:
  "node_open (node_functions env node is_dir lb bs m) node = link env ''open_fat32''"
  "node_lbdev (node_functions env node is_dir lb bs m) node = lb"
  "node_private (node_functions env node is_dir lb bs m) node = bs"
  "node_filesize (node_functions env node is_dir lb bs m) node = node_filesize m node"
  by (simp_all add: node_functions_def node_fields Let_def load32_store32_apart)

lemma node_attributes_more:
  "node_open (node_attributes node is_dir d m) node = node_open m node"
  "node_lbdev (node_attributes node is_dir d m) node = node_lbdev m node"
  "node_private (node_attributes node is_dir d m) node = node_private m node"
  by (simp_all add: node_attributes_def node_fields Let_def load32_store32_apart load32_store16_apart)

text \<open>What is copied from the directory entry, which lies elsewhere.\<close>

lemma entry_loads:
  assumes "bytes_at m d 32 = e" "same_outside (node + 128) 56 m m'" "disjoint_regions node 184 d 32"
  shows "entry_attr m' d = e ! 11" "load32 m' (d + 28) = size_of e"
proof -
  have same: "m' (d + of_nat i) = e ! i" if "i < 32" for i
  proof -
    have "in_region d 32 (d + of_nat i)" using that by (subst in_region_offset) auto
    then have "\<not> in_region node 184 (d + of_nat i)" using disjoint_regionsD [OF disjoint_regions_sym [OF assms(3)]] by blast
    then have "\<not> in_region (node + 128) 56 (d + of_nat i)" using sub_region [of node 128 56 _ 184] by auto
    then show ?thesis using assms(1,2) that by (auto simp: same_outside_def)
  qed
  show "entry_attr m' d = e ! 11" using same [of 11] by (simp add: entry_attr_def)
  show "load32 m' (d + 28) = size_of e"
    using same [of 28] same [of 29] same [of 30] same [of 31] by (simp add: load32_def size_of_def add.assoc)
qed

lemma node_attributes_entry:
  assumes "bytes_at m d 32 = e" "disjoint_regions node 184 d 32"
  shows "node_mask (node_attributes node is_dir d m) node = entry_mask (e ! 11) OR (if is_dir then 0 else MASK_EXECUTE)"
    "node_filesize (node_attributes node is_dir d m) node = (if is_dir then node_filesize m node else size_of e)"
proof -
  note E = entry_loads [OF assms(1) _ assms(2)]
  show "node_mask (node_attributes node is_dir d m) node = entry_mask (e ! 11) OR (if is_dir then 0 else MASK_EXECUTE)"
    by (simp add: node_attributes_def node_fields Let_def load32_store32_apart load32_store16_apart E node_store)
  show "node_filesize (node_attributes node is_dir d m) node = (if is_dir then node_filesize m node else size_of e)"
    by (simp add: node_attributes_def node_fields Let_def load32_store32_apart load32_store16_apart E node_store)
qed

text \<open>A node that was new, after the assignments.\<close>

lemma node_filled:
  fixes env :: "'d kenv" and lb bs :: addr
  assumes e: "bytes_at m d 32 = e" "disjoint_regions node 184 d 32" and z: "\<And>i. 128 \<le> i \<Longrightarrow> i < 184 \<Longrightarrow> m (node + of_nat i) = 0"
    and path: "cstr m node cs" "length cs < 128"
  defines "m' \<equiv> node_attributes node (directory e) d (node_functions env node (directory e) lb bs m)"
  shows "opened_node env m' node cs e lb bs" "same_outside (node + 128) 56 m m'"
proof -
  let ?m1 = "node_functions env node (directory e) lb bs m"
  show outside: "same_outside (node + 128) 56 m m'"
    unfolding m'_def using node_functions_outside node_attributes_outside by (rule same_outside_trans)
  have "load32 m (node + of_nat i) = 0" if "128 \<le> i" "i + 3 < 184" for i
    using z [of i] z [of "i + 1"] z [of "i + 2"] z [of "i + 3"] that by (simp add: load32_def algebra_simps)
  from this [of 128] this [of 148] this [of 152] this [of 156] this [of 168] this [of 172]
  have zero: "node_filesize m node = 0" "node_flags m node = 0" "node_read m node = 0" "node_write m node = 0"
    "node_readdir m node = 0" "node_finddir m node = 0" by (simp_all add: node_fields)
  have "cstr m' node cs"
  proof (rule cstr_cong [OF path(1)])
    fix i assume "i \<le> length cs"
    then have "node + of_nat i - (node + 128) = of_nat i - (128 :: u32)" "i < 128" using path(2) by simp_all
    then have "\<not> in_region (node + 128) 56 (node + of_nat i)"
      by (simp add: in_region_def unat_sub_if_size unat_of_nat32 size_word.rep_eq)
    then show "m' (node + of_nat i) = m (node + of_nat i)" using outside by (simp add: same_outside_def)
  qed
  moreover have "bytes_at ?m1 d 32 = e"
  proof -
    have "?m1 a = m a" if "in_region d 32 a" for a
      using disjoint_regionsD [OF disjoint_regions_sym [OF e(2)] that] sub_region [of node 128 56 a 184]
        node_functions_outside [of node m env "directory e" lb bs] by (auto simp: same_outside_def)
    then have "bytes_at ?m1 d 32 = bytes_at m d 32" by (intro bytes_at_cong) simp_all
    then show ?thesis using e(1) by simp
  qed
  note node_attributes_entry [OF this e(2), where is_dir = "directory e"]
  ultimately show "opened_node env m' node cs e lb bs"
    by (cases "directory e") (simp_all add: opened_node_def m'_def node_attributes_fields node_functions_fields node_attributes_more node_functions_more zero
        FS_DIRECTORY_def FS_FILE_def)
qed

section \<open>A new node\<close>

lemma new_node_runs:
  fixes s :: "'d kstate"
  assumes P: "heap_inv (heap_of env) (ram s) L" "C \<in> L" and path: "text_in (ram s) C path cs" and len: "length cs < 128"
  shows "yields (new_node env path s) (\<lambda>(q, s'). only_ram s s' \<and> q \<noteq> NULL \<and> unchanged (heap_of env) L (ram s) (ram s')
    \<and> cstr (ram s') q cs \<and> (\<forall>i. 128 \<le> i \<and> i < 184 \<longrightarrow> ram s' (q + of_nat i) = 0)
    \<and> (\<exists>k \<ge> 184. (unat q, k) \<notin> L \<and> heap_inv (heap_of env) (ram s') (insert (unat q, k) L)))"
proof -
  let ?h = "heap_of env"
  define fill :: "addr \<times> 'd kstate \<Rightarrow> (addr \<times> 'd kstate) run" where "fill = (\<lambda>(node, s). rbind (copy_to node path (s\<lparr>ram := memset (ram s) node 0 sizeof_fs_node\<rparr>))
    (\<lambda>s. Some (Ret (node, s))))"
  let ?post = "\<lambda>(q, s'). only_ram s s' \<and> q \<noteq> NULL \<and> unchanged ?h L (ram s) (ram s')
    \<and> cstr (ram s') q cs \<and> (\<forall>i. 128 \<le> i \<and> i < 184 \<longrightarrow> ram s' (q + of_nat i) = 0)
    \<and> (\<exists>k \<ge> 184. (unat q, k) \<notin> L \<and> heap_inv ?h (ram s') (insert (unat q, k) L))"
  have "yields (fill (q, s1)) ?post" if A: "only_ram s s1" "q \<noteq> NULL" "unchanged ?h L (ram s) (ram s1)" "184 \<le> k"
    "(unat q, k) \<notin> L" "heap_inv ?h (ram s1) (insert (unat q, k) L)" for q s1 k
  proof -
    let ?Q = "(unat q, k)" and ?m2 = "memset (ram s1) q 0 sizeof_fs_node"
    let ?m3 = "put_bytes ?m2 q (cs @ [0])"
    have in_q: "unat a \<in> payload ?Q" if "in_region q 184 a" for a using block_region [OF A(6) insertI1 A(4) that] .
    have o2: "same_outside q 184 (ram s1) ?m2" using memset_same_outside [of q sizeof_fs_node "ram s1" 0] by (simp add: sizeof_fs_node_def)
    have o3: "same_outside q 184 ?m2 ?m3" using len by (intro put_bytes_same_outside) simp_all
    have U: "heap_inv ?h m (insert ?Q L) \<and> unchanged ?h L (ram s1) m" if "same_outside q 184 (ram s1) m" for m
    proof -
      have "unat x \<in> payload ?Q" if "m x \<noteq> ram s1 x" for x using in_q that \<open>same_outside q 184 (ram s1) m\<close> by (auto simp: same_outside_def)
      from unchanged_heap [OF A(6) insertI1 this] A(5) show ?thesis by simp
    qed
    have U2: "unchanged ?h L (ram s) ?m2" and U3: "unchanged ?h L (ram s) ?m3"
      using unchanged_chain [OF A(3)] U [OF o2] U [OF same_outside_trans [OF o2 o3]] by blast+
    have t2: "text_in ?m2 C path cs" by (rule text_in_keep [OF path unchanged_mono [OF U2]]) (use P(2) in simp)
    have "disjoint_regions q (Suc (length cs)) path (Suc (length cs))"
      unfolding disjoint_regions_def
    proof (intro allI notI, elim conjE)
      fix a assume a: "in_region q (Suc (length cs)) a" "in_region path (Suc (length cs)) a"
      then have "unat a \<in> payload ?Q" using len by (intro in_q) (simp add: in_region_def)
      moreover have "unat path + Suc (length cs) \<le> 2 ^ 32" using path by (simp add: text_in_def cstring_def)
      from in_region_nat [OF this] a(2) have "unat a \<in> payload C" using path by (auto simp: text_in_def)
      ultimately show False using heap_inv_apart [OF A(6), of ?Q C] A(5) P(2) by auto
    qed
    then have "strcpy ?m2 q path = Some ?m3"
      using t2 len by (simp add: text_in_def cstring_def strcpy_cstr)
    then have run: "fill (q, s1) = Some (Ret (q, s1\<lparr>ram := ?m3\<rparr>))" by (simp add: fill_def copy_to_def returning_def)
    have "cstr ?m3 q cs" using cstr_no_nul [of ?m2 path cs] t2 len by (intro put_bytes_cstr) (simp_all add: text_in_def cstring_def)
    moreover have "?m3 (q + of_nat i) = 0" if "128 \<le> i" "i < 184" for i
      using that len by (simp add: put_bytes_nth unat_of_nat32 memset_eq sizeof_fs_node_def word_less_nat_alt)
    moreover have "only_ram s (s1\<lparr>ram := ?m3\<rparr>)" using A(1) by (rule only_ram_upd)
    ultimately show ?thesis using A(2,4,5) U3 U [OF same_outside_trans [OF o2 o3]] unfolding run by auto
  qed
  note fill_runs = this
  have run: "new_node env path s = rbind (alloc env sizeof_fs_node s) fill" by (simp add: new_node_def fill_def)
  show ?thesis
    unfolding run by (rule yields_bind [OF alloc_runs [OF P(1)]]) (use fill_runs in \<open>auto simp: sizeof_fs_node_def\<close>)
qed

section \<open>Opening a path\<close>

text \<open>What \<open>open_fat32\<close> returns: the root node, nothing, or a new node next to the copy of the directory entry.\<close>

fun open_result ::
  "((nat \<times> nat) set \<Rightarrow> 'd kstate \<Rightarrow> bool) \<Rightarrow> (nat \<times> nat) set \<Rightarrow> 'd kenv \<Rightarrow> u8 list \<Rightarrow> addr \<Rightarrow> addr \<Rightarrow> target \<Rightarrow> addr \<Rightarrow> 'd kstate \<Rightarrow> bool" where
  "open_result M L env cs lb bs Root p s \<longleftrightarrow> p = fs_root s \<and> M L s"
| "open_result M L env cs lb bs Missing p s \<longleftrightarrow> p = NULL \<and> M L s"
| "open_result M L env cs lb bs (Entry e) p s \<longleftrightarrow> p \<noteq> NULL \<and> opened_node env (ram s) p cs e lb bs
     \<and> (\<exists>(q :: addr) j k. 184 \<le> k \<and> (unat p, k) \<notin> L \<and> (unat q, j) \<notin> L \<and> (unat p, k) \<noteq> (unat q, j)
          \<and> M (insert (unat p, k) (insert (unat q, j) L)) s)"

lemma root_fields_kept:
  assumes "(unat root, k) \<in> L" "184 \<le> k" "heap_inv h m0 L0" "(unat root, k) \<in> L0" "kept h f L m m'"
  shows "node_private m' root = node_private m root" "node_lbdev m' root = node_lbdev m root" "node_open m' root = node_open m root"
proof -
  have "m' a = m a" if "in_region root 184 a" for a
    using block_region [OF assms(3,4,2) that] assms(1,5) by (auto simp: kept_def)
  then have "load32 m' (root + of_nat i) = load32 m (root + of_nat i)" if "i + 4 \<le> 184" for i
    using sub_region [of root i 4 _ 184] that by (intro load32_cong) auto
  from this [of 180] this [of 176] this [of 160] show "node_private m' root = node_private m root"
    "node_lbdev m' root = node_lbdev m root" "node_open m' root = node_open m root" by (simp_all add: node_fields)
qed

context block_store
begin

text \<open>The node for an entry that was found, whose copy lies at \<open>d\<close>.\<close>

lemma entry_node_runs:
  assumes s: "mounted env lbdev bs V K (insert (unat d, j) L) s" and d: "bytes_at (ram s) d 32 = e" "32 \<le> j" "(unat d, j) \<notin> L"
    and path: "text_in (ram s) C path cs" "C \<in> L" "length cs < 128" and KL: "K \<subseteq> L"
    and root: "(unat root, kr) \<in> L" "184 \<le> kr" "node_lbdev (ram s) root = lb" "node_private (ram s) root = bs"
  shows "yields (rbind (new_node env path s) (\<lambda>(node, s).
       Some (Ret (node, s\<lparr>ram := node_attributes node (directory e) d
         (node_functions env node (directory e) (node_lbdev (ram s) root) (node_private (ram s) root) (ram s))\<rparr>))))
    (\<lambda>(p, s'). only_ram s s' \<and> kept (heap_of env) (name_buffer env) L (ram s) (ram s')
      \<and> open_result (mounted env lbdev bs V K) L env cs lb bs (Entry e) p s')"
proof -
  let ?h = "heap_of env" and ?F = "name_buffer env" and ?D = "(unat d, j)" and ?L = "insert (unat d, j) L"
  have inv: "heap_inv ?h (ram s) ?L" using s by (simp add: fat_mounted_def)
  have C: "C \<in> ?L" using path(2) by simp
  show ?thesis
  proof (rule yields_bind [OF new_node_runs [OF inv C path(1,3)]], simp only: split_paired_all prod.case, elim conjE exE)
    fix p :: addr and s1 k
    assume A: "only_ram s s1" "p \<noteq> NULL" "unchanged ?h ?L (ram s) (ram s1)" "cstr (ram s1) p cs"
      "\<forall>i. 128 \<le> i \<and> i < 184 \<longrightarrow> ram s1 (p + of_nat i) = 0" "184 \<le> k" "(unat p, k) \<notin> ?L" "heap_inv ?h (ram s1) (insert (unat p, k) ?L)"
    let ?P = "(unat p, k)" and ?m = "node_attributes p (directory e) d (node_functions env p (directory e) lb bs (ram s1))"
    let ?s = "s1\<lparr>ram := ?m\<rparr>"
    have in_p: "unat a \<in> payload ?P" if "in_region p 184 a" for a using block_region [OF A(8) insertI1 A(6) that] .
    have in_d: "unat a \<in> payload ?D" if "in_region d 32 a" for a using block_region [OF inv insertI1 d(2) that] .
    have "payload ?P \<inter> payload ?D = {}" using A(7) by (intro heap_inv_apart [OF A(8)]) auto
    with in_p in_d have dj: "disjoint_regions p 184 d 32" unfolding disjoint_regions_def by blast
    have "bytes_at (ram s1) d 32 = e"
      using kept_block [OF insertI1 d(2) inv insertI1 unchanged_kept [OF A(3) order_refl]] d(1) by simp
    note F = node_filled [OF this dj _ A(4) path(3), of env lb bs]
    have F1: "opened_node env ?m p cs e lb bs" and F2: "same_outside (p + 128) 56 (ram s1) ?m" using F A(5) by auto
    have "unat x \<in> payload ?P" if "?m x \<noteq> ram s1 x" for x
      using that F2 in_p sub_region [of p 128 56 x 184] by (auto simp: same_outside_def)
    note U = unchanged_heap [OF A(8) insertI1 this]
    have k: "kept ?h ?F ?L (ram s) ?m"
      by (rule kept_trans [OF unchanged_kept [OF A(3) order_refl] unchanged_kept [OF U(2)]]) (use A(7) in auto)
    have "mounted env lbdev bs V K (insert ?P ?L) ?s"
      using KL U(1) kept_mono [OF k, of K] only_ram_hw [OF A(1)] by (intro mounted_frame [OF s]) auto
    moreover have "kept ?h ?F L (ram s) ?m" using k by (rule kept_mono) auto
    moreover have "?P \<notin> L" "?P \<noteq> ?D" using A(7) by auto
    moreover have "node_lbdev (ram s1) root = lb" "node_private (ram s1) root = bs"
      using root_fields_kept [OF _ root(2) inv _ unchanged_kept [OF A(3) order_refl]] root(1,3,4) by simp_all
    ultimately show "yields (Some (Ret (p, s1\<lparr>ram := node_attributes p (directory e) d
         (node_functions env p (directory e) (node_lbdev (ram s1) root) (node_private (ram s1) root) (ram s1))\<rparr>))) (\<lambda>(p, s'). only_ram s s' \<and> kept ?h ?F L (ram s) (ram s')
      \<and> open_result (mounted env lbdev bs V K) L env cs lb bs (Entry e) p s')"
      using A(1,2,6) d(3) F1 by (auto intro: only_ram_upd)
  qed
qed

lemma open_fat32_runs:
  assumes res: "resolves V (words [0x2F] cs) (root_cluster (ram s) bs) Root t"
    and s: "mounted env lbdev bs V K L s" and sl: "slash_fits env (ram s)" and path: "text_in (ram s) C path cs" "C \<in> L" "length cs < 128"
    and root: "(unat (fs_root s), kr) \<in> L" "184 \<le> kr" "node_private (ram s) (fs_root s) = bs"
      "lbdev_at env (node_lbdev (ram s) (fs_root s)) = lbdev"
  shows "yields (open_fat32 env path s) (\<lambda>(p, s'). fs_step s s' \<and> kept (heap_of env) (name_buffer env) L (ram s) (ram s')
    \<and> open_result (mounted env lbdev bs V K) L env cs (node_lbdev (ram s) (fs_root s)) bs t p s')"
proof -
  let ?h = "heap_of env" and ?F = "name_buffer env" and ?M = "mounted env lbdev bs V K" and ?r = "fs_root s"
  let ?lb = "node_lbdev (ram s) ?r"
  have S: "heap_inv ?h (ram s) L" "K \<subseteq> L" using s by (auto simp: fat_mounted_def)
  define node where "node = (\<lambda>d s. rbind (new_node env path s) (\<lambda>(node, s2).
       Some (Ret (node, s2\<lparr>ram := node_attributes node (entry_attr (ram s) d AND ATTR_DIRECTORY = ATTR_DIRECTORY) d
         (node_functions env node (entry_attr (ram s) d AND ATTR_DIRECTORY = ATTR_DIRECTORY)
           (node_lbdev (ram s2) ?r) (node_private (ram s2) ?r) (ram s2))\<rparr>))))"
  have run: "open_fat32 env path s = rbind (direntry_from_path env path bs lbdev s) (\<lambda>(d, s).
      if d = 0 then Some (Ret (NULL, s)) else if d = 1 then Some (Ret (?r, s)) else node d s)"
    unfolding open_fat32_def root(3,4) Let_def node_def ..
  show ?thesis
    unfolding run
  proof (rule yields_bind [OF direntry_from_path_runs [OF res s sl path(1,2)]], simp only: split_paired_all prod.case, elim conjE)
    fix d :: addr and s1
    assume A: "fs_step s s1" "kept ?h ?F L (ram s) (ram s1)" "target_result ?M L t d s1"
    show "yields (if d = 0 then Some (Ret (NULL, s1)) else if d = 1 then Some (Ret (?r, s1)) else node d s1)
      (\<lambda>(p, s'). fs_step s s' \<and> kept ?h ?F L (ram s) (ram s') \<and> open_result ?M L env cs ?lb bs t p s')"
    proof (cases t)
      case (Entry e)
      with A(3) obtain j where D: "d \<noteq> NULL" "bytes_at (ram s1) d 32 = e" "32 \<le> j" "(unat d, j) \<notin> L" "?M (insert (unat d, j) L) s1"
        by auto
      have "unat (virtual_address ?h) \<le> unat d"
        using D(3,5) by (intro payload_above [of ?h "ram s1" "insert (unat d, j) L" "(unat d, j)"]) (auto simp: fat_mounted_def payload_def)
      then have "d \<noteq> 1" using D(5) by (auto simp: fat_mounted_def names_fit_def)
      have "entry_attr (ram s1) d = e ! 11" using D(2) by (auto simp: entry_attr_def)
      then have n: "node d s1 = rbind (new_node env path s1) (\<lambda>(node, s2).
         Some (Ret (node, s2\<lparr>ram := node_attributes node (directory e) d
           (node_functions env node (directory e) (node_lbdev (ram s2) ?r) (node_private (ram s2) ?r) (ram s2))\<rparr>)))"
        by (simp add: node_def directory_def)
      note R = root_fields_kept [OF root(1,2) S(1) root(1) A(2)]
      from entry_node_runs [OF D(5,2,3,4) kept_text [OF path(1,2) A(2)] path(2,3) S(2) root(1,2) R(2)] R(1) root(3)
      have "yields (node d s1) (\<lambda>(p, s'). only_ram s1 s' \<and> kept ?h ?F L (ram s1) (ram s')
          \<and> open_result ?M L env cs ?lb bs (Entry e) p s')" by (simp add: n)
      then show ?thesis
        using D(1) \<open>d \<noteq> 1\<close> Entry A(1) fs_step_trans [OF A(1)] kept_trans [OF A(2)] ram_hw_fs_step only_ram_hw
        by (fastforce simp: NULL_def elim!: yields_mono)
    qed (use A in \<open>auto simp: fs_step_def NULL_def\<close>)
  qed
qed

text \<open>Opening a file and reading it.\<close>

lemma open_then_read_runs:
  assumes res: "resolves V (words [0x2F] cs) (root_cluster (ram s) bs) Root (Entry e)" and plain: "\<not> directory e"
    and s: "mounted env lbdev bs V K L s" and sl: "slash_fits env (ram s)" and path: "text_in (ram s) C path cs" "C \<in> L" "length cs < 128"
    and root: "(unat (fs_root s), kr) \<in> L" "184 \<le> kr" "node_private (ram s) (fs_root s) = bs"
      "lbdev_at env (node_lbdev (ram s) (fs_root s)) = lbdev" "node_open (ram s) (fs_root s) = link env ''open_fat32''"
    and links: "link env ''open_fat32'' \<noteq> 0" "link env ''read_fat32'' \<noteq> 0"
    and c: "first_cluster_of e < 0x0FFFFFF8" "readable V (first_cluster_of e)"
    and buf: "B \<in> L - K" "{unat buffer ..< unat buffer + unat sz} \<subseteq> payload B" "unat buffer + unat sz \<le> 2 ^ 32"
    and part: "unat offset < 512" "unat offset + unat sz \<le> 512"
  shows "yields (rbind (open_fs env path s) (\<lambda>(node, s). read_fs env g node offset sz buffer s)) (\<lambda>(v, s'). v = 0 \<and> fs_step s s'
    \<and> bytes_at (ram s') buffer (unat sz) = take (unat sz) (drop (unat offset) (cluster_bytes V (first_cluster_of e)))
    \<and> kept (heap_of env) (name_buffer env) (L - {B}) (ram s) (ram s') \<and> (\<exists>L'. L \<subseteq> L' \<and> mounted env lbdev bs V K L' s'))"
proof -
  let ?h = "heap_of env" and ?F = "name_buffer env" and ?M = "mounted env lbdev bs V K"
  let ?post = "\<lambda>(v, s'). v = 0 \<and> fs_step s s'
    \<and> bytes_at (ram s') buffer (unat sz) = take (unat sz) (drop (unat offset) (cluster_bytes V (first_cluster_of e)))
    \<and> kept ?h ?F (L - {B}) (ram s) (ram s') \<and> (\<exists>L'. L \<subseteq> L' \<and> ?M L' s')"
  have KL: "K \<subseteq> L" using s by (simp add: fat_mounted_def)
  have opens: "open_fs env path s = open_fat32 env path s" using root(5) links(1) by (simp add: open_fs_def call_open_def)
  show ?thesis
    unfolding opens
  proof (rule yields_bind [OF open_fat32_runs [OF res s sl path root(1-4)]], simp only: split_paired_all prod.case open_result.simps,
      elim conjE exE)
    fix p q :: addr and s1 j k
    assume A: "fs_step s s1" "kept ?h ?F L (ram s) (ram s1)" "p \<noteq> NULL" "184 \<le> k" "(unat p, k) \<notin> L" "(unat q, j) \<notin> L"
      "opened_node env (ram s1) p cs e (node_lbdev (ram s) (fs_root s)) bs" "?M (insert (unat p, k) (insert (unat q, j) L)) s1"
    let ?L = "insert (unat p, k) (insert (unat q, j) L)"
    have N: "cstr (ram s1) p cs" "node_private (ram s1) p = bs" "lbdev_at env (node_lbdev (ram s1) p) = lbdev"
      "node_read (ram s1) p = link env ''read_fat32''" using A(7) plain root(4) by (simp_all add: opened_node_def)
    have "unat p + k \<le> 2 ^ 32" using heap_inv_bound(1) [of ?h "ram s1" ?L "unat p" k] A(8) by (simp add: fat_mounted_def)
    then have t: "text_in (ram s1) (unat p, k) p cs"
      using N(1) A(3,4) path(3) by (auto simp: text_in_def cstring_def payload_def NULL_def)
    have r: "resolves V (words [0x2F] cs) (root_cluster (ram s1) bs) Root (Entry e)"
      using res mounted_boot(1) [OF s kept_mono [OF A(2) KL]] by simp
    have B: "B \<in> ?L - K" using buf(1) by simp
    have "cs \<noteq> [0x2F]" using res by (rule entry_not_root)
    note read = read_fat32_runs [OF r this A(8) slash_fits_kept [OF sl A(2)] t insertI1 N(2,3) c B buf(2,3) part]
    have reads: "read_fs env g p offset sz buffer s1 = read_fat32 env p offset sz buffer s1"
      using N(4) links(2) by (simp add: read_fs_def call_read_def)
    show "yields (read_fs env g p offset sz buffer s1) ?post"
      unfolding reads
    proof (rule yields_mono [OF read], simp (no_asm_use) only: split_paired_all prod.case, elim conjE exE)
      fix v :: u32 and s2 and x :: addr and n
      assume R: "v = 0" "fs_step s1 s2" "kept ?h ?F (?L - {B}) (ram s1) (ram s2)" "?M (insert (unat x, n) ?L) s2"
        "bytes_at (ram s2) buffer (unat sz) = take (unat sz) (drop (unat offset) (cluster_bytes V (first_cluster_of e)))"
      have "kept ?h ?F (L - {B}) (ram s) (ram s2)"
        by (rule kept_trans [OF kept_mono [OF A(2)] kept_mono [OF R(3)]]) auto
      then show "v = 0 \<and> fs_step s s2
        \<and> bytes_at (ram s2) buffer (unat sz) = take (unat sz) (drop (unat offset) (cluster_bytes V (first_cluster_of e)))
        \<and> kept ?h ?F (L - {B}) (ram s) (ram s2) \<and> (\<exists>L'. L \<subseteq> L' \<and> ?M L' s2)"
        by (intro conjI exI [of _ "insert (unat x, n) ?L"] R(1,4,5) fs_step_trans [OF A(1) R(2)]) auto
    qed
  qed
qed

end

section \<open>Over the IDE driver\<close>

lemma open_result_mono: "open_result M L env cs lb bs t p s \<Longrightarrow> (\<And>L. M L s \<Longrightarrow> M' L s) \<Longrightarrow> open_result M' L env cs lb bs t p s"
  by (cases t) (simp_all, blast)

text \<open>The root node, in a live allocation.\<close>

definition root_mounted :: "'d kenv \<Rightarrow> 'd logical_block_device \<Rightarrow> addr \<Rightarrow> (nat \<times> nat) set \<Rightarrow> 'd kstate \<Rightarrow> bool" where
  "root_mounted env lbdev bs L s \<longleftrightarrow> (\<exists>k \<ge> 184. (unat (fs_root s), k) \<in> L) \<and> node_private (ram s) (fs_root s) = bs
     \<and> lbdev_at env (node_lbdev (ram s) (fs_root s)) = lbdev \<and> node_open (ram s) (fs_root s) = link env ''open_fat32''"



lemma tiny_root_mounted: "root_mounted tiny_env tiny_lbdev 0x1010 tiny_blocks (tiny_state m)"
  by (auto simp: root_mounted_def tiny_state_def tiny_env_def demo_env_def)



end
