(* ===== verification/Spec2Isabelle.thy ===== *)
theory Spec2Isabelle
  imports Heap_Init Tty_Format Pci Mbr Initrd_Gen Shell_Parse Fat32_Open
begin

text \<open>
  A model of the LuhOS32 kernel (\<^verbatim>\<open>src/kernel\<close>) and of the tool that packs its ram disk
  (\<^verbatim>\<open>src/tools/initrd_gen\<close>). This theory imports all parts; it holds the documentation.

  \<^bold>\<open>Conventions.\<close> C integers are words of their width (\<open>u8\<close>, \<open>u16\<close>, \<open>u32\<close>, \<open>u64\<close>), so that wrap-around is
  that of the machine; signed values are read with \<open>sint\<close>. Memory is a total function from 32-bit
  addresses to bytes (\<open>mem\<close>, theory \<open>Memory\<close>) with little-endian \<open>load32\<close> and \<open>store32\<close>; a C pointer is
  an address, a structure in memory is a base address with accessors at the offsets of its fields.
  Structures that only the C code sees, and whose address is never taken by another part, are records.
  Static variables are fields of the state records or are passed and returned explicitly.

  \<^bold>\<open>Outcomes\<close> (\<open>Kernel_Prelude\<close>). A routine that may fail returns \<open>'a outcome\<close>: \<open>Ret x\<close>, \<open>Panic msg\<close>
  (\<^verbatim>\<open>PANIC_PRINT\<close> and \<^verbatim>\<open>PANIC_CODE\<close>, after which nothing runs), or \<open>Fault\<close> (the program left the bounds of an
  array or called through an address that is no function). A routine with a loop that the code does not
  bound is a \<open>partial_function\<close> of type \<open>'a run\<close>, where \<open>None\<close> means that it does not return; loops with a
  counter are total functions with a measure. No fuel is used anywhere. Status codes stay numbers.

  \<^bold>\<open>Parts\<close>, from the bottom:

  \<^item> \<open>CString\<close> (\<^verbatim>\<open>lib/string.c\<close>): every string and memory routine, as a function of memory. The lemmas
    relate them to lists of bytes: \<open>cstr m p bs\<close> says that \<open>bs\<close> with a NUL is at \<open>p\<close>.
  \<^item> \<open>Keycode\<close>, \<open>Cast\<close> (the enumeration of \<^verbatim>\<open>dev/input_device.h\<close>, \<^verbatim>\<open>lib/cast.c\<close>, \<^verbatim>\<open>lib/ascii.c\<close>): the key codes; numerals,
    error strings, the translation of keys. The theorems say which numeral is written, for every value, and that the
    translation is that of one table.
  \<^item> \<open>Page_Allocator\<close> (\<^verbatim>\<open>mem/page_allocator.c\<close>): the bitmap of pages. The locale \<open>bit_store\<close> is the contract of a
    bit array, interpreted on \<open>bit_get\<close>, \<open>bit_set\<close>, \<open>bit_clear\<close>; \<open>page_free_at\<close> is the abstract set of free pages.
  \<^item> \<open>Paging\<close> (\<^verbatim>\<open>arch/i686/paging.c\<close>, \<^verbatim>\<open>paging.asm\<close>): directories and tables in memory, \<open>paging_set\<close>,
    \<open>paging_map_to\<close>, translation. \<open>directory_wf\<close> says that the tables of a directory are apart; mapping is
    shown to change the translation of the mapped pages and of no other.
  \<^item> \<open>Kernel_Heap\<close>, \<open>Heap_Contract\<close>, \<open>Heap_Init\<close> (\<^verbatim>\<open>sys/heap.c\<close>): the list of chunks. \<open>heap_wf m b bs\<close> is the
    abstraction to a list of blocks (size and allocated flag); allocation refines first fit on that list, \<open>kfree\<close>
    refines release with merging of neighbours. \<open>heap_inv h m L\<close> abstracts further to the set \<open>L\<close> of live
    allocations; the locale \<open>allocator\<close> is the contract that callers use, interpreted on \<open>kmalloc\<close> and \<open>kfree\<close>.
    \<open>strdup\<close>, \<open>strndup\<close> and \<open>krealloc\<close> are proved over it. \<open>Heap_Init\<close> maps the pages of the heap.
  \<^item> \<open>Char_Device\<close>, \<open>Tty\<close>, \<open>Tty_Screen\<close>, \<open>Tty_Format\<close> (\<^verbatim>\<open>dev/char_device.c\<close>, \<^verbatim>\<open>dev/tty/ega/ega_driver.c\<close>, \<^verbatim>\<open>sys/tty.c\<close>): the record of
    functions of a device, the EGA driver, and printing. The locale \<open>text_device\<close> is the contract of a screen of
    cells, interpreted on the EGA driver; printing is refined to typing on an abstract screen. \<open>Tty_Format\<close> does the same
    for \<^verbatim>\<open>kprintf\<close>: a format is a list of directives, \<open>formatted\<close> says which text they stand for, and the locale
    \<open>format_device\<close> adds to the contract what the buffer of the conversions must not touch.
  \<^item> \<open>Ports\<close> (\<^verbatim>\<open>arch/i686/ports.c\<close>): the six port instructions as functions of the parameter \<open>io_ports\<close> on a
    device state \<open>'d\<close>. All hardware behind ports is this parameter.
  \<^item> \<open>Pci\<close> (\<^verbatim>\<open>dev/pci.c\<close>): configuration space, scan of buses, devices and functions.
  \<^item> \<open>Block_Device\<close>, \<open>Ide\<close>, \<open>Mbr\<close> (\<^verbatim>\<open>dev/block_device.c\<close>, \<^verbatim>\<open>dev/disk/ide/ide.c\<close>, \<^verbatim>\<open>fs/mbr.c\<close>): requests, the registries,
    the driver, partitions. The locale \<open>block_store\<close> is the contract of a disk of sectors; it is interpreted on
    the driver for every controller that behaves as the hypothesis \<open>ata_drive\<close>, the documented behaviour of a drive, says.
  \<^item> \<open>Kernel_State\<close>: \<open>kstate\<close> is what the upper parts share (memory, device state, the static of \<^verbatim>\<open>strtok\<close>, the
    terminal, \<^verbatim>\<open>fs_root\<close>), \<open>kenv\<close> what compiler and linker fix: the addresses of literals (by their text), of local
    arrays and of functions (by name).
  \<^item> \<open>Fat32\<close>, \<open>Initrd\<close>, \<open>Vfs\<close>, \<open>Initrd_Gen\<close> (\<^verbatim>\<open>fs/fat32.c\<close>, \<^verbatim>\<open>fs/initrd.c\<close>, \<^verbatim>\<open>fs/vfs.c\<close>,
    \<^verbatim>\<open>tools/initrd_gen/initrd_gen.c\<close>): the file systems and the dispatch through the pointers of a node. A call
    through a pointer compares the address with those of the functions the kernel stores in nodes. The packing
    tool and the reader are related by a round trip.
  \<^item> \<open>Heap_Frame\<close>, \<open>Fat32_Names\<close>, \<open>Fat32_Lookup\<close>, \<open>Fat32_Volume\<close>, \<open>Fat32_Path\<close>, \<open>Fat32_File\<close>, \<open>Fat32_Open\<close>: no new
    code, but the correctness of the FAT32 reader from the disk up to the virtual file system. \<open>Heap_Frame\<close> is a
    small calculus for routines that allocate, used for the parser of the shell too: \<open>yields\<close> (the routine returns with a postcondition, or stops with one of two named panics), \<open>unchanged\<close> and \<open>kept\<close> (what stays as it was).
    \<open>entry_text\<close> specifies the name of an entry, long names included, \<open>found_in\<close> the search of one cluster, \<open>dir_walk\<close> that
    of a directory and \<open>resolves\<close> that of a path, all in the abstract volume \<open>fat_view\<close>; the code is proved to compute
    them inside \<open>context block_store\<close>, for every block device with the contract, and \<open>Fat32_File\<close> instantiates the
    results with the IDE driver; \<open>Fat32_Open\<close> adds the nodes (\<open>opened_node\<close>) and the composition of \<^verbatim>\<open>open_fs\<close> and
    \<^verbatim>\<open>read_fs\<close>. The volumes considered have clusters of one sector of 512 bytes, for which the code
    computes the right sectors, and the successor of a cluster in \<open>fat_view\<close> is the one the code computes (one byte of
    the table).
  \<^item> \<open>Task\<close>, \<open>Process\<close> (\<^verbatim>\<open>sys/task.c\<close>, \<^verbatim>\<open>arch/i686/task.asm\<close>, \<^verbatim>\<open>sys/process.c\<close>): the list of tasks, switching, the first
    return to user mode, the process table and the mapping of a program. \<open>task_list\<close> relates the linked list to
    a HOL list; \<open>ends_in\<close> is a small calculus of postconditions used for the process table.
  \<^item> \<open>Input_Device\<close>, \<open>Keyboard\<close> (\<^verbatim>\<open>dev/input_device.c\<close>, \<^verbatim>\<open>dev/input/keyboard_ps2/keyboard.c\<close>): events and the buffer of scan
    codes. The locale \<open>event_queue\<close> is the contract of a bounded queue, interpreted on interrupt and poll.
  \<^item> \<open>Interrupts\<close>, \<open>Irq\<close> (\<^verbatim>\<open>arch/i686/gdt.c\<close>, \<^verbatim>\<open>idt.c\<close>, \<^verbatim>\<open>isr.c\<close>): descriptor tables and the handlers. \<open>Irq\<close> defines
    \<open>machine\<close>, the state of the whole kernel.
  \<^item> \<open>Boot\<close> (\<^verbatim>\<open>sys/kernel.c\<close>): \<open>kernel_main\<close> from the boot information to the first user instruction.
  \<^item> \<open>Shell\<close>, \<open>Shell_Parse\<close> (\<^verbatim>\<open>sys/shell.c\<close>): parsing, the commands, and the endless loop as an inductive step relation
    that interleaves with interrupts. \<open>Shell_Parse\<close> follows the parser through the contract of the heap: \<open>words\<close> is the
    specification, \<open>parsing\<close> the invariant of its loop.

  \<^bold>\<open>Interaction.\<close> \<open>kernel_main\<close> runs the parts in the order of the code and hands each the state the one before
  left. Interrupts reach the keyboard's handler through the table \<open>interrupt_handlers\<close>; the shell polls the
  devices registered in \<open>input_devices\<close>; the virtual file system dispatches to FAT32 or the ram disk; FAT32
  reads through the logical device, the request layer and the driver to the ports.

  \<^bold>\<open>What the properties show.\<close> For each part: invariants that its operations keep (heap, task list, process table,
  registries, free pages), the result of its operations on every branch, refinement to an abstract
  specification (first fit, queue, screen, sectors), termination of the loops the code does not bound where they
  do end, round trips, and error paths. Several properties state what the code does where that is not what it
  means to do; they are listed as findings in the manifest.

  \<^bold>\<open>Limits of the model.\<close> The memory is the kernel's virtual view: \<open>boot_memory\<close> applies the translation of the new page
  directory once, when paging is enabled, and the aliasing of a heap page with its frame is not modelled after
  that. Block and input devices are records held in lists, not structures in memory; the addresses of their names
  are a parameter of the shell. What \<^verbatim>\<open>page_alloc_init\<close> prints is not modelled. The contents of literals are assumed
  only where a theorem says so. \<open>Fault\<close> is raised for arrays that are lists in the model; for writes into memory
  behind an object (as in the parser of the shell) the model writes where the machine would.

  \<^bold>\<open>Not modelled.\<close> The assembly stubs that save registers, load descriptor tables and enter the kernel, which
  are not C; the hardware; \<open>kernel_main\<close> after \<^verbatim>\<open>task_run_first_task\<close>, which is never reached; declarations, unused
  constants and the unused structures of \<^verbatim>\<open>multiboot2.h\<close> and \<^verbatim>\<open>ide.c\<close>.
\<close>

end
